(* ===== verification/Prelude.thy ===== *)
theory Prelude
  imports Main "HOL-Library.Word" "HOL-Library.Sublist" "HOL-Library.State_Monad"
begin

text \<open>
  Shared vocabulary of the development: C strings as NUL-free character lists, decimal and
  hexadecimal output as \<^verbatim>\<open>printf\<close> produces it, path components, and a small program
  logic for state-monad programs (total triples, and a locale of step relations that are
  closed under sequencing).
\<close>

unbundle bit_operations_syntax

named_theorems run_simps
  \<open>equations that run one primitive on a given world\<close>
named_theorems step_rules
  \<open>introduction rules for relations between the world before and after a program\<close>

type_synonym bytes = "char list"
type_synonym path = string
type_synonym fkey = "string list"

section \<open>C strings\<close>

abbreviation NUL :: char where "NUL \<equiv> CHR 0x00"
abbreviation slash :: char where "slash \<equiv> CHR ''/''"

text \<open>A C string: no character is NUL. \<open>cstr\<close> reads the string at the start of a buffer.\<close>

definition is_cstr :: "string \<Rightarrow> bool" where
  "is_cstr s \<longleftrightarrow> NUL \<notin> set s"

definition cstr :: "bytes \<Rightarrow> string" where
  "cstr b = takeWhile (\<lambda>c. c \<noteq> NUL) b"

lemma cstr_append_NUL [simp]: "is_cstr s \<Longrightarrow> cstr (s @ NUL # r) = s"
  unfolding cstr_def is_cstr_def by (subst takeWhile_append2) auto

lemma cstr_id [simp]: "is_cstr s \<Longrightarrow> cstr s = s"
  unfolding cstr_def is_cstr_def takeWhile_eq_all_conv by blast

lemma is_cstr_cstr [simp]: "is_cstr (cstr b)"
  by (auto simp: cstr_def is_cstr_def dest: set_takeWhileD)

lemma length_cstr: "length (cstr b) \<le> length b"
  by (simp add: cstr_def length_takeWhile_le)

lemma is_cstr_simps [simp]:
  "is_cstr []"
  "is_cstr (c # s) \<longleftrightarrow> c \<noteq> NUL \<and> is_cstr s"
  "is_cstr (s @ t) \<longleftrightarrow> is_cstr s \<and> is_cstr t"
  by (auto simp: is_cstr_def)

text \<open>
  \<^verbatim>\<open>snprintf(out, size, "%s", s)\<close>: what is stored (cut to \<open>sz - 1\<close> characters) and what
  is returned (the length it wanted to write).
\<close>

definition snprintf_s :: "nat \<Rightarrow> string \<Rightarrow> string \<times> nat" where
  "snprintf_s sz s = (take (sz - 1) s, length s)"

lemma snprintf_s_fits: "length s < sz \<Longrightarrow> snprintf_s sz s = (s, length s)"
  by (simp add: snprintf_s_def)

text \<open>\<^verbatim>\<open>strstr(hay, needle) != NULL\<close>.\<close>

fun strstr :: "string \<Rightarrow> string \<Rightarrow> bool" where
  "strstr [] needle = (needle = [])"
| "strstr (c # cs) needle = (prefix needle (c # cs) \<or> strstr cs needle)"

lemma strstr_iff: "strstr hay needle \<longleftrightarrow> (\<exists>xs ys. hay = xs @ needle @ ys)"
proof (induction hay)
  case Nil
  then show ?case by auto
next
  case (Cons c cs)
  have "(\<exists>xs ys. c # cs = xs @ needle @ ys) \<longleftrightarrow>
      prefix needle (c # cs) \<or> (\<exists>xs ys. cs = xs @ needle @ ys)"
    by (auto simp: prefix_def append_eq_Cons_conv Cons_eq_append_conv)
  then show ?case using Cons.IH by simp
qed

text \<open>Index of the last occurrence of a character: \<^verbatim>\<open>strrchr\<close>.\<close>

fun strrchr :: "string \<Rightarrow> char \<Rightarrow> nat option" where
  "strrchr [] c = None"
| "strrchr (x # xs) c =
     (case strrchr xs c of
        Some i \<Rightarrow> Some (Suc i)
      | None \<Rightarrow> if x = c then Some 0 else None)"

lemma strrchr_None: "strrchr s c = None \<longleftrightarrow> c \<notin> set s"
  by (induction s) (auto split: option.splits)

lemma strrchr_Some:
  "strrchr s c = Some i \<Longrightarrow> i < length s \<and> s ! i = c \<and> c \<notin> set (drop (Suc i) s)"
  by (induction s arbitrary: i) (auto split: option.splits if_splits simp: strrchr_None)

lemma strrchr_split: "c \<notin> set t \<Longrightarrow> strrchr (s @ c # t) c = Some (length s)"
  by (induction s) (auto simp: strrchr_None split: option.splits)

section \<open>Numbers as text\<close>

definition digit_char :: "nat \<Rightarrow> char" where
  "digit_char d = (if d < 10 then char_of (48 + d) else char_of (87 + d))"

text \<open>\<^verbatim>\<open>%d\<close>, \<^verbatim>\<open>%u\<close> and friends.\<close>

fun dec :: "nat \<Rightarrow> string" where
  "dec n = (if n < 10 then [digit_char n] else dec (n div 10) @ [digit_char (n mod 10)])"

declare dec.simps [simp del]

text \<open>Reading decimal digits back.\<close>

definition is_digit :: "char \<Rightarrow> bool" where
  "is_digit c \<longleftrightarrow> 48 \<le> (of_char c :: nat) \<and> (of_char c :: nat) \<le> 57"

definition dec_val :: "string \<Rightarrow> nat" where
  "dec_val s = foldl (\<lambda>n c. 10 * n + (of_char c - 48)) 0 s"

lemma is_digit_char: "d < 10 \<Longrightarrow> is_digit (digit_char d) \<and> of_char (digit_char d) = 48 + d"
  by (simp add: is_digit_def digit_char_def of_char_of)

lemma dec_val_snoc: "dec_val (s @ [c]) = 10 * dec_val s + (of_char c - 48)"
  by (simp add: dec_val_def)

lemma dec_digits: "dec n \<noteq> [] \<and> list_all is_digit (dec n) \<and> dec_val (dec n) = n"
proof (induction n rule: dec.induct)
  case (1 n)
  show ?case
  proof (cases "n < 10")
    case True
    then show ?thesis using is_digit_char [of n] by (simp add: dec.simps [of n] dec_val_def)
  next
    case False
    have "n mod 10 < 10" by simp
    from is_digit_char [OF this] show ?thesis
      using False 1 by (simp add: dec.simps [of n] dec_val_snoc)
  qed
qed

definition show_int :: "int \<Rightarrow> string" where
  "show_int i = (if i < 0 then CHR ''-'' # dec (nat (- i)) else dec (nat i))"

definition pad2 :: "nat \<Rightarrow> string" where
  "pad2 n = (if n < 10 then CHR ''0'' # dec n else dec n)"

text \<open>\<^verbatim>\<open>%016" PRIx64\<close>: sixteen nibbles, most significant first.\<close>

definition hex16 :: "64 word \<Rightarrow> string" where
  "hex16 w = map (\<lambda>i. digit_char (unat (take_bit 4 (drop_bit (4 * i) w)))) (rev [0..<16])"

lemma length_hex16 [simp]: "length (hex16 w) = 16"
  by (simp add: hex16_def)

section \<open>Path components\<close>

fun split_on :: "char \<Rightarrow> string \<Rightarrow> string list" where
  "split_on c [] = [[]]"
| "split_on c (x # xs) =
     (let r = split_on c xs in if x = c then [] # r else (x # hd r) # tl r)"

lemma split_on_nonempty [simp]: "split_on c s \<noteq> []"
  by (cases s) (simp_all add: Let_def)

lemma split_on_append: "split_on c (s @ c # t) = split_on c s @ split_on c t"
  by (induction s) (simp_all add: Let_def)

lemma split_on_single: "c \<notin> set s \<Longrightarrow> split_on c s = [s]"
  by (induction s) (auto simp: Let_def)

lemma split_on_snoc:
  "c \<notin> set t \<Longrightarrow> split_on c (s @ t) = butlast (split_on c s) @ [last (split_on c s) @ t]"
proof (induction s)
  case Nil
  then show ?case by (simp add: split_on_single)
next
  case (Cons x xs)
  then obtain y ys where r: "split_on c xs = y # ys"
    by (cases "split_on c xs") auto
  with Cons show ?case by (auto simp: Let_def)
qed

lemma split_on_mem: "p \<in> set (split_on c s) \<Longrightarrow> c \<notin> set p"
proof (induction s arbitrary: p)
  case Nil
  then show ?case by simp
next
  case (Cons x xs)
  then obtain y ys where r: "split_on c xs = y # ys"
    by (cases "split_on c xs") auto
  with Cons show ?case by (auto simp: Let_def split: if_splits)
qed

text \<open>\<open>join_on\<close> undoes \<open>split_on\<close>, so each component is delimited in the string.\<close>

fun join_on :: "char \<Rightarrow> string list \<Rightarrow> string" where
  "join_on c [] = []"
| "join_on c [x] = x"
| "join_on c (x # y # ys) = x @ c # join_on c (y # ys)"

lemma join_on_Cons: "ys \<noteq> [] \<Longrightarrow> join_on c (x # ys) = x @ c # join_on c ys"
  by (cases ys) simp_all

lemma join_split: "join_on c (split_on c s) = s"
proof (induction s)
  case Nil
  then show ?case by simp
next
  case (Cons x xs)
  obtain y ys where r: "split_on c xs = y # ys"
    by (cases "split_on c xs") auto
  with Cons show ?case by (cases ys) (auto simp: Let_def)
qed

lemma join_on_append:
  "xs \<noteq> [] \<Longrightarrow> ys \<noteq> [] \<Longrightarrow> join_on c (xs @ ys) = join_on c xs @ c # join_on c ys"
proof (induction xs)
  case Nil
  then show ?case by simp
next
  case (Cons x xs)
  then show ?case by (cases "xs = []") (simp_all add: join_on_Cons)
qed

lemma split_on_context:
  assumes "p \<in> set (split_on c s)"
  shows "s = p \<or> (\<exists>v. s = p @ c # v) \<or> (\<exists>u v. s = u @ c # p @ v)"
proof -
  from assms obtain as bs where e: "split_on c s = as @ p # bs"
    by (auto dest: split_list)
  have s: "s = join_on c (as @ p # bs)"
    using join_split [of c s] e by simp
  show ?thesis
  proof (cases "as = []")
    case True
    with s show ?thesis by (cases "bs = []") (auto simp: join_on_Cons)
  next
    case False
    then have "s = join_on c as @ c # join_on c (p # bs)"
      using s by (simp add: join_on_append)
    moreover have "\<exists>v. join_on c (p # bs) = p @ v"
      by (cases "bs = []") (auto simp: join_on_Cons)
    ultimately show ?thesis by metis
  qed
qed

text \<open>
  Lexical resolution of a component list: empty components and \<open>.\<close> stay, \<open>..\<close> goes to
  the parent. \<open>path_key\<close> is the place in the tree a path names, seen from the working
  directory.
\<close>

fun push_comp :: "fkey \<Rightarrow> string \<Rightarrow> fkey" where
  "push_comp k c =
     (if c = [] \<or> c = ''.'' then k else if c = ''..'' then butlast k else k @ [c])"

declare push_comp.simps [simp del]

definition path_key :: "fkey \<Rightarrow> path \<Rightarrow> fkey" where
  "path_key cwd p =
     foldl push_comp (if p \<noteq> [] \<and> hd p = slash then [] else cwd) (split_on slash p)"

lemma foldl_push_plain:
  "''..'' \<notin> set cs \<Longrightarrow> foldl push_comp k cs = k @ filter (\<lambda>c. c \<noteq> [] \<and> c \<noteq> ''.'') cs"
  by (induction cs arbitrary: k) (auto simp: push_comp.simps)

text \<open>Appending below a path with a slash appends the components of the tail.\<close>

lemma path_key_append_slash:
  assumes "p \<noteq> []"
  shows "path_key cwd (p @ slash # t) = foldl push_comp (path_key cwd p) (split_on slash t)"
  using assms by (simp add: path_key_def split_on_append)

lemma path_key_dir_slash: "p \<noteq> [] \<Longrightarrow> path_key cwd (p @ [slash]) = path_key cwd p"
  by (simp add: path_key_append_slash push_comp.simps)

section \<open>Step relations of programs\<close>

text \<open>
  \<open>valid P m Q\<close>: run from a world that satisfies \<open>P\<close>, the program \<open>m\<close> returns a result and
  a world related by \<open>Q\<close> (programs of this development are total functions).
\<close>

definition valid :: "('s \<Rightarrow> bool) \<Rightarrow> ('s, 'a) state \<Rightarrow> ('a \<Rightarrow> 's \<Rightarrow> bool) \<Rightarrow> bool" where
  "valid P m Q \<longleftrightarrow> (\<forall>s. P s \<longrightarrow> (case run_state m s of (r, s') \<Rightarrow> Q r s'))"

lemma validI: "(\<And>s r s'. P s \<Longrightarrow> run_state m s = (r, s') \<Longrightarrow> Q r s') \<Longrightarrow> valid P m Q"
  by (auto simp: valid_def split: prod.splits)

lemma validD: "valid P m Q \<Longrightarrow> P s \<Longrightarrow> run_state m s = (r, s') \<Longrightarrow> Q r s'"
  by (auto simp: valid_def)

lemma valid_bind:
  "valid P m R \<Longrightarrow> (\<And>x. valid (R x) (f x) Q) \<Longrightarrow> valid P (State_Monad.bind m f) Q"
  by (fastforce simp: valid_def split: prod.splits)

lemma valid_return: "(\<And>s. P s \<Longrightarrow> Q x s) \<Longrightarrow> valid P (State_Monad.return x) Q"
  by (simp add: valid_def)

lemma valid_pre: "valid P m Q \<Longrightarrow> (\<And>s. P' s \<Longrightarrow> P s) \<Longrightarrow> valid P' m Q"
  by (auto simp: valid_def)

lemma valid_post: "valid P m Q \<Longrightarrow> (\<And>r s. Q r s \<Longrightarrow> Q' r s) \<Longrightarrow> valid P m Q'"
  by (fastforce simp: valid_def split: prod.splits)

lemma bind_runE:
  assumes "run_state (State_Monad.bind m f) s = (r, s'')"
  obtains x s' where "run_state m s = (x, s')" and "run_state (f x) s' = (r, s'')"
  using assms by (auto split: prod.splits)

text \<open>
  A reflexive and transitive relation between worlds is kept by a program as soon as each of
  its primitive calls keeps it: the client lemmas are proved once here, and used with "no key
  outside \<open>S\<close> changes", "the output only grows" and the like.
\<close>

locale step_relation =
  fixes R :: "'s \<Rightarrow> 's \<Rightarrow> bool"
  assumes refl: "R s s"
    and trans: "R s t \<Longrightarrow> R t u \<Longrightarrow> R s u"
begin

lemma return: "state_io_rel R (State_Monad.return x)"
  by (rule state_io_relI) (auto intro: refl)

lemma bind:
  assumes "state_io_rel R m" and "\<And>x. state_io_rel R (f x)"
  shows "state_io_rel R (State_Monad.bind m f)"
  using assms by (auto simp: state_io_rel_def split: prod.splits) (metis snd_conv trans)

lemma bind_result:
  assumes "state_io_rel R m" and "\<And>x s s'. run_state m s = (x, s') \<Longrightarrow> state_io_rel R (f x)"
  shows "state_io_rel R (State_Monad.bind m f)"
proof (rule state_io_relI)
  fix a s s'
  assume "run_state (State_Monad.bind m f) s = (a, s')"
  then obtain x t where x: "run_state m s = (x, t)" and fx: "run_state (f x) t = (a, s')"
    by (rule bind_runE)
  from assms(1) x have "R s t" by (rule state_io_relD)
  moreover from assms(2) [OF x] fx have "R t s'" by (rule state_io_relD)
  ultimately show "R s s'" by (rule trans)
qed

lemma get: "state_io_rel R State_Monad.get"
  by (rule state_io_relI) (auto intro: refl)

lemma cond:
  assumes "b \<Longrightarrow> state_io_rel R m" and "\<not> b \<Longrightarrow> state_io_rel R n"
  shows "state_io_rel R (if b then m else n)"
  using assms by simp

lemma case_opt:
  assumes "x = None \<Longrightarrow> state_io_rel R m" and "\<And>a. x = Some a \<Longrightarrow> state_io_rel R (f a)"
  shows "state_io_rel R (case x of None \<Rightarrow> m | Some a \<Rightarrow> f a)"
  using assms by (cases x) auto

lemma case_sum:
  assumes "\<And>e. x = Inl e \<Longrightarrow> state_io_rel R (f e)" and "\<And>a. x = Inr a \<Longrightarrow> state_io_rel R (g a)"
  shows "state_io_rel R (case x of Inl e \<Rightarrow> f e | Inr a \<Rightarrow> g a)"
  using assms by (cases x) auto

lemma runD: "state_io_rel R m \<Longrightarrow> run_state m s = (r, s') \<Longrightarrow> R s s'"
  by (auto simp: state_io_rel_def dest: spec [of _ s])

lemmas rules = return bind get cond case_opt case_sum

end

end
