(* ===== verification/Posix.thy ===== *)
theory Posix
  imports Prelude "HOL-Library.AList"
begin

text \<open>
  The part of the C library and of the kernel that MiniSync calls: a file tree, byte-stream
  descriptors (pipes and sockets), clocks, and the failures calls can have. Every call first
  consults the \<^emph>\<open>script\<close> of the world, a finite list of disturbances (a failure with a given
  errno, or a short transfer); when it is used up every call does all it was asked for. A
  terminating run makes finitely many calls, so each such run has a script, and a theorem
  that holds for every world holds whatever fails when.

  Open descriptors of regular files are represented by the place of the file in the tree and
  an explicit offset; symbolic links, permissions and directory times are not represented.
\<close>

section \<open>The world\<close>

datatype errno =
    EINTR | EAGAIN | ENOENT | EEXIST | ENOTDIR | EISDIR | ENOTEMPTY | EXDEV | EINVAL | EBUSY
  | EACCES | EIO | ENOSPC | EPIPE | EBADF | ENOMEM | EOTHER nat

datatype outcome = Go | Short nat | Fail errno

text \<open>Nodes carry permission bits and a modification time.\<close>

datatype node = Reg bytes "32 word" int | Dir "32 word" int | Special "32 word" int

type_synonym fstree = "(fkey \<times> node) list"

record tm =
  tm_year :: nat
  tm_mon :: nat
  tm_mday :: nat
  tm_hour :: nat
  tm_min :: nat
  tm_sec :: nat

record world =
  w_fs :: fstree
  w_cwd :: fkey
  w_umask :: "32 word"
  w_script :: "outcome list"
  w_time :: int
  w_localtime :: "int \<Rightarrow> tm"
  w_mono :: "int \<times> int"
  w_rx :: "int \<Rightarrow> bytes"
  w_tx :: "int \<Rightarrow> bytes"
  w_log :: "(path \<times> string) list"
  w_pid :: int

type_synonym 'a prog = "(world, 'a) state"

text \<open>A call: it fails as scripted, or does its work.\<close>

definition syscall :: "(world \<Rightarrow> (errno + 'a) \<times> world) \<Rightarrow> (errno + 'a) prog" where
  "syscall f = State (\<lambda>w.
     case w_script w of
       [] \<Rightarrow> f w
     | x # xs \<Rightarrow>
         (case x of
            Fail e \<Rightarrow> (Inl e, w\<lparr>w_script := xs\<rparr>)
          | _ \<Rightarrow> f (w\<lparr>w_script := xs\<rparr>)))"

text \<open>How much of \<open>n\<close> bytes one transfer moves.\<close>

fun transfer_limit :: "outcome list \<Rightarrow> nat \<Rightarrow> nat" where
  "transfer_limit (Short k # xs) n = min k n"
| "transfer_limit xs n = n"

lemma transfer_limit_le: "transfer_limit xs n \<le> n"
  by (induction xs n rule: transfer_limit.induct) auto

definition rest_script :: "world \<Rightarrow> world" where
  "rest_script w = w\<lparr>w_script := tl (w_script w)\<rparr>"

lemma rest_script_simps [simp]:
  "w_fs (rest_script w) = w_fs w" "w_cwd (rest_script w) = w_cwd w"
  "w_rx (rest_script w) = w_rx w" "w_tx (rest_script w) = w_tx w"
  "w_log (rest_script w) = w_log w" "w_umask (rest_script w) = w_umask w"
  "w_time (rest_script w) = w_time w" "w_mono (rest_script w) = w_mono w"
  "w_pid (rest_script w) = w_pid w" "w_localtime (rest_script w) = w_localtime w"
  "w_script (rest_script w) = tl (w_script w)"
  by (simp_all add: rest_script_def)

lemma rest_script_Nil [simp]: "w_script w = [] \<Longrightarrow> rest_script w = w"
  by (simp add: rest_script_def)

lemma script_Nil_upd [simp]: "w_script w = [] \<Longrightarrow> w\<lparr>w_script := []\<rparr> = w"
  by (cases w) simp

text \<open>A call either fails, using up one disturbance, or runs on the rest of the script.\<close>

lemma syscall_cases:
  "run_state (syscall f) w = f (rest_script w) \<or>
   (\<exists>e xs. w_script w = Fail e # xs \<and> run_state (syscall f) w = (Inl e, rest_script w))"
  by (auto simp: syscall_def rest_script_def split: list.splits outcome.splits)

lemma run_syscall [run_simps]: "w_script w = [] \<Longrightarrow> run_state (syscall f) w = f w"
  by (simp add: syscall_def)

section \<open>The file tree\<close>

definition fs_get :: "fstree \<Rightarrow> fkey \<Rightarrow> node option" where
  "fs_get fs k = map_of fs k"

definition fs_put :: "fkey \<Rightarrow> node \<Rightarrow> fstree \<Rightarrow> fstree" where
  "fs_put k n fs = AList.update k n fs"

definition fs_del :: "fkey \<Rightarrow> fstree \<Rightarrow> fstree" where
  "fs_del k fs = AList.delete k fs"

text \<open>Names of the entries of a directory, in the order \<^verbatim>\<open>readdir\<close> gives them.\<close>

definition fs_children :: "fstree \<Rightarrow> fkey \<Rightarrow> string list" where
  "fs_children fs k = [last k'. (k', n) \<leftarrow> fs, k' \<noteq> [] \<and> butlast k' = k]"

text \<open>Moving a node takes everything below it along; the target is a leaf.\<close>

definition fs_move :: "fkey \<Rightarrow> fkey \<Rightarrow> fstree \<Rightarrow> fstree" where
  "fs_move a b fs =
     map (\<lambda>(k, n). (if prefix a k then b @ drop (length a) k else k, n))
       (filter (\<lambda>(k, n). k \<noteq> b) fs)"

lemma fs_get_put [simp]: "fs_get (fs_put k n fs) k' = (if k' = k then Some n else fs_get fs k')"
  by (simp add: fs_get_def fs_put_def update_conv')

lemma fs_get_del [simp]: "fs_get (fs_del k fs) k' = (if k' = k then None else fs_get fs k')"
  by (simp add: fs_get_def fs_del_def delete_conv')

lemma fs_get_move:
  assumes "\<not> prefix a b" and "\<not> prefix b a"
    and leaf: "\<And>k n. (k, n) \<in> set fs \<Longrightarrow> prefix b k \<Longrightarrow> k = b"
  shows "fs_get (fs_move a b fs) k =
    (if prefix b k then fs_get fs (a @ drop (length b) k)
     else if prefix a k then None else fs_get fs k)"
  using leaf
proof (induction fs)
  case Nil
  then show ?case by (simp add: fs_get_def fs_move_def)
next
  case (Cons kn fs)
  obtain k1 n1 where kn: "kn = (k1, n1)" by (cases kn)
  have IH: "map_of (fs_move a b fs) k =
    (if prefix b k then map_of fs (a @ drop (length b) k)
     else if prefix a k then None else map_of fs k)"
    using Cons.IH [unfolded fs_get_def] Cons.prems by (meson list.set_intros(2))
  have leaf1: "prefix b k1 \<Longrightarrow> k1 = b"
    using Cons.prems [of k1 n1] kn by simp
  have cons: "fs_move a b (kn # fs) =
      (if k1 = b then fs_move a b fs
       else (if prefix a k1 then b @ drop (length a) k1 else k1, n1) # fs_move a b fs)"
    by (simp add: fs_move_def kn)
  consider "k1 = b" | "k1 \<noteq> b" "prefix a k1" | "k1 \<noteq> b" "\<not> prefix a k1"
    by blast
  then show ?case
  proof cases
    case 1
    then show ?thesis using IH cons assms by (auto simp: fs_get_def kn prefix_def)
  next
    case 2
    then obtain z where z: "k1 = a @ z" by (auto simp: prefix_def)
    have "prefix b k \<Longrightarrow> (k = b @ z) = (a @ drop (length b) k = k1)"
      using z by (auto simp: prefix_def)
    moreover have "\<not> prefix b k \<Longrightarrow> k \<noteq> b @ z" by (auto simp: prefix_def)
    ultimately show ?thesis
      using IH cons 2 z by (auto simp: fs_get_def kn)
  next
    case 3
    have "prefix b k \<Longrightarrow> a @ drop (length b) k \<noteq> k1" using 3 by (auto simp: prefix_def)
    moreover have "prefix b k \<Longrightarrow> k1 \<noteq> k" using leaf1 3 by auto
    ultimately show ?thesis using IH cons 3 by (auto simp: fs_get_def kn)
  qed
qed

text \<open>
  A well-formed tree: the root is a directory and so is the parent of every entry.
\<close>

definition is_dir_node :: "node option \<Rightarrow> bool" where
  "is_dir_node n = (case n of Some (Dir _ _) \<Rightarrow> True | _ \<Rightarrow> False)"

definition is_reg_node :: "node option \<Rightarrow> bool" where
  "is_reg_node n = (case n of Some (Reg _ _ _) \<Rightarrow> True | _ \<Rightarrow> False)"

definition fs_wf :: "fstree \<Rightarrow> bool" where
  "fs_wf fs \<longleftrightarrow> is_dir_node (fs_get fs []) \<and> distinct (map fst fs) \<and>
     (\<forall>k n. fs_get fs k = Some n \<longrightarrow> k \<noteq> [] \<longrightarrow> is_dir_node (fs_get fs (butlast k)))"

lemma is_dir_node_simps [simp]:
  "is_dir_node None = False" "is_dir_node (Some (Dir m t)) = True"
  "is_dir_node (Some (Reg b m t)) = False" "is_dir_node (Some (Special m t)) = False"
  by (simp_all add: is_dir_node_def)

lemma is_reg_node_simps [simp]:
  "is_reg_node None = False" "is_reg_node (Some (Dir m t)) = False"
  "is_reg_node (Some (Reg b m t)) = True" "is_reg_node (Some (Special m t)) = False"
  by (simp_all add: is_reg_node_def)

lemma is_dir_nodeE: "is_dir_node n \<Longrightarrow> (\<And>m t. n = Some (Dir m t) \<Longrightarrow> P) \<Longrightarrow> P"
  by (auto simp: is_dir_node_def split: option.splits node.splits)

lemma is_dir_node_exists: "is_dir_node n \<Longrightarrow> \<exists>x. n = Some x"
  by (auto elim: is_dir_nodeE)

lemma is_reg_nodeE: "is_reg_node n \<Longrightarrow> (\<And>b m t. n = Some (Reg b m t) \<Longrightarrow> P) \<Longrightarrow> P"
  by (auto simp: is_reg_node_def split: option.splits node.splits)

text \<open>Well-formedness is checked entry by entry.\<close>

lemma fs_wf_code [code]:
  "fs_wf fs \<longleftrightarrow> is_dir_node (fs_get fs []) \<and> distinct (map fst fs) \<and>
     list_all (\<lambda>(k, n). k = [] \<or> is_dir_node (fs_get fs (butlast k))) fs"
proof (cases "distinct (map fst fs)")
  case True
  then have "fs_get fs k = Some n \<longleftrightarrow> (k, n) \<in> set fs" for k n by (simp add: fs_get_def)
  then show ?thesis by (auto simp: fs_wf_def list_all_iff)
qed (simp add: fs_wf_def)

text \<open>An existing node has directories all the way up.\<close>

lemma fs_wf_ancestor:
  assumes "fs_wf fs" and "fs_get fs (a @ z) \<noteq> None" and "z \<noteq> []"
  shows "is_dir_node (fs_get fs a)"
  using assms(2,3)
proof (induction z rule: rev_induct)
  case Nil
  then show ?case by simp
next
  case (snoc x z)
  then have d: "is_dir_node (fs_get fs (a @ z))"
    using assms(1) unfolding fs_wf_def by (metis append_assoc butlast_snoc not_None_eq snoc_eq_iff_butlast)
  then show ?case using snoc.IH is_dir_node_exists [OF d] by (cases "z = []") auto
qed

lemma fs_wf_below_file:
  "fs_wf fs \<Longrightarrow> \<not> is_dir_node (fs_get fs a) \<Longrightarrow> z \<noteq> [] \<Longrightarrow> fs_get fs (a @ z) = None"
  using fs_wf_ancestor by blast

lemma fs_wf_childless:
  assumes wf: "fs_wf fs" and nc: "fs_children fs b = []" and e: "fs_get fs (b @ z) \<noteq> None"
  shows "z = []"
proof (rule ccontr)
  assume "z \<noteq> []"
  then obtain c y where z: "z = c # y" by (cases z) auto
  have "fs_get fs (b @ [c]) \<noteq> None"
  proof (cases "y = []")
    case True
    then show ?thesis using e z by simp
  next
    case False
    have "is_dir_node (fs_get fs (b @ [c]))"
      using fs_wf_ancestor [OF wf, of "b @ [c]" y] e z False by simp
    then show ?thesis by (auto dest: is_dir_node_exists)
  qed
  then obtain n where "(b @ [c], n) \<in> set fs"
    by (auto simp: fs_get_def dest: map_of_SomeD)
  then have "c \<in> set (fs_children fs b)"
    by (force simp: fs_children_def)
  then show False using nc by simp
qed

section \<open>Calls on paths\<close>

abbreviation S_IFMT :: "32 word" where "S_IFMT \<equiv> 0xF000"
abbreviation S_IFDIR :: "32 word" where "S_IFDIR \<equiv> 0x4000"
abbreviation S_IFREG :: "32 word" where "S_IFREG \<equiv> 0x8000"
abbreviation S_IFCHR :: "32 word" where "S_IFCHR \<equiv> 0x2000"

definition S_ISDIR :: "32 word \<Rightarrow> bool" where "S_ISDIR m \<longleftrightarrow> m AND S_IFMT = S_IFDIR"
definition S_ISREG :: "32 word \<Rightarrow> bool" where "S_ISREG m \<longleftrightarrow> m AND S_IFMT = S_IFREG"

record fstat =
  st_mode :: "32 word"
  st_size :: int
  st_mtime :: int

fun node_stat :: "node \<Rightarrow> fstat" where
  "node_stat (Reg b m t) = \<lparr>st_mode = S_IFREG OR (m AND 0xFFF), st_size = int (length b), st_mtime = t\<rparr>"
| "node_stat (Dir m t) = \<lparr>st_mode = S_IFDIR OR (m AND 0xFFF), st_size = 4096, st_mtime = t\<rparr>"
| "node_stat (Special m t) = \<lparr>st_mode = S_IFCHR OR (m AND 0xFFF), st_size = 0, st_mtime = t\<rparr>"

lemma type_bits:
  fixes m :: "32 word"
  shows "(S_IFREG OR (m AND 0xFFF)) AND S_IFMT = S_IFREG"
    and "(S_IFDIR OR (m AND 0xFFF)) AND S_IFMT = S_IFDIR"
    and "(S_IFCHR OR (m AND 0xFFF)) AND S_IFMT = S_IFCHR"
  by (simp_all add: bit.conj_disj_distrib2 and.assoc)

lemma S_ISREG_node: "S_ISREG (st_mode (node_stat n)) \<longleftrightarrow> is_reg_node (Some n)"
  by (cases n) (simp_all add: S_ISREG_def type_bits)

lemma S_ISDIR_node: "S_ISDIR (st_mode (node_stat n)) \<longleftrightarrow> is_dir_node (Some n)"
  by (cases n) (simp_all add: S_ISDIR_def type_bits)

definition pkey :: "world \<Rightarrow> path \<Rightarrow> fkey" where
  "pkey w p = path_key (w_cwd w) p"

text \<open>
  The last component of the path is \<open>.\<close> or \<open>..\<close> (or there is none), and the path can only
  name a directory.
\<close>

definition last_dotty :: "path \<Rightarrow> bool" where
  "last_dotty p = (case rev (filter (\<lambda>c. c \<noteq> []) (split_on slash p)) of
     [] \<Rightarrow> True | c # cs \<Rightarrow> c = ''.'' \<or> c = ''..'')"

definition wants_dir :: "path \<Rightarrow> bool" where
  "wants_dir p \<longleftrightarrow> (p \<noteq> [] \<and> last p = slash) \<or> last_dotty p"

definition fs_find :: "world \<Rightarrow> path \<Rightarrow> errno + node" where
  "fs_find w p =
     (if p = [] then Inl ENOENT
      else case fs_get (w_fs w) (pkey w p) of
             None \<Rightarrow> Inl ENOENT
           | Some n \<Rightarrow>
               if wants_dir p \<and> \<not> is_dir_node (Some n) then Inl ENOTDIR else Inr n)"

definition creation_perm :: "world \<Rightarrow> 32 word \<Rightarrow> 32 word" where
  "creation_perm w m = m AND 0xFFF AND NOT (w_umask w)"

text \<open>Is there a directory to create the last component of the path in?\<close>

definition parent_check :: "world \<Rightarrow> path \<Rightarrow> errno + unit" where
  "parent_check w p =
     (case fs_get (w_fs w) (butlast (pkey w p)) of
        None \<Rightarrow> Inl ENOENT
      | Some n \<Rightarrow> if is_dir_node (Some n) then Inr () else Inl ENOTDIR)"

definition do_mkdir :: "path \<Rightarrow> 32 word \<Rightarrow> world \<Rightarrow> (errno + unit) \<times> world" where
  "do_mkdir p m w =
     (if p = [] then (Inl ENOENT, w)
      else if fs_get (w_fs w) (pkey w p) \<noteq> None then (Inl EEXIST, w)
      else if last_dotty p then (Inl ENOENT, w)
      else case parent_check w p of
             Inl e \<Rightarrow> (Inl e, w)
           | Inr _ \<Rightarrow> (Inr (), w\<lparr>w_fs := fs_put (pkey w p) (Dir (creation_perm w m) (w_time w)) (w_fs w)\<rparr>))"

definition sys_mkdir :: "path \<Rightarrow> 32 word \<Rightarrow> (errno + unit) prog" where
  "sys_mkdir p m = syscall (do_mkdir p m)"

definition sys_stat :: "path \<Rightarrow> (errno + fstat) prog" where
  "sys_stat p = syscall (\<lambda>w. (map_sum id node_stat (fs_find w p), w))"

definition sys_access :: "path \<Rightarrow> (errno + unit) prog" where
  "sys_access p = syscall (\<lambda>w. (map_sum id (\<lambda>_. ()) (fs_find w p), w))"

text \<open>
  \<^verbatim>\<open>open(p, O_RDONLY)\<close> and \<^verbatim>\<open>open(p, O_WRONLY | O_CREAT [| O_TRUNC], mode)\<close>. The descriptor
  is represented by the path.
\<close>

definition sys_open_rd :: "path \<Rightarrow> (errno + unit) prog" where
  "sys_open_rd p = syscall (\<lambda>w.
     (case fs_find w p of
        Inl e \<Rightarrow> Inl e
      | Inr (Special _ _) \<Rightarrow> Inl EACCES
      | Inr _ \<Rightarrow> Inr (), w))"

definition do_open_wr :: "path \<Rightarrow> bool \<Rightarrow> 32 word \<Rightarrow> world \<Rightarrow> (errno + unit) \<times> world" where
  "do_open_wr p trunc m w =
     (if p = [] then (Inl ENOENT, w)
      else if wants_dir p then (Inl EISDIR, w)
      else case fs_get (w_fs w) (pkey w p) of
             Some (Dir _ _) \<Rightarrow> (Inl EISDIR, w)
           | Some (Special _ _) \<Rightarrow> (Inl EACCES, w)
           | Some (Reg b m' t) \<Rightarrow>
               (Inr (), if trunc then w\<lparr>w_fs := fs_put (pkey w p) (Reg [] m' (w_time w)) (w_fs w)\<rparr> else w)
           | None \<Rightarrow>
               (case parent_check w p of
                  Inl e \<Rightarrow> (Inl e, w)
                | Inr _ \<Rightarrow> (Inr (), w\<lparr>w_fs := fs_put (pkey w p)
                                    (Reg [] (creation_perm w m) (w_time w)) (w_fs w)\<rparr>)))"

definition sys_open_wr :: "path \<Rightarrow> bool \<Rightarrow> 32 word \<Rightarrow> (errno + unit) prog" where
  "sys_open_wr p trunc m = syscall (do_open_wr p trunc m)"

definition file_bytes :: "world \<Rightarrow> path \<Rightarrow> bytes" where
  "file_bytes w p = (case fs_get (w_fs w) (pkey w p) of Some (Reg b _ _) \<Rightarrow> b | _ \<Rightarrow> [])"

text \<open>One \<^verbatim>\<open>read\<close> of at most \<open>n\<close> bytes at offset \<open>pos\<close>; it is short only as scripted, and empty
  only at the end of the file.\<close>

definition sys_fread :: "path \<Rightarrow> nat \<Rightarrow> nat \<Rightarrow> (errno + bytes) prog" where
  "sys_fread p pos n = State (\<lambda>w.
     run_state (syscall (\<lambda>w1.
       (case fs_get (w_fs w1) (pkey w1 p) of
          Some (Reg b _ _) \<Rightarrow> Inr (take (min n (max 1 (transfer_limit (w_script w) n))) (drop pos b))
        | Some (Dir _ _) \<Rightarrow> Inl EISDIR
        | _ \<Rightarrow> Inl EIO, w1))) w)"

text \<open>What a file holds after \<open>d\<close> was written at offset \<open>pos\<close>; a gap is filled with zeros.\<close>

definition splice :: "nat \<Rightarrow> bytes \<Rightarrow> bytes \<Rightarrow> bytes" where
  "splice pos d b =
     (if d = [] then b
      else take pos (b @ replicate (pos - length b) NUL) @ d @ drop (pos + length d) b)"

definition do_fwrite :: "path \<Rightarrow> nat \<Rightarrow> bytes \<Rightarrow> nat \<Rightarrow> world \<Rightarrow> (errno + nat) \<times> world" where
  "do_fwrite p pos d n w =
     (case fs_get (w_fs w) (pkey w p) of
        Some (Reg b m t) \<Rightarrow>
          (Inr n, w\<lparr>w_fs := fs_put (pkey w p) (Reg (splice pos (take n d) b) m (w_time w)) (w_fs w)\<rparr>)
      | _ \<Rightarrow> (Inl EIO, w))"

definition sys_fwrite :: "path \<Rightarrow> nat \<Rightarrow> bytes \<Rightarrow> (errno + nat) prog" where
  "sys_fwrite p pos d = State (\<lambda>w.
     run_state (syscall (do_fwrite p pos d (transfer_limit (w_script w) (length d)))) w)"

definition sys_fsync :: "path \<Rightarrow> (errno + unit) prog" where
  "sys_fsync p = syscall (\<lambda>w. (Inr (), w))"

definition do_rename :: "path \<Rightarrow> path \<Rightarrow> world \<Rightarrow> (errno + unit) \<times> world" where
  "do_rename p q w =
     (let a = pkey w p; b = pkey w q; fs = w_fs w in
      if p = [] \<or> q = [] then (Inl ENOENT, w)
      else if last_dotty p \<or> last_dotty q then (Inl EBUSY, w)
      else case fs_get fs a of
        None \<Rightarrow> (Inl ENOENT, w)
      | Some n \<Rightarrow>
          if (last p = slash \<or> last q = slash) \<and> \<not> is_dir_node (Some n) then (Inl ENOTDIR, w)
          else case parent_check w q of
            Inl e \<Rightarrow> (Inl e, w)
          | Inr _ \<Rightarrow>
              if a = b then (Inr (), w)
              else if prefix a b then (Inl EINVAL, w)
              else case fs_get fs b of
                None \<Rightarrow> (Inr (), w\<lparr>w_fs := fs_move a b fs\<rparr>)
              | Some n' \<Rightarrow>
                  if is_dir_node (Some n) \<and> \<not> is_dir_node (Some n') then (Inl ENOTDIR, w)
                  else if \<not> is_dir_node (Some n) \<and> is_dir_node (Some n') then (Inl EISDIR, w)
                  else if is_dir_node (Some n') \<and> fs_children fs b \<noteq> [] then (Inl ENOTEMPTY, w)
                  else (Inr (), w\<lparr>w_fs := fs_move a b fs\<rparr>))"

definition sys_rename :: "path \<Rightarrow> path \<Rightarrow> (errno + unit) prog" where
  "sys_rename p q = syscall (do_rename p q)"

definition do_unlink :: "path \<Rightarrow> world \<Rightarrow> (errno + unit) \<times> world" where
  "do_unlink p w =
     (case fs_find w p of
        Inl e \<Rightarrow> (Inl e, w)
      | Inr n \<Rightarrow> if is_dir_node (Some n) then (Inl EISDIR, w)
                 else (Inr (), w\<lparr>w_fs := fs_del (pkey w p) (w_fs w)\<rparr>))"

definition sys_unlink :: "path \<Rightarrow> (errno + unit) prog" where
  "sys_unlink p = syscall (do_unlink p)"

fun set_mode :: "32 word \<Rightarrow> node \<Rightarrow> node" where
  "set_mode m (Reg b _ t) = Reg b (m AND 0xFFF) t"
| "set_mode m (Dir _ t) = Dir (m AND 0xFFF) t"
| "set_mode m (Special _ t) = Special (m AND 0xFFF) t"

fun set_mtime :: "int \<Rightarrow> node \<Rightarrow> node" where
  "set_mtime t (Reg b m _) = Reg b m t"
| "set_mtime t (Dir m _) = Dir m t"
| "set_mtime t (Special m _) = Special m t"

definition do_touch :: "(node \<Rightarrow> node) \<Rightarrow> path \<Rightarrow> world \<Rightarrow> (errno + unit) \<times> world" where
  "do_touch f p w =
     (case fs_find w p of
        Inl e \<Rightarrow> (Inl e, w)
      | Inr n \<Rightarrow> (Inr (), w\<lparr>w_fs := fs_put (pkey w p) (f n) (w_fs w)\<rparr>))"

definition sys_chmod :: "path \<Rightarrow> 32 word \<Rightarrow> (errno + unit) prog" where
  "sys_chmod p m = syscall (do_touch (set_mode m) p)"

definition sys_utime :: "path \<Rightarrow> int \<Rightarrow> (errno + unit) prog" where
  "sys_utime p t = syscall (do_touch (set_mtime t) p)"

text \<open>Calls that only succeed or fail: record locks, and memory.\<close>

definition sys_setlk :: "path \<Rightarrow> (errno + unit) prog" where
  "sys_setlk p = syscall (\<lambda>w. (Inr (), w))"

definition sys_malloc :: "nat \<Rightarrow> (errno + unit) prog" where
  "sys_malloc n = syscall (\<lambda>w. (Inr (), w))"

section \<open>Byte streams and clocks\<close>

text \<open>
  \<open>w_rx w fd\<close> is what is still to be read from a descriptor until its writers close it,
  \<open>w_tx w fd\<close> what was written to it. A \<^verbatim>\<open>read\<close> returns no bytes only at the end.
\<close>

definition sys_read :: "int \<Rightarrow> nat \<Rightarrow> (errno + bytes) prog" where
  "sys_read fd n = State (\<lambda>w.
     run_state (syscall (\<lambda>w1.
       let k = min n (max 1 (transfer_limit (w_script w) n)) in
       (Inr (take k (w_rx w1 fd)), w1\<lparr>w_rx := (w_rx w1)(fd := drop k (w_rx w1 fd))\<rparr>))) w)"

definition sys_write :: "int \<Rightarrow> bytes \<Rightarrow> (errno + nat) prog" where
  "sys_write fd d = State (\<lambda>w.
     run_state (syscall (\<lambda>w1.
       let k = transfer_limit (w_script w) (length d) in
       (Inr k, w1\<lparr>w_tx := (w_tx w1)(fd := w_tx w1 fd @ take k d)\<rparr>))) w)"

definition get_localtime :: "tm prog" where
  "get_localtime = State (\<lambda>w. (w_localtime w (w_time w), w))"

text \<open>\<^verbatim>\<open>lseek(fd, off, SEEK_SET)\<close>: the offset itself is kept by the caller.\<close>

definition sys_lseek :: "path \<Rightarrow> int \<Rightarrow> (errno + unit) prog" where
  "sys_lseek p off = syscall (\<lambda>w. (if off < 0 then Inl EINVAL else Inr (), w))"

abbreviation ret :: "'a \<Rightarrow> 'a prog" where "ret \<equiv> State_Monad.return"

lemmas call_defs = sys_mkdir_def sys_stat_def sys_access_def sys_open_rd_def sys_open_wr_def
  sys_fread_def sys_fwrite_def sys_fsync_def sys_rename_def sys_unlink_def sys_chmod_def
  sys_utime_def sys_setlk_def sys_malloc_def sys_read_def sys_write_def sys_lseek_def

section \<open>Relations between worlds\<close>

text \<open>
  Relations that do not see the script: then a scripted failure keeps them, and a call keeps
  them as soon as its work does.
\<close>

locale world_relation = step_relation R for R :: "world \<Rightarrow> world \<Rightarrow> bool" +
  assumes script: "R w (rest_script w)"
begin

lemma syscall:
  assumes "\<And>w. R w (snd (f w))"
  shows "state_io_rel R (syscall f)"
proof (rule state_io_relI)
  fix a s s'
  assume r: "run_state (syscall f) s = (a, s')"
  from syscall_cases [of f s] show "R s s'"
  proof
    assume "run_state (syscall f) s = f (rest_script s)"
    with r have "snd (f (rest_script s)) = s'" by simp
    with assms [of "rest_script s"] script [of s] show ?thesis by (metis trans)
  next
    assume "\<exists>e xs. w_script s = Fail e # xs \<and> run_state (syscall f) s = (Inl e, rest_script s)"
    with r have "s' = rest_script s" by auto
    then show ?thesis using script by simp
  qed
qed

lemma syscall_state:
  assumes "\<And>w0 w. R w (snd (f w0 w))"
  shows "state_io_rel R (State (\<lambda>w0. run_state (syscall (f w0)) w0))"
proof (rule state_io_relI)
  fix a s s'
  assume "run_state (State (\<lambda>w0. run_state (syscall (f w0)) w0)) s = (a, s')"
  then have "run_state (syscall (f s)) s = (a, s')" by simp
  with syscall [of "f s"] assms show "R s s'" by (metis runD)
qed

lemma pure_calls:
  "state_io_rel R (sys_stat p)" "state_io_rel R (sys_access p)" "state_io_rel R (sys_open_rd p)"
  "state_io_rel R (sys_fread p pos n)" "state_io_rel R (sys_fsync p)" "state_io_rel R (sys_setlk p)"
  "state_io_rel R (sys_malloc n)" "state_io_rel R (sys_lseek p off)"
  unfolding call_defs by (simp_all add: syscall syscall_state refl)

lemma localtime: "state_io_rel R get_localtime"
  by (rule state_io_relI) (auto simp: get_localtime_def refl)

lemmas calls = pure_calls localtime

end

text \<open>A program that only looks uses up a part of the script and changes nothing else.\<close>

definition quiet :: "world \<Rightarrow> world \<Rightarrow> bool" where
  "quiet w w' \<longleftrightarrow> (\<exists>j. w' = w\<lparr>w_script := drop j (w_script w)\<rparr>)"

lemma quiet_refl: "quiet w w"
  by (auto simp: quiet_def intro: exI [of _ 0])

lemma quiet_trans: "quiet w v \<Longrightarrow> quiet v u \<Longrightarrow> quiet w u"
  by (auto simp: quiet_def add.commute)

lemma quiet_rest: "quiet w (rest_script w)"
  by (auto simp: quiet_def rest_script_def drop_Suc intro!: exI [of _ 1])

interpretation qr: world_relation quiet
  by unfold_locales (fact quiet_refl, fact quiet_trans, fact quiet_rest)

lemma quiet_simps:
  assumes "quiet w w'"
  shows "w_fs w' = w_fs w" "w_cwd w' = w_cwd w" "w_rx w' = w_rx w" "w_tx w' = w_tx w"
    "w_log w' = w_log w" "w_umask w' = w_umask w" "w_time w' = w_time w" "w_mono w' = w_mono w"
    "w_localtime w' = w_localtime w" "pkey w' p = pkey w p"
    "w_script w = [] \<Longrightarrow> w' = w"
  using assms by (auto simp: quiet_def pkey_def)

context world_relation
begin

lemma quiet: "quiet w w' \<Longrightarrow> R w w'"
proof -
  have "R w (w\<lparr>w_script := drop j (w_script w)\<rparr>)" for j
  proof (induction j)
    case 0
    show ?case by (simp add: refl)
  next
    case (Suc j)
    let ?v = "w\<lparr>w_script := drop j (w_script w)\<rparr>"
    have "rest_script ?v = w\<lparr>w_script := drop (Suc j) (w_script w)\<rparr>"
      by (simp add: rest_script_def drop_Suc tl_drop)
    with script [of ?v] have "R ?v (w\<lparr>w_script := drop (Suc j) (w_script w)\<rparr>)" by simp
    with Suc show ?case by (rule trans)
  qed
  then show "quiet w w' \<Longrightarrow> R w w'" by (auto simp: quiet_def)
qed

lemma quiet_io: "state_io_rel quiet m \<Longrightarrow> state_io_rel R m"
  by (auto simp: state_io_rel_def intro: quiet)

end

text \<open>No place outside \<open>S\<close> of the file tree changes (\<open>c\<close> is the working directory).\<close>

definition fs_same :: "fkey \<Rightarrow> fkey set \<Rightarrow> world \<Rightarrow> world \<Rightarrow> bool" where
  "fs_same c S w w' \<longleftrightarrow> (w_cwd w = c \<longrightarrow>
     w_cwd w' = c \<and> (\<forall>k. k \<notin> S \<longrightarrow> fs_get (w_fs w') k = fs_get (w_fs w) k))"

interpretation fsr: world_relation "fs_same c S" for c S
  by unfold_locales (auto simp: fs_same_def)

text \<open>The file tree stays well-formed.\<close>

definition fs_wf_kept :: "world \<Rightarrow> world \<Rightarrow> bool" where
  "fs_wf_kept w w' \<longleftrightarrow> (fs_wf (w_fs w) \<longrightarrow> fs_wf (w_fs w'))"

interpretation wfr: world_relation fs_wf_kept
  by unfold_locales (auto simp: fs_wf_kept_def)

text \<open>Nothing is read from, written to or logged on any stream.\<close>

definition streams_same :: "world \<Rightarrow> world \<Rightarrow> bool" where
  "streams_same w w' \<longleftrightarrow> w_rx w' = w_rx w \<and> w_tx w' = w_tx w \<and> w_log w' = w_log w"

interpretation ssr: world_relation streams_same
  by unfold_locales (auto simp: streams_same_def)

text \<open>Streams and clocks may change, the file tree does not.\<close>

definition tree_same :: "world \<Rightarrow> world \<Rightarrow> bool" where
  "tree_same w w' \<longleftrightarrow> w_fs w' = w_fs w \<and> w_cwd w' = w_cwd w"

interpretation tsr: world_relation tree_same
  by unfold_locales (auto simp: tree_same_def)

end
