(* ===== verification/TreeLaws.thy ===== *)
theory TreeLaws
  imports Posix
begin

text \<open>
  What the calls on paths do to the file tree: they keep it well-formed, they touch only the
  places their arguments name (for a rename, whole subtrees), and they leave the streams
  alone. The rules are collected in \<open>step_rules\<close>.
\<close>

section \<open>Tree operations keep well-formedness\<close>

lemma fs_wf_root: "fs_wf fs \<Longrightarrow> is_dir_node (fs_get fs [])"
  by (simp add: fs_wf_def)

lemma fs_wf_parent:
  "fs_wf fs \<Longrightarrow> fs_get fs k = Some n \<Longrightarrow> k \<noteq> [] \<Longrightarrow> is_dir_node (fs_get fs (butlast k))"
  by (auto simp: fs_wf_def)

lemma fs_wf_put:
  assumes wf: "fs_wf fs"
    and par: "k \<noteq> [] \<Longrightarrow> is_dir_node (fs_get fs (butlast k))"
    and dir: "is_dir_node (fs_get fs k) \<Longrightarrow> is_dir_node (Some n)"
  shows "fs_wf (fs_put k n fs)"
proof -
  have "is_dir_node (fs_get (fs_put k n fs) (butlast k'))"
    if "fs_get (fs_put k n fs) k' = Some n'" "k' \<noteq> []" for k' n'
  proof (cases "k' = k")
    case True
    have "butlast k \<noteq> k" using True that(2) by (metis append_butlast_last_id not_Cons_self2 self_append_conv)
    then show ?thesis using par True that(2) by simp
  next
    case False
    then have "is_dir_node (fs_get fs (butlast k'))"
      using wf that by (auto intro: fs_wf_parent)
    then show ?thesis using dir by auto
  qed
  moreover have "is_dir_node (fs_get (fs_put k n fs) [])"
    using wf dir by (auto simp: fs_wf_def)
  moreover have "distinct (map fst (fs_put k n fs))"
    using wf by (simp add: fs_wf_def fs_put_def distinct_update)
  ultimately show ?thesis by (auto simp: fs_wf_def)
qed

lemma fs_wf_put_existing:
  assumes "fs_wf fs" and "fs_get fs k = Some n" and "is_dir_node (Some n) \<Longrightarrow> is_dir_node (Some n')"
  shows "fs_wf (fs_put k n' fs)"
  using assms by (auto intro!: fs_wf_put fs_wf_parent)

lemma fs_wf_del:
  assumes wf: "fs_wf fs" and leaf: "\<not> is_dir_node (fs_get fs k)"
  shows "fs_wf (fs_del k fs)"
proof -
  have "is_dir_node (fs_get (fs_del k fs) (butlast k'))"
    if "fs_get (fs_del k fs) k' = Some n'" "k' \<noteq> []" for k' n'
  proof -
    have "is_dir_node (fs_get fs (butlast k'))"
      using that wf by (auto intro: fs_wf_parent split: if_splits)
    then show ?thesis using leaf by auto
  qed
  moreover have "is_dir_node (fs_get (fs_del k fs) [])"
    using wf leaf by (auto simp: fs_wf_def)
  moreover have "distinct (map fst (fs_del k fs))"
    using wf by (simp add: fs_wf_def fs_del_def distinct_delete)
  ultimately show ?thesis by (auto simp: fs_wf_def)
qed

lemma fs_get_move_outside:
  "\<not> prefix a k \<Longrightarrow> \<not> prefix b k \<Longrightarrow> fs_get (fs_move a b fs) k = fs_get fs k"
  by (induction fs) (auto simp: fs_get_def fs_move_def prefix_def)

definition movable :: "fstree \<Rightarrow> fkey \<Rightarrow> fkey \<Rightarrow> bool" where
  "movable fs a b \<longleftrightarrow> \<not> prefix a b \<and> \<not> prefix b a \<and>
     (\<forall>z. fs_get fs (b @ z) \<noteq> None \<longrightarrow> z = []) \<and> fs_get fs a \<noteq> None \<and>
     is_dir_node (fs_get fs (butlast b))"

lemma movable_leaf:
  assumes "movable fs a b" and "(k, n) \<in> set fs" and "prefix b k"
  shows "k = b"
proof -
  have "k \<in> fst ` set fs" using assms(2) by force
  then have "fs_get fs k \<noteq> None" by (simp add: fs_get_def map_of_eq_None_iff)
  with assms show ?thesis by (auto simp: movable_def prefix_def)
qed

lemma fs_get_moved:
  "movable fs a b \<Longrightarrow> fs_get (fs_move a b fs) k =
    (if prefix b k then fs_get fs (a @ drop (length b) k)
     else if prefix a k then None else fs_get fs k)"
  using fs_get_move [of a b fs k] movable_leaf [of fs a b] unfolding movable_def by blast

lemma distinct_move:
  assumes "movable fs a b" and "distinct (map fst fs)"
  shows "distinct (map fst (fs_move a b fs))"
proof -
  let ?f = "\<lambda>k. if prefix a k then b @ drop (length a) k else k"
  let ?ks = "filter (\<lambda>k. k \<noteq> b) (map fst fs)"
  have ks: "map fst (fs_move a b fs) = map ?f ?ks"
    by (induction fs) (auto simp: fs_move_def)
  have "inj_on ?f (set ?ks)"
  proof (rule inj_onI)
    fix x y
    assume x: "x \<in> set ?ks" and y: "y \<in> set ?ks" and e: "?f x = ?f y"
    have nb: "\<not> prefix b z" if "z \<in> set ?ks" for z
      using movable_leaf [OF assms(1)] that by fastforce
    show "x = y"
      using e nb [OF x] nb [OF y] by (auto simp: prefix_def split: if_splits)
  qed
  then show ?thesis
    using assms(2) unfolding ks by (simp add: distinct_map)
qed

lemma fs_wf_move:
  assumes wf: "fs_wf fs" and mv: "movable fs a b"
  shows "fs_wf (fs_move a b fs)"
proof -
  have nab: "\<not> prefix a b" and nba: "\<not> prefix b a" and pb: "is_dir_node (fs_get fs (butlast b))"
    using mv by (auto simp: movable_def)
  have pre_butlast: "prefix x (butlast k) \<Longrightarrow> prefix x k" for x k :: fkey
    by (metis prefixeq_butlast prefix_order.trans)
  have "is_dir_node (fs_get (fs_move a b fs) (butlast k))"
    if k: "fs_get (fs_move a b fs) k = Some n" "k \<noteq> []" for k n
  proof (cases "prefix b k")
    case True
    then obtain z where z: "k = b @ z" by (auto simp: prefix_def)
    show ?thesis
    proof (cases "z = []")
      case True
      have "\<not> prefix b (butlast b)" using nba
        by (metis append_butlast_last_id not_Cons_self2 prefix_bot.bot_least prefix_order.antisym
            prefixeq_butlast self_append_conv)
      moreover have "\<not> prefix a (butlast b)" using nab pre_butlast by blast
      ultimately show ?thesis using True z pb by (simp add: fs_get_moved [OF mv])
    next
      case False
      have "is_dir_node (fs_get fs (butlast (a @ z)))"
        using k z False by (intro fs_wf_parent [OF wf]) (auto simp: fs_get_moved [OF mv])
      then show ?thesis using False z by (simp add: fs_get_moved [OF mv] butlast_append)
    qed
  next
    case False
    then have "\<not> prefix a k" and "fs_get fs k = Some n"
      using k by (auto simp: fs_get_moved [OF mv] split: if_splits)
    then show ?thesis using False k pre_butlast
      by (auto simp: fs_get_moved [OF mv] intro: fs_wf_parent [OF wf])
  qed
  moreover have "is_dir_node (fs_get (fs_move a b fs) [])"
  proof -
    have "a \<noteq> []" and "b \<noteq> []" using nab nba by auto
    then have "fs_get (fs_move a b fs) [] = fs_get fs []"
      by (simp add: fs_get_moved [OF mv])
    then show ?thesis using fs_wf_root [OF wf] by simp
  qed
  moreover have "distinct (map fst (fs_move a b fs))"
    using distinct_move [OF mv] wf by (simp add: fs_wf_def)
  ultimately show ?thesis by (auto simp: fs_wf_def)
qed

section \<open>What a rename does\<close>

lemma parent_check_Inr: "parent_check w q = Inr u \<Longrightarrow> is_dir_node (fs_get (w_fs w) (butlast (pkey w q)))"
  by (auto simp: parent_check_def split: option.splits if_splits)

lemma do_rename_fails: "do_rename p q w = (Inl e, w') \<Longrightarrow> w' = w"
  by (auto simp: do_rename_def Let_def split: option.splits if_splits sum.splits)

lemma do_rename_succeeds:
  assumes wf: "fs_wf (w_fs w)" and r: "do_rename p q w = (Inr u, w')"
  shows "pkey w p = pkey w q \<and> w' = w \<or>
     movable (w_fs w) (pkey w p) (pkey w q) \<and>
     w' = w\<lparr>w_fs := fs_move (pkey w p) (pkey w q) (w_fs w)\<rparr>"
proof (cases "pkey w p = pkey w q")
  case True
  then show ?thesis using r
    by (auto simp: do_rename_def Let_def split: option.splits if_splits sum.splits)
next
  case False
  let ?a = "pkey w p" and ?b = "pkey w q" and ?fs = "w_fs w"
  obtain n where a: "fs_get ?fs ?a = Some n"
    using r by (auto simp: do_rename_def Let_def split: option.splits if_splits)
  have w': "w' = w\<lparr>w_fs := fs_move ?a ?b ?fs\<rparr>" and nab: "\<not> prefix ?a ?b"
    and pb: "is_dir_node (fs_get ?fs (butlast ?b))"
    using r False by (auto simp: do_rename_def Let_def dest: parent_check_Inr
        split: option.splits if_splits sum.splits)
  have tgt: "fs_get ?fs ?b = None \<or> \<not> is_dir_node (fs_get ?fs ?b) \<or> fs_children ?fs ?b = []"
    using r False by (auto simp: do_rename_def Let_def split: option.splits if_splits sum.splits)
  have leaf: "z = []" if "fs_get ?fs (?b @ z) \<noteq> None" for z
  proof (cases "fs_children ?fs ?b = []")
    case True
    then show ?thesis using fs_wf_childless [OF wf _ that] by simp
  next
    case False
    then have nd: "\<not> is_dir_node (fs_get ?fs ?b)" using tgt by auto
    show ?thesis using fs_wf_below_file [OF wf nd, of z] that by (cases "z = []") simp_all
  qed
  have nba: "\<not> prefix ?b ?a"
  proof
    assume "prefix ?b ?a"
    then obtain z where z: "?a = ?b @ z" by (auto simp: prefix_def)
    from a have "fs_get ?fs (?b @ z) \<noteq> None" unfolding z by simp
    then have "z = []" by (rule leaf)
    with z False show False by simp
  qed
  have "movable ?fs ?a ?b"
    unfolding movable_def using nab nba pb a by (intro conjI allI impI leaf) simp_all
  with w' show ?thesis by simp
qed

lemma do_rename_wf: "fs_wf (w_fs w) \<Longrightarrow> fs_wf (w_fs (snd (do_rename p q w)))"
proof -
  assume wf: "fs_wf (w_fs w)"
  obtain r w' where e: "do_rename p q w = (r, w')" by fastforce
  show ?thesis
  proof (cases r)
    case (Inl x)
    then show ?thesis using wf e do_rename_fails [of p q w x w'] by simp
  next
    case (Inr u)
    then show ?thesis using wf e do_rename_succeeds [OF wf, of p q u w'] by (auto intro: fs_wf_move)
  qed
qed

lemma do_rename_frame:
  assumes "\<not> prefix (pkey w p) k" and "\<not> prefix (pkey w q) k"
  shows "fs_get (w_fs (snd (do_rename p q w))) k = fs_get (w_fs w) k"
  using assms by (auto simp: do_rename_def Let_def fs_get_move_outside split: option.splits sum.splits)

section \<open>The mutating calls under the step relations\<close>

lemma fs_same_mutators [step_rules]:
  assumes "path_key c p \<in> S"
  shows "state_io_rel (fs_same c S) (sys_mkdir p m)"
    "state_io_rel (fs_same c S) (sys_open_wr p tr m)"
    "state_io_rel (fs_same c S) (sys_fwrite p pos d)"
    "state_io_rel (fs_same c S) (sys_unlink p)"
    "state_io_rel (fs_same c S) (sys_chmod p m)"
    "state_io_rel (fs_same c S) (sys_utime p t)"
  using assms unfolding call_defs
  by (auto intro!: fsr.syscall fsr.syscall_state simp: fs_same_def pkey_def do_mkdir_def
      do_open_wr_def do_fwrite_def do_unlink_def do_touch_def
      split: option.splits node.splits sum.splits)

lemma fs_same_rename [step_rules]:
  assumes "\<And>z. path_key c p @ z \<in> S" and "\<And>z. path_key c q @ z \<in> S"
  shows "state_io_rel (fs_same c S) (sys_rename p q)"
  unfolding sys_rename_def
proof (rule fsr.syscall)
  fix w
  have cwd: "w_cwd (snd (do_rename p q w)) = w_cwd w"
    by (auto simp: do_rename_def Let_def split: option.splits sum.splits)
  show "fs_same c S w (snd (do_rename p q w))"
    unfolding fs_same_def
  proof (intro impI conjI allI)
    assume c: "w_cwd w = c"
    with cwd show "w_cwd (snd (do_rename p q w)) = c" by simp
    fix k assume "k \<notin> S"
    then show "fs_get (w_fs (snd (do_rename p q w))) k = fs_get (w_fs w) k"
      using assms c by (intro do_rename_frame) (auto simp: pkey_def prefix_def)
  qed
qed

lemma streams_same_mutators [step_rules]:
  "state_io_rel streams_same (sys_mkdir p m)" "state_io_rel streams_same (sys_open_wr p tr m)"
  "state_io_rel streams_same (sys_fwrite p pos d)" "state_io_rel streams_same (sys_unlink p)"
  "state_io_rel streams_same (sys_chmod p m)" "state_io_rel streams_same (sys_utime p t)"
  "state_io_rel streams_same (sys_rename p q)"
  unfolding call_defs
  by (auto intro!: ssr.syscall ssr.syscall_state simp: streams_same_def pkey_def do_mkdir_def Let_def
      do_open_wr_def do_fwrite_def do_unlink_def do_touch_def do_rename_def
      split: option.splits node.splits sum.splits)

lemma fs_find_Inr: "fs_find w p = Inr n \<Longrightarrow> p \<noteq> [] \<and> fs_get (w_fs w) (pkey w p) = Some n"
  by (auto simp: fs_find_def split: option.splits if_splits)

lemma do_touch_wf:
  assumes "\<And>n. is_dir_node (Some n) \<Longrightarrow> is_dir_node (Some (f n))"
  shows "fs_wf_kept w (snd (do_touch f p w))"
  using assms by (auto simp: do_touch_def fs_wf_kept_def dest!: fs_find_Inr intro: fs_wf_put_existing
      split: sum.splits)

lemma dir_set_mode: "is_dir_node (Some n) \<Longrightarrow> is_dir_node (Some (set_mode m n))"
  by (cases n) auto

lemma dir_set_mtime: "is_dir_node (Some n) \<Longrightarrow> is_dir_node (Some (set_mtime t n))"
  by (cases n) auto

lemma fs_wf_kept_mutators [step_rules]:
  "state_io_rel fs_wf_kept (sys_mkdir p m)" "state_io_rel fs_wf_kept (sys_open_wr p tr m)"
  "state_io_rel fs_wf_kept (sys_fwrite p pos d)" "state_io_rel fs_wf_kept (sys_unlink p)"
  "state_io_rel fs_wf_kept (sys_chmod p m)" "state_io_rel fs_wf_kept (sys_utime p t)"
  "state_io_rel fs_wf_kept (sys_rename p q)"
  unfolding call_defs
        apply (rule wfr.syscall, auto simp: fs_wf_kept_def do_mkdir_def intro!: fs_wf_put
      dest: parent_check_Inr split: sum.splits)[1]
       apply (rule wfr.syscall, auto simp: fs_wf_kept_def do_open_wr_def intro!: fs_wf_put
      dest: parent_check_Inr fs_wf_parent split: sum.splits option.splits node.splits)[1]
      apply (rule wfr.syscall_state, auto simp: fs_wf_kept_def do_fwrite_def intro!: fs_wf_put_existing
      split: option.splits node.splits)[1]
     apply (rule wfr.syscall, auto simp: fs_wf_kept_def do_unlink_def dest!: fs_find_Inr
      intro!: fs_wf_del split: sum.splits)[1]
    apply (rule wfr.syscall, rule do_touch_wf, rule dir_set_mode, assumption)
   apply (rule wfr.syscall, rule do_touch_wf, rule dir_set_mtime, assumption)
  apply (rule wfr.syscall, simp add: fs_wf_kept_def do_rename_wf)
  done

lemmas [step_rules] = fsr.calls ssr.calls wfr.calls tsr.calls qr.calls

end
