(* ===== verification/Hash.thy ===== *)
theory Hash
  imports TreeLaws
begin

text \<open>
  \<^verbatim>\<open>src/hash.c\<close>: the 64-bit FNV-1a hash of a buffer, of a file and of a range of a file.
  The file hash reads in chunks and retries interrupted reads; it is shown to be the buffer
  hash of the bytes, however the reads are cut.
\<close>

section \<open>Definitions\<close>

definition fnv1a_offset_basis :: "64 word" where "fnv1a_offset_basis = 14695981039346656037"
definition fnv1a_prime :: "64 word" where "fnv1a_prime = 1099511628211"

definition fnv_step :: "64 word \<Rightarrow> char \<Rightarrow> 64 word" where
  "fnv_step hash c = (hash XOR of_char c) * fnv1a_prime"

definition hash_buffer_fnv1a :: "bytes \<Rightarrow> 64 word" where
  "hash_buffer_fnv1a data = foldl fnv_step fnv1a_offset_basis data"

text \<open>One chunk: at most 8192 bytes, and at most what is left of a limited range.\<close>

definition hash_want :: "bool \<Rightarrow> nat \<Rightarrow> nat" where
  "hash_want limited len = (if limited \<and> len < 8192 then len else 8192)"

text \<open>What one read does to the world.\<close>

lemma sys_fread_cases:
  "(\<exists>e xs. w_script w = Fail e # xs \<and> run_state (sys_fread p pos n) w = (Inl e, rest_script w)) \<or>
   (\<exists>b m t k. fs_get (w_fs w) (pkey w p) = Some (Reg b m t) \<and> (n = 0 \<or> 0 < k) \<and> k \<le> n \<and>
      (w_script w = [] \<longrightarrow> k = n) \<and>
      run_state (sys_fread p pos n) w = (Inr (take k (drop pos b)), rest_script w)) \<or>
   (\<exists>e. e \<noteq> EINTR \<and> \<not> is_reg_node (fs_get (w_fs w) (pkey w p)) \<and>
      run_state (sys_fread p pos n) w = (Inl e, rest_script w))"
proof -
  let ?k = "min n (max 1 (transfer_limit (w_script w) n))"
  let ?f = "\<lambda>w1. (case fs_get (w_fs w1) (pkey w1 p) of
          Some (Reg b _ _) \<Rightarrow> Inr (take ?k (drop pos b))
        | Some (Dir _ _) \<Rightarrow> Inl EISDIR
        | _ \<Rightarrow> Inl EIO, w1)"
  have key: "pkey (rest_script w) p = pkey w p" by (simp add: pkey_def)
  have call: "run_state (sys_fread p pos n) w = run_state (syscall ?f) w"
    by (simp add: sys_fread_def)
  have full: "w_script w = [] \<longrightarrow> ?k = n" and k: "n = 0 \<or> 0 < ?k" "?k \<le> n" by auto
  from syscall_cases [of ?f w] show ?thesis
  proof
    assume "run_state (syscall ?f) w = ?f (rest_script w)"
    then have r: "run_state (sys_fread p pos n) w = ?f (rest_script w)"
      by (simp add: sys_fread_def)
    consider b m t where "fs_get (w_fs w) (pkey w p) = Some (Reg b m t)"
      | "\<not> is_reg_node (fs_get (w_fs w) (pkey w p))"
      by (blast elim: is_reg_nodeE)
    then show ?thesis
    proof cases
      case 1
      then have "run_state (sys_fread p pos n) w = (Inr (take ?k (drop pos b)), rest_script w)"
        by (simp add: r key)
      then show ?thesis using 1 k full by blast
    next
      case 2
      then have "\<exists>e. e \<noteq> EINTR \<and> run_state (sys_fread p pos n) w = (Inl e, rest_script w)"
        by (auto simp: r key is_reg_node_def split: option.splits node.splits)
      with 2 show ?thesis by blast
    qed
  next
    assume "\<exists>e xs. w_script w = Fail e # xs \<and> run_state (syscall ?f) w = (Inl e, rest_script w)"
    then show ?thesis unfolding call by blast
  qed
qed

lemma file_bytes_rest [simp]: "file_bytes (rest_script w) p = file_bytes w p"
  by (simp add: file_bytes_def pkey_def)

lemma pkey_rest [simp]: "pkey (rest_script w) p = pkey w p"
  by (simp add: pkey_def)

lemma fs_find_rest [simp]: "fs_find (rest_script w) p = fs_find w p"
  by (simp add: fs_find_def)

lemma sys_fread_world: "snd (run_state (sys_fread p pos n) w) = rest_script w"
  using sys_fread_cases [of w p pos n] by auto

lemma sys_fread_EINTR: "run_state (sys_fread p pos n) w = (Inl EINTR, w1) \<Longrightarrow> w_script w \<noteq> []"
  using sys_fread_cases [of w p pos n] by auto

lemma sys_fread_length:
  "run_state (sys_fread p pos n) w = (Inr d, w1) \<Longrightarrow> length d \<le> n \<and> length d \<le> length (file_bytes w p) - pos"
  using sys_fread_cases [of w p pos n] by (auto simp: file_bytes_def)

function hash_loop ::
  "path \<Rightarrow> nat \<Rightarrow> nat \<Rightarrow> bool \<Rightarrow> 64 word \<Rightarrow> world \<Rightarrow> 64 word \<times> world" where
  "hash_loop p pos len limited hash w =
     (if limited \<and> len = 0 then (hash, w)
      else case run_state (sys_fread p pos (hash_want limited len)) w of
        (Inl e, w1) \<Rightarrow>
          if e = EINTR then hash_loop p pos len limited hash w1 else (0, w1)
      | (Inr d, w1) \<Rightarrow>
          if d = [] then (hash, w1)
          else hash_loop p (pos + length d) (len - length d) limited (foldl fnv_step hash d) w1)"
  by pat_completeness auto
termination
proof (relation "measure (\<lambda>(p, pos, len, limited, hash, w).
    length (w_script w) + (length (file_bytes w p) - pos))", goal_cases)
  case 1
  show ?case by simp
next
  case (2 p pos len limited hash w x w1 e)
  then have "w_script w \<noteq> []" and "w1 = rest_script w"
    using sys_fread_EINTR sys_fread_world by (metis snd_conv)+
  then show ?case by simp
next
  case (3 p pos len limited hash w x w1 d)
  then have "length d \<le> length (file_bytes w p) - pos" and w1: "w1 = rest_script w"
    using sys_fread_length sys_fread_world by (metis snd_conv)+
  moreover have "0 < length d" using 3 by simp
  ultimately have "length (file_bytes w p) - (pos + length d) < length (file_bytes w p) - pos"
    by arith
  then show ?case by (simp add: w1 add_le_less_mono)
qed

declare hash_loop.simps [simp del]

lemma hash_loop_step:
  "\<not> (limited \<and> len = 0) \<Longrightarrow> hash_loop p pos len limited hash w =
     (case run_state (sys_fread p pos (hash_want limited len)) w of
        (Inl e, w1) \<Rightarrow> if e = EINTR then hash_loop p pos len limited hash w1 else (0, w1)
      | (Inr d, w1) \<Rightarrow>
          if d = [] then (hash, w1)
          else hash_loop p (pos + length d) (len - length d) limited (foldl fnv_step hash d) w1)"
  by (subst hash_loop.simps, subst if_not_P, assumption, rule refl)

lemma hash_loop_done [simp]: "hash_loop p pos 0 True hash w = (hash, w)"
  by (subst hash_loop.simps) simp

text \<open>\<open>hash_fd_range\<close> on a descriptor of the file \<open>p\<close>; a failing seek or read gives 0.\<close>

definition hash_fd_range :: "path \<Rightarrow> int \<Rightarrow> nat \<Rightarrow> bool \<Rightarrow> 64 word prog" where
  "hash_fd_range p offset len limited =
     (if offset > 0 then do {
        r \<leftarrow> sys_lseek p offset;
        (case r of
           Inl _ \<Rightarrow> ret 0
         | Inr _ \<Rightarrow> State (hash_loop p (nat offset) len limited fnv1a_offset_basis))
      } else State (hash_loop p 0 len limited fnv1a_offset_basis))"

definition hash_file_fnv1a :: "path \<Rightarrow> 64 word prog" where
  "hash_file_fnv1a p = do {
     fd \<leftarrow> sys_open_rd p;
     (case fd of
        Inl _ \<Rightarrow> ret 0
      | Inr _ \<Rightarrow> hash_fd_range p 0 0 False)
   }"

definition hash_file_range_fnv1a :: "path \<Rightarrow> int \<Rightarrow> nat \<Rightarrow> 64 word prog" where
  "hash_file_range_fnv1a p offset len = do {
     fd \<leftarrow> sys_open_rd p;
     (case fd of
        Inl _ \<Rightarrow> ret 0
      | Inr _ \<Rightarrow> hash_fd_range p offset len True)
   }"

definition hash_to_hex :: "64 word \<Rightarrow> string" where
  "hash_to_hex hash = fst (snprintf_s 32 (hex16 hash))"

section \<open>The file hash is the buffer hash of the bytes\<close>

definition range_bytes :: "bool \<Rightarrow> nat \<Rightarrow> bytes \<Rightarrow> bytes" where
  "range_bytes limited len d = (if limited then take len d else d)"

lemma range_bytes_chunk:
  "k \<le> hash_want limited len \<Longrightarrow>
     range_bytes limited len d =
     take k d @ range_bytes limited (len - length (take k d)) (drop (length (take k d)) d)"
  by (auto simp: range_bytes_def hash_want_def min_def take_add [symmetric] split: if_splits)

text \<open>A script that only interrupts and shortens transfers.\<close>

definition benign :: "world \<Rightarrow> bool" where
  "benign w \<longleftrightarrow> (\<forall>e. Fail e \<in> set (w_script w) \<longrightarrow> e = EINTR)"

lemma benign_rest: "benign w \<Longrightarrow> benign (rest_script w)"
  by (cases "w_script w") (auto simp: benign_def)

lemma benign_Nil: "w_script w = [] \<Longrightarrow> benign w"
  by (simp add: benign_def)

lemma hash_loop_correct:
  "hash_loop p pos len limited hash w = (h, w') \<Longrightarrow>
     quiet w w' \<and>
     (h = 0 \<or> (is_reg_node (fs_get (w_fs w) (pkey w p)) \<or> limited \<and> len = 0) \<and>
       h = foldl fnv_step hash (range_bytes limited len (drop pos (file_bytes w p)))) \<and>
     (benign w \<longrightarrow> is_reg_node (fs_get (w_fs w) (pkey w p)) \<longrightarrow>
       h = foldl fnv_step hash (range_bytes limited len (drop pos (file_bytes w p))))"
proof (induction p pos len limited hash w rule: hash_loop.induct)
  case (1 p pos len limited hash w)
  let ?rd = "sys_fread p pos (hash_want limited len)"
  obtain x w1 where rd: "run_state ?rd w = (x, w1)" by fastforce
  then have w1: "w1 = rest_script w" using sys_fread_world by (metis snd_conv)
  show ?case
  proof (cases "limited \<and> len = 0")
    case True
    with "1.prems" show ?thesis
      by (auto simp: range_bytes_def quiet_refl)
  next
    case go: False
    have unf: "hash_loop p pos len limited hash w =
      (case x of Inl e \<Rightarrow> if e = EINTR then hash_loop p pos len limited hash w1 else (0, w1)
       | Inr d \<Rightarrow> if d = [] then (hash, w1)
           else hash_loop p (pos + length d) (len - length d) limited (foldl fnv_step hash d) w1)"
      by (simp add: hash_loop_step [OF go] rd)
    show ?thesis
    proof (cases x)
      case (Inl e)
      show ?thesis
      proof (cases "e = EINTR")
        case True
        with Inl unf "1.prems" have "hash_loop p pos len limited hash w1 = (h, w')" by simp
        from "1.IH"(1) [OF go rd [symmetric] Inl True this] show ?thesis
          using w1 quiet_rest quiet_trans benign_rest by auto
      next
        case False
        then have "\<not> (benign w \<and> is_reg_node (fs_get (w_fs w) (pkey w p)))"
          using sys_fread_cases [of w p pos "hash_want limited len"] rd Inl by (auto simp: benign_def)
        with False Inl unf "1.prems" show ?thesis using w1 quiet_rest by auto
      qed
    next
      case (Inr d)
      then obtain b m t k where b: "fs_get (w_fs w) (pkey w p) = Some (Reg b m t)"
        and k: "hash_want limited len = 0 \<or> 0 < k" "k \<le> hash_want limited len"
        and d: "d = take k (drop pos b)"
        using sys_fread_cases [of w p pos "hash_want limited len"] rd by auto
      have kpos: "0 < k" using k(1) go by (auto simp: hash_want_def split: if_splits)
      have fb: "file_bytes w p = b" by (simp add: file_bytes_def b)
      show ?thesis
      proof (cases "d = []")
        case True
        then have "drop pos b = []" using d kpos by simp
        then show ?thesis using True Inr unf "1.prems" w1 quiet_rest b fb
          by (auto simp: range_bytes_def)
      next
        case False
        with Inr unf "1.prems" have
          "hash_loop p (pos + length d) (len - length d) limited (foldl fnv_step hash d) w1 = (h, w')"
          by simp
        from "1.IH"(2) [OF go rd [symmetric] Inr False this] have
          q: "quiet w1 w'" and "h = 0 \<or> h = foldl fnv_step (foldl fnv_step hash d)
            (range_bytes limited (len - length d) (drop (pos + length d) b))"
          and "benign w \<longrightarrow> h = foldl fnv_step (foldl fnv_step hash d)
            (range_bytes limited (len - length d) (drop (pos + length d) b))"
          using w1 fb b benign_rest [of w] by auto
        moreover have "range_bytes limited len (drop pos b) =
            d @ range_bytes limited (len - length d) (drop (pos + length d) b)"
          using range_bytes_chunk [OF k(2), of "drop pos b"] d by (simp add: add.commute)
        ultimately show ?thesis using b fb w1 quiet_rest quiet_trans by auto
      qed
    qed
  qed
qed

lemma hash_loop_exact:
  assumes "w_script w = []" and "is_reg_node (fs_get (w_fs w) (pkey w p))"
  shows "hash_loop p pos len limited hash w =
    (foldl fnv_step hash (range_bytes limited len (drop pos (file_bytes w p))), w)"
  using hash_loop_correct [of p pos len limited hash w] benign_Nil [OF assms(1)] assms
  by (cases "hash_loop p pos len limited hash w") (auto dest: quiet_simps(11))

text \<open>Hashing a file only looks, and a non-zero result is the hash of the content.\<close>

lemma state_loop_quiet: "state_io_rel quiet (State (hash_loop p pos len limited hash))"
  by (rule state_io_relI) (auto dest: hash_loop_correct)

lemma hash_fd_range_quiet: "state_io_rel quiet (hash_fd_range p off len limited)"
  unfolding hash_fd_range_def by (intro qr.rules qr.calls state_loop_quiet)

lemma hash_file_quiet: "state_io_rel quiet (hash_file_fnv1a p)"
  unfolding hash_file_fnv1a_def by (intro qr.rules qr.calls hash_fd_range_quiet)

lemma hash_file_range_quiet: "state_io_rel quiet (hash_file_range_fnv1a p off len)"
  unfolding hash_file_range_fnv1a_def by (intro qr.rules qr.calls hash_fd_range_quiet)

lemma hash_file_world: "run_state (hash_file_fnv1a p) w = (h, w') \<Longrightarrow> quiet w w'"
  using hash_file_quiet qr.runD by blast

lemma hash_file_sound:
  assumes "run_state (hash_file_fnv1a p) w = (h, w')"
  shows "h = 0 \<or> is_reg_node (fs_get (w_fs w) (pkey w p)) \<and> h = hash_buffer_fnv1a (file_bytes w p)"
proof -
  obtain x w1 where o: "run_state (sys_open_rd p) w = (x, w1)" by fastforce
  then have q: "quiet w w1" using qr.runD [OF qr.calls(3)] by blast
  show ?thesis
  proof (cases x)
    case (Inl e)
    then show ?thesis using assms o by (simp add: hash_file_fnv1a_def)
  next
    case (Inr u)
    then have "hash_loop p 0 0 False fnv1a_offset_basis w1 = (h, w')"
      using assms o by (simp add: hash_file_fnv1a_def hash_fd_range_def)
    from hash_loop_correct [OF this] show ?thesis
      using quiet_simps [OF q] by (auto simp: range_bytes_def hash_buffer_fnv1a_def file_bytes_def)
  qed
qed

text \<open>Interrupted and short reads do not change the hash.\<close>

lemma hash_file_benign:
  assumes "benign w" and "fs_find w p = Inr (Reg b m t)" and "\<not> (\<exists>e xs. w_script w = Fail e # xs)"
  shows "fst (run_state (hash_file_fnv1a p) w) = hash_buffer_fnv1a b"
proof -
  have b: "fs_get (w_fs w) (pkey w p) = Some (Reg b m t)"
    using fs_find_Inr [OF assms(2)] by simp
  have o: "run_state (sys_open_rd p) w = (Inr (), rest_script w)"
    using syscall_cases [of "\<lambda>w. (case fs_find w p of Inl e \<Rightarrow> Inl e
        | Inr (Special _ _) \<Rightarrow> Inl EACCES | Inr _ \<Rightarrow> Inr (), w)" w] assms(2,3)
    by (auto simp: sys_open_rd_def)
  obtain h w' where l: "hash_loop p 0 0 False fnv1a_offset_basis (rest_script w) = (h, w')"
    by fastforce
  from hash_loop_correct [OF l] benign_rest [OF assms(1)] b have "h = hash_buffer_fnv1a b"
    by (simp add: range_bytes_def hash_buffer_fnv1a_def file_bytes_def)
  with o l show ?thesis by (simp add: hash_file_fnv1a_def hash_fd_range_def)
qed

lemma hash_file_exact [run_simps]:
  assumes "w_script w = []" and "fs_find w p = Inr (Reg b m t)"
  shows "run_state (hash_file_fnv1a p) w = (hash_buffer_fnv1a b, w)"
proof -
  have b: "fs_get (w_fs w) (pkey w p) = Some (Reg b m t)"
    using fs_find_Inr [OF assms(2)] by simp
  have "run_state (sys_open_rd p) w = (Inr (), w)"
    using assms by (simp add: sys_open_rd_def run_syscall)
  then show ?thesis
    using assms b by (simp add: hash_file_fnv1a_def hash_fd_range_def hash_loop_exact
        range_bytes_def hash_buffer_fnv1a_def file_bytes_def)
qed

end
