(* ===== verification/FileUtils.thy ===== *)
theory FileUtils
  imports Hash
begin

text \<open>
  \<^verbatim>\<open>src/file_utils.c\<close>: path checks, directory creation, copying through a temporary file,
  old versions and the trash. An \<open>int\<close> result is the C return value; a function that fills an
  output buffer returns \<open>Some\<close> of its content where the C function returns 0.
\<close>

abbreviation MAX_PATH_LEN :: nat where "MAX_PATH_LEN \<equiv> 512"

section \<open>Path strings\<close>

definition sanitize_rel_path :: "string \<Rightarrow> int" where
  "sanitize_rel_path rel_path =
     (if rel_path = [] then - 1
      else if hd rel_path = slash then - 1
      else if rel_path = ''.'' \<or> rel_path = ''..'' then - 1
      else if strstr rel_path ''../'' \<or> strstr rel_path ''/..'' \<or> strstr rel_path ''//'' then - 1
      else 0)"

definition joined :: "path \<Rightarrow> path \<Rightarrow> path" where
  "joined base rel =
     (let rel' = dropWhile (\<lambda>c. c = slash) rel in
      if base \<noteq> [] \<and> last base = slash then base @ rel' else base @ slash # rel')"

definition join_path :: "nat \<Rightarrow> path \<Rightarrow> path \<Rightarrow> path option" where
  "join_path out_size base rel =
     (let s = joined base rel; n = snd (snprintf_s out_size s) in
      if out_size \<noteq> 0 \<and> 0 < n \<and> n < out_size then Some (fst (snprintf_s out_size s)) else None)"

text \<open>Trailing slashes are dropped while more than one character is left.\<close>

function strip_trailing :: "path \<Rightarrow> path" where
  "strip_trailing s =
     (if 1 < length s \<and> last s = slash then strip_trailing (butlast s) else s)"
  by pat_completeness auto
termination by (relation "measure length") auto

declare strip_trailing.simps [simp del]

lemma strip_more: "1 < length s \<and> last s = slash \<Longrightarrow> strip_trailing s = strip_trailing (butlast s)"
  by (subst strip_trailing.simps) simp

lemma strip_done: "\<not> (1 < length s \<and> last s = slash) \<Longrightarrow> strip_trailing s = s"
  by (subst strip_trailing.simps) auto

lemma strip_nonempty: "s \<noteq> [] \<Longrightarrow> strip_trailing s \<noteq> []"
proof (induction s rule: strip_trailing.induct)
  case (1 s)
  show ?case
  proof (cases "1 < length s \<and> last s = slash")
    case True
    then have "butlast s \<noteq> []" by (cases s) auto
    then show ?thesis using 1 True by (simp add: strip_more)
  next
    case False
    then show ?thesis using 1 by (simp add: strip_done)
  qed
qed

text \<open>
  The return value and the new content of the output buffer, which keeps its old content
  \<open>out\<close> where the C function returns before writing it.
\<close>

definition get_relative_path :: "string \<Rightarrow> nat \<Rightarrow> path \<Rightarrow> path \<Rightarrow> int \<times> string" where
  "get_relative_path out out_size root p =
     (let root_len = length (strip_trailing root) in
      if out_size = 0 then (- 1, out)
      else if \<not> prefix (take root_len root) p then (- 1, out)
      else
        let rel = drop root_len p;
            rel = (if rel \<noteq> [] \<and> hd rel = slash then tl rel else rel);
            rel = (if rel = [] then ''.'' else rel);
            (stored, n) = snprintf_s out_size rel
        in if n \<ge> out_size then (- 1, stored)
           else (sanitize_rel_path stored, stored))"

section \<open>Directories\<close>

fun mkdir_each :: "path list \<Rightarrow> int prog" where
  "mkdir_each [] = ret 0"
| "mkdir_each (d # ds) = do {
     r \<leftarrow> sys_mkdir d 0x1ED;
     (case r of
        Inl e \<Rightarrow> if e \<noteq> EEXIST then ret (- 1) else mkdir_each ds
      | Inr _ \<Rightarrow> mkdir_each ds)
   }"

text \<open>The prefixes of the path that end before a slash, the first character aside.\<close>

definition dir_prefixes :: "path \<Rightarrow> path list" where
  "dir_prefixes tmp = map (\<lambda>i. take i tmp) (filter (\<lambda>i. tmp ! i = slash) [1..<length tmp])"

definition ensure_dir_exists :: "path \<Rightarrow> int prog" where
  "ensure_dir_exists dir =
     (if dir = [] then ret (- 1)
      else if snd (snprintf_s MAX_PATH_LEN dir) \<ge> MAX_PATH_LEN then ret (- 1)
      else let tmp = strip_trailing dir in mkdir_each (dir_prefixes tmp @ [tmp]))"

definition ensure_parent_dir_exists :: "path \<Rightarrow> int prog" where
  "ensure_parent_dir_exists file_path =
     (if snd (snprintf_s MAX_PATH_LEN file_path) \<ge> MAX_PATH_LEN then ret (- 1)
      else case strrchr file_path slash of
             None \<Rightarrow> ret 0
           | Some i \<Rightarrow>
               ensure_dir_exists (if i = 0 then take 1 file_path else take i file_path))"

section \<open>Looking at files\<close>

definition is_regular_file :: "path \<Rightarrow> bool prog" where
  "is_regular_file p = do {
     st \<leftarrow> sys_stat p;
     ret (case st of Inl _ \<Rightarrow> False | Inr s \<Rightarrow> S_ISREG (st_mode s))
   }"

definition is_directory :: "path \<Rightarrow> bool prog" where
  "is_directory p = do {
     st \<leftarrow> sys_stat p;
     ret (case st of Inl _ \<Rightarrow> False | Inr s \<Rightarrow> S_ISDIR (st_mode s))
   }"

definition get_file_size :: "path \<Rightarrow> int option prog" where
  "get_file_size p = do {
     st \<leftarrow> sys_stat p;
     ret (case st of Inl _ \<Rightarrow> None | Inr s \<Rightarrow> Some (st_size s))
   }"

section \<open>Copying and moving\<close>

lemma sys_fwrite_cases:
  "(\<exists>e xs. w_script w = Fail e # xs \<and> run_state (sys_fwrite p pos d) w = (Inl e, rest_script w)) \<or>
   (\<exists>b m t n. fs_get (w_fs w) (pkey w p) = Some (Reg b m t) \<and> n \<le> length d \<and>
      (w_script w = [] \<longrightarrow> n = length d) \<and>
      run_state (sys_fwrite p pos d) w =
        (Inr n, (rest_script w)\<lparr>w_fs := fs_put (pkey w p) (Reg (splice pos (take n d) b) m (w_time w)) (w_fs w)\<rparr>)) \<or>
   \<not> is_reg_node (fs_get (w_fs w) (pkey w p)) \<and>
      run_state (sys_fwrite p pos d) w = (Inl EIO, rest_script w)"
proof -
  let ?n = "transfer_limit (w_script w) (length d)"
  have n: "?n \<le> length d" "w_script w = [] \<longrightarrow> ?n = length d"
    by (auto simp: transfer_limit_le)
  have call: "run_state (sys_fwrite p pos d) w = run_state (syscall (do_fwrite p pos d ?n)) w"
    by (simp add: sys_fwrite_def)
  from syscall_cases [of "do_fwrite p pos d ?n" w] show ?thesis
  proof
    assume r: "run_state (syscall (do_fwrite p pos d ?n)) w = do_fwrite p pos d ?n (rest_script w)"
    show ?thesis
    proof (cases "is_reg_node (fs_get (w_fs w) (pkey w p))")
      case True
      then obtain b m t where b: "fs_get (w_fs w) (pkey w p) = Some (Reg b m t)"
        by (blast elim: is_reg_nodeE)
      then show ?thesis using n by (simp add: call r do_fwrite_def)
    next
      case False
      then show ?thesis
        by (auto simp: call r do_fwrite_def is_reg_node_def split: option.splits node.splits)
    qed
  next
    assume "\<exists>e xs. w_script w = Fail e # xs \<and>
      run_state (syscall (do_fwrite p pos d ?n)) w = (Inl e, rest_script w)"
    then show ?thesis unfolding call by blast
  qed
qed

text \<open>
  The inner loop of \<open>copy_file_plain\<close>: write a chunk at offset \<open>wpos\<close>, all of it or until a
  call fails.
\<close>

lemma sys_fwrite_progress:
  assumes "run_state (sys_fwrite p pos d) w = (r, w1)"
  shows "length (w_script w1) \<le> length (w_script w)"
    and "r = Inl EINTR \<Longrightarrow> length (w_script w1) < length (w_script w)"
    and "r = Inr n \<Longrightarrow> d \<noteq> [] \<Longrightarrow>
      length (w_script w1) + length (drop n d) < length (w_script w) + length d"
  using assms sys_fwrite_cases [of w p pos d] by (cases "w_script w"; auto)+

function write_chunk :: "path \<Rightarrow> nat \<Rightarrow> bytes \<Rightarrow> world \<Rightarrow> int \<times> world" where
  "write_chunk dst wpos d w =
     (if d = [] then (0, w)
      else case run_state (sys_fwrite dst wpos d) w of
        (Inl e, w1) \<Rightarrow> if e = EINTR then write_chunk dst wpos d w1 else (- 1, w1)
      | (Inr n, w1) \<Rightarrow> write_chunk dst (wpos + n) (drop n d) w1)"
  by pat_completeness auto
termination
proof (relation "measure (\<lambda>(dst, wpos, d, w). length (w_script w) + length d)", goal_cases)
  case 1
  show ?case by simp
next
  case (2 dst wpos d w x w1 e)
  then have "run_state (sys_fwrite dst wpos d) w = (Inl EINTR, w1)" by simp
  from sys_fwrite_progress(2) [OF this] show ?case by simp
next
  case (3 dst wpos d w x w1 n)
  then have "run_state (sys_fwrite dst wpos d) w = (Inr n, w1)" by simp
  from sys_fwrite_progress(3) [OF this] 3(1) show ?case by simp
qed

declare write_chunk.simps [simp del]

lemma write_chunk_Nil [simp]: "write_chunk dst wpos [] w = (0, w)"
  by (simp add: write_chunk.simps)

lemma write_chunk_step:
  "d \<noteq> [] \<Longrightarrow> run_state (sys_fwrite dst wpos d) w = (x, w') \<Longrightarrow>
   write_chunk dst wpos d w =
     (case x of
        Inl e \<Rightarrow> if e = EINTR then write_chunk dst wpos d w' else (- 1, w')
      | Inr n \<Rightarrow> write_chunk dst (wpos + n) (drop n d) w')"
  by (subst write_chunk.simps) simp

lemma write_chunk_frame:
  "write_chunk dst wpos d w = (ok, w1) \<Longrightarrow>
     length (w_script w1) \<le> length (w_script w) \<and> w_cwd w1 = w_cwd w \<and>
     (\<forall>k. k \<noteq> pkey w dst \<longrightarrow> fs_get (w_fs w1) k = fs_get (w_fs w) k)"
proof (induction dst wpos d w rule: write_chunk.induct)
  case (1 dst wpos d w)
  show ?case
  proof (cases "d = []")
    case True
    with "1.prems" show ?thesis by simp
  next
    case False
    obtain x w' where r: "run_state (sys_fwrite dst wpos d) w = (x, w')" by fastforce
    have w': "length (w_script w') \<le> length (w_script w) \<and> w_cwd w' = w_cwd w \<and>
        (\<forall>k. k \<noteq> pkey w dst \<longrightarrow> fs_get (w_fs w') k = fs_get (w_fs w) k)"
      using sys_fwrite_cases [of w dst wpos d] r by auto
    have key: "pkey w' dst = pkey w dst" using w' by (simp add: pkey_def)
    note unf = write_chunk_step [OF False r]
    show ?thesis
    proof (cases x)
      case (Inl e)
      show ?thesis
      proof (cases "e = EINTR")
        case True
        with unf Inl "1.prems" have "write_chunk dst wpos d w' = (ok, w1)" by simp
        from "1.IH"(1) [OF False r [symmetric] Inl True this] w' key show ?thesis by auto
      next
        case False
        with unf Inl "1.prems" w' show ?thesis by auto
      qed
    next
      case (Inr n)
      with unf "1.prems" have "write_chunk dst (wpos + n) (drop n d) w' = (ok, w1)" by simp
      from "1.IH"(2) [OF False r [symmetric] Inr this] w' key show ?thesis by auto
    qed
  qed
qed

text \<open>
  The copy loop. Once a file has been read and written under the same key the loop stops with
  an error: \<open>copy_file_plain\<close> never gets there, because opening the target truncated the file
  (\<open>copy_loop_self\<close>).
\<close>

function copy_loop :: "path \<Rightarrow> path \<Rightarrow> nat \<Rightarrow> nat \<Rightarrow> world \<Rightarrow> int \<times> world" where
  "copy_loop src dst rpos wpos w =
     (case run_state (sys_fread src rpos 8192) w of
        (Inl e, w1) \<Rightarrow> if e = EINTR then copy_loop src dst rpos wpos w1 else (- 1, w1)
      | (Inr d, w1) \<Rightarrow>
          if d = [] then (0, w1)
          else case write_chunk dst wpos d w1 of
            (ok, w2) \<Rightarrow>
              if ok < 0 then (- 1, w2)
              else if pkey w src = pkey w dst then (- 1, w2)
              else copy_loop src dst (rpos + length d) (wpos + length d) w2)"
  by pat_completeness auto
termination
proof (relation "measure (\<lambda>(src, dst, rpos, wpos, w).
    length (w_script w) + (length (file_bytes w src) - rpos))", goal_cases)
  case 1
  show ?case by simp
next
  case (2 src dst rpos wpos w x w1 e)
  then have "w_script w \<noteq> []" and "w1 = rest_script w"
    using sys_fread_EINTR sys_fread_world by (metis snd_conv)+
  then show ?case by simp
next
  case (3 src dst rpos wpos w x w1 d ok w2)
  then have r: "run_state (sys_fread src rpos 8192) w = (Inr d, w1)"
    and wr: "write_chunk dst wpos d w1 = (ok, w2)" by simp_all
  have w1: "w1 = rest_script w" using sys_fread_world r by (metis snd_conv)
  have fb: "file_bytes w2 src = file_bytes w src"
    using write_chunk_frame [OF wr] 3 w1 by (simp add: file_bytes_def pkey_def)
  have "length (w_script w2) \<le> length (w_script w)"
    using write_chunk_frame [OF wr] w1 by auto
  moreover have "length (file_bytes w src) - (rpos + length d) < length (file_bytes w src) - rpos"
    using sys_fread_length [OF r] 3(3) by (cases d) auto
  ultimately show ?case by (simp add: fb add_le_less_mono)
qed

declare copy_loop.simps [simp del]

lemma copy_loop_step:
  "run_state (sys_fread src rpos 8192) w = (x, w1) \<Longrightarrow>
   copy_loop src dst rpos wpos w =
     (case x of
        Inl e \<Rightarrow> if e = EINTR then copy_loop src dst rpos wpos w1 else (- 1, w1)
      | Inr d \<Rightarrow>
          if d = [] then (0, w1)
          else case write_chunk dst wpos d w1 of
            (ok, w2) \<Rightarrow>
              if ok < 0 then (- 1, w2)
              else if pkey w src = pkey w dst then (- 1, w2)
              else copy_loop src dst (rpos + length d) (wpos + length d) w2)"
  by (subst copy_loop.simps) simp

definition copy_file_plain :: "path \<Rightarrow> path \<Rightarrow> int prog" where
  "copy_file_plain src dst = do {
     i \<leftarrow> sys_open_rd src;
     (case i of
        Inl _ \<Rightarrow> ret (- 1)
      | Inr _ \<Rightarrow> do {
          p \<leftarrow> ensure_parent_dir_exists dst;
          if p < 0 then ret (- 1)
          else do {
            out \<leftarrow> sys_open_wr dst True 0x1A4;
            (case out of
               Inl _ \<Rightarrow> ret (- 1)
             | Inr _ \<Rightarrow> do {
                 ok \<leftarrow> State (copy_loop src dst 0 0);
                 f \<leftarrow> sys_fsync dst;
                 ret (case f of Inl _ \<Rightarrow> - 1 | Inr _ \<Rightarrow> ok)
               })
          }
        })
   }"

definition safe_rename_or_copy_unlink :: "path \<Rightarrow> path \<Rightarrow> int prog" where
  "safe_rename_or_copy_unlink src dst = do {
     p \<leftarrow> ensure_parent_dir_exists dst;
     if p < 0 then ret (- 1)
     else do {
       r \<leftarrow> sys_rename src dst;
       (case r of
          Inr _ \<Rightarrow> ret 0
        | Inl e \<Rightarrow>
            if e \<noteq> EXDEV then ret (- 1)
            else do {
              c \<leftarrow> copy_file_plain src dst;
              if c < 0 then ret (- 1)
              else do {
                u \<leftarrow> sys_unlink src;
                ret (case u of Inl _ \<Rightarrow> - 1 | Inr _ \<Rightarrow> 0)
              }
            })
     }
   }"

definition copy_file_atomic :: "path \<Rightarrow> path \<Rightarrow> int prog" where
  "copy_file_atomic src dst =
     (let (tmp, n) = snprintf_s MAX_PATH_LEN (dst @ ''.syncing'') in
      if n \<ge> MAX_PATH_LEN then ret (- 1)
      else do {
        c \<leftarrow> copy_file_plain src tmp;
        if c < 0 then do { _ \<leftarrow> sys_unlink tmp; ret (- 1) }
        else do {
          r \<leftarrow> safe_rename_or_copy_unlink tmp dst;
          if r < 0 then do { _ \<leftarrow> sys_unlink tmp; ret (- 1) }
          else ret 0
        }
      })"

definition copy_file_with_hash_check :: "path \<Rightarrow> path \<Rightarrow> int prog" where
  "copy_file_with_hash_check src dst = do {
     before \<leftarrow> hash_file_fnv1a src;
     c \<leftarrow> copy_file_atomic src dst;
     if c < 0 then ret (- 1)
     else do {
       after \<leftarrow> hash_file_fnv1a dst;
       ret (if before = after then 0 else - 1)
     }
   }"

definition set_file_metadata :: "path \<Rightarrow> 32 word \<Rightarrow> int \<Rightarrow> int prog" where
  "set_file_metadata p mode mtime = do {
     _ \<leftarrow> sys_chmod p (mode AND 0xFFF);
     r \<leftarrow> sys_utime p mtime;
     ret (case r of Inl _ \<Rightarrow> - 1 | Inr _ \<Rightarrow> 0)
   }"

section \<open>Versions and trash\<close>

text \<open>\<^verbatim>\<open>%Y-%m-%d_%H-%M-%S\<close>.\<close>

definition stamp_text :: "tm \<Rightarrow> string" where
  "stamp_text t = dec (tm_year t) @ ''-'' @ pad2 (tm_mon t) @ ''-'' @ pad2 (tm_mday t) @ ''_'' @
     pad2 (tm_hour t) @ ''-'' @ pad2 (tm_min t) @ ''-'' @ pad2 (tm_sec t)"

definition make_timestamp_dirname :: "nat \<Rightarrow> string option prog" where
  "make_timestamp_dirname out_size = do {
     t \<leftarrow> get_localtime;
     ret (let s = stamp_text t in if length s < out_size \<and> 0 < length s then Some s else None)
   }"

text \<open>Joining several components through buffers of \<open>MAX_PATH_LEN\<close>.\<close>

definition join3 :: "path \<Rightarrow> path \<Rightarrow> path \<Rightarrow> path option" where
  "join3 root sub rel =
     (case join_path MAX_PATH_LEN root sub of
        None \<Rightarrow> None
      | Some d \<Rightarrow> join_path MAX_PATH_LEN d rel)"

definition join4 :: "path \<Rightarrow> path \<Rightarrow> path \<Rightarrow> path \<Rightarrow> path option" where
  "join4 root sub stamp rel =
     (case join3 root sub stamp of
        None \<Rightarrow> None
      | Some d \<Rightarrow> join_path MAX_PATH_LEN d rel)"

definition backup_old_version :: "path \<Rightarrow> string \<Rightarrow> int prog" where
  "backup_old_version backup_root rel_path =
     (if sanitize_rel_path rel_path < 0 then ret (- 1)
      else case join3 backup_root ''current'' rel_path of
        None \<Rightarrow> ret (- 1)
      | Some src \<Rightarrow> do {
          a \<leftarrow> sys_access src;
          (case a of
             Inl _ \<Rightarrow> ret 0
           | Inr _ \<Rightarrow> do {
               stamp \<leftarrow> make_timestamp_dirname 64;
               (case Option.bind stamp (\<lambda>s. join4 backup_root ''.versions'' s rel_path) of
                  None \<Rightarrow> ret (- 1)
                | Some dst \<Rightarrow> do {
                    d \<leftarrow> is_directory src;
                    if d then ensure_dir_exists dst else copy_file_atomic src dst
                  })
             })
        })"

definition move_to_trash :: "path \<Rightarrow> string \<Rightarrow> int prog" where
  "move_to_trash backup_root rel_path =
     (if sanitize_rel_path rel_path < 0 then ret (- 1)
      else case join3 backup_root ''current'' rel_path of
        None \<Rightarrow> ret (- 1)
      | Some src \<Rightarrow> do {
          a \<leftarrow> sys_access src;
          (case a of
             Inl _ \<Rightarrow> ret 0
           | Inr _ \<Rightarrow> do {
               stamp \<leftarrow> make_timestamp_dirname 64;
               (case Option.bind stamp (\<lambda>s. join4 backup_root ''.trash'' s rel_path) of
                  None \<Rightarrow> ret (- 1)
                | Some dst \<Rightarrow> safe_rename_or_copy_unlink src dst)
             })
        })"

definition try_read_lock :: "path \<Rightarrow> int prog" where
  "try_read_lock p = do { r \<leftarrow> sys_setlk p; ret (case r of Inl _ \<Rightarrow> - 1 | Inr _ \<Rightarrow> 0) }"

definition unlock_file :: "path \<Rightarrow> unit prog" where
  "unlock_file p = do { _ \<leftarrow> sys_setlk p; ret () }"

end
