(* ===== verification/FileLaws.thy ===== *)
theory FileLaws
  imports FileUtils
begin

text \<open>
  Laws of the file utilities: where checked relative paths can lead, which places of the tree
  each utility may touch whatever fails, and what a copy, a version or a move to the trash
  leaves behind.
\<close>

section \<open>Checked relative paths\<close>

lemma sanitize_values: "sanitize_rel_path p = 0 \<or> sanitize_rel_path p = - 1"
  by (simp add: sanitize_rel_path_def)

lemma sanitize_neg [simp]: "sanitize_rel_path p < 0 \<longleftrightarrow> sanitize_rel_path p \<noteq> 0"
  using sanitize_values [of p] by auto

lemma sanitize_iff:
  "sanitize_rel_path p = 0 \<longleftrightarrow>
     p \<noteq> [] \<and> hd p \<noteq> slash \<and> p \<noteq> ''.'' \<and> p \<noteq> ''..'' \<and>
     \<not> strstr p ''../'' \<and> \<not> strstr p ''/..'' \<and> \<not> strstr p ''//''"
  by (simp add: sanitize_rel_path_def)

lemma sanitize_no_dotdot:
  assumes "sanitize_rel_path p = 0"
  shows "''..'' \<notin> set (split_on slash p)"
proof
  assume "''..'' \<in> set (split_on slash p)"
  then consider "p = ''..''" | v where "p = ''..'' @ slash # v" | u v where "p = u @ slash # ''..'' @ v"
    using split_on_context by blast
  then show False
  proof cases
    case 1
    with assms show False by (simp add: sanitize_iff)
  next
    case 2
    then have "p = [] @ ''../'' @ v" by simp
    then have "strstr p ''../''" unfolding strstr_iff by blast
    with assms show False by (simp add: sanitize_iff)
  next
    case 3
    then have "p = u @ ''/..'' @ v" by simp
    then have "strstr p ''/..''" unfolding strstr_iff by blast
    with assms show False by (simp add: sanitize_iff)
  qed
qed

text \<open>The places named by plain components below a base.\<close>

definition plain :: "string \<Rightarrow> fkey" where
  "plain rel = filter (\<lambda>c. c \<noteq> [] \<and> c \<noteq> ''.'') (split_on slash rel)"

lemma split_on_drop_slashes:
  "plain (dropWhile (\<lambda>c. c = slash) rel) = plain rel"
  by (induction rel) (auto simp: plain_def Let_def)

lemma dotdot_drop_slashes:
  "''..'' \<notin> set (split_on slash rel) \<Longrightarrow>
   ''..'' \<notin> set (split_on slash (dropWhile (\<lambda>c. c = slash) rel))"
  by (induction rel) (auto simp: Let_def)

lemma path_key_joined:
  assumes "base \<noteq> []" and "''..'' \<notin> set (split_on slash rel)"
  shows "path_key c (joined base rel) = path_key c base @ plain rel"
proof -
  let ?r = "dropWhile (\<lambda>c. c = slash) rel"
  have r: "foldl push_comp k (split_on slash ?r) = k @ plain rel" for k
    using dotdot_drop_slashes [OF assms(2)] split_on_drop_slashes [of rel]
    by (simp add: foldl_push_plain plain_def)
  show ?thesis
  proof (cases "last base = slash")
    case True
    then obtain b where b: "base = b @ [slash]"
      using assms(1) by (metis append_butlast_last_id)
    have j: "joined base rel = b @ slash # ?r"
      using assms(1) True b by (simp add: joined_def Let_def)
    show ?thesis
    proof (cases "b = []")
      case True
      have "path_key c (slash # ?r) = foldl push_comp [] (split_on slash ?r)"
        by (simp add: path_key_def Let_def push_comp.simps)
      moreover have "path_key c [slash] = []"
        by (simp add: path_key_def Let_def push_comp.simps)
      ultimately show ?thesis using True j b r by simp
    next
      case False
      then show ?thesis using j b r by (simp add: path_key_append_slash path_key_dir_slash push_comp.simps)
    qed
  next
    case False
    then have "joined base rel = base @ slash # ?r"
      by (simp add: joined_def Let_def)
    then show ?thesis using assms(1) r by (simp add: path_key_append_slash)
  qed
qed

lemma join_path_Some:
  "join_path n base rel = Some q \<Longrightarrow> q = joined base rel \<and> q \<noteq> [] \<and> length q < n"
  by (auto simp: join_path_def Let_def snprintf_s_def split: if_splits)

lemma join_path_fits:
  "joined base rel \<noteq> [] \<Longrightarrow> length (joined base rel) < n \<Longrightarrow> join_path n base rel = Some (joined base rel)"
  by (auto simp: join_path_def Let_def snprintf_s_def)

lemma joined_nonempty: "base \<noteq> [] \<Longrightarrow> joined base rel \<noteq> []"
  by (simp add: joined_def Let_def)

lemma joined_suffix:
  assumes "rel \<noteq> []" and "hd rel \<noteq> slash"
  shows "joined base rel @ x = joined base (rel @ x)"
proof -
  have "dropWhile (\<lambda>c. c = slash) rel = rel" using assms by (cases rel) auto
  moreover have "dropWhile (\<lambda>c. c = slash) (rel @ x) = rel @ x" using assms by (cases rel) auto
  ultimately show ?thesis by (simp add: joined_def Let_def)
qed

text \<open>The temporary name next to a path is another place.\<close>

lemma path_key_suffix:
  assumes "slash \<notin> set t" and "2 < length t" and "p \<noteq> []"
  shows "path_key cwd (p @ t) =
    foldl push_comp (if hd p = slash then [] else cwd) (butlast (split_on slash p)) @
      [last (split_on slash p) @ t]"
proof -
  let ?l = "last (split_on slash p) @ t"
  have "2 < length ?l" using assms(2) by simp
  then have "?l \<noteq> []" "?l \<noteq> ''.''" "?l \<noteq> ''..''"
    by (metis list.size(3) not_less_zero, (metis length_Cons list.size(3) less_irrefl
        less_Suc_eq not_less_zero numeral_2_eq_2)+)
  then have "push_comp k ?l = k @ [?l]" for k by (simp add: push_comp.simps)
  then show ?thesis using assms by (simp add: path_key_def split_on_snoc)
qed

lemma path_key_last:
  assumes "p \<noteq> []"
  shows "path_key cwd p = push_comp
    (foldl push_comp (if hd p = slash then [] else cwd) (butlast (split_on slash p)))
    (last (split_on slash p))"
proof -
  have "split_on slash p = butlast (split_on slash p) @ [last (split_on slash p)]"
    by simp
  then have "foldl push_comp k (split_on slash p) =
      push_comp (foldl push_comp k (butlast (split_on slash p))) (last (split_on slash p))" for k
    by (metis foldl_Cons foldl_Nil foldl_append)
  with assms show ?thesis by (simp add: path_key_def)
qed

lemma syncing_not_prefix:
  assumes "p \<noteq> []"
  shows "\<not> prefix (path_key c (p @ ''.syncing'')) (path_key c p)"
proof -
  let ?k = "foldl push_comp (if hd p = slash then [] else c) (butlast (split_on slash p))"
  let ?l = "last (split_on slash p)"
  have "path_key c (p @ ''.syncing'') = ?k @ [?l @ ''.syncing'']"
    using assms by (intro path_key_suffix) simp_all
  moreover have "\<not> prefix (?k @ [?l @ ''.syncing'']) (push_comp ?k ?l)"
    by (auto simp: push_comp.simps dest!: prefix_length_le)
  ultimately show ?thesis using path_key_last [OF assms] by simp
qed

section \<open>What may be touched\<close>

text \<open>
  Outside \<open>S\<close> nothing that exists changes and nothing but directories appears.
\<close>

definition fs_confined :: "fkey \<Rightarrow> fkey set \<Rightarrow> world \<Rightarrow> world \<Rightarrow> bool" where
  "fs_confined c S w w' \<longleftrightarrow> (w_cwd w = c \<longrightarrow> w_cwd w' = c \<and>
     (\<forall>k. k \<notin> S \<longrightarrow> fs_get (w_fs w') k = fs_get (w_fs w) k \<or>
        fs_get (w_fs w) k = None \<and> is_dir_node (fs_get (w_fs w') k)))"

lemma fs_confined_trans: "fs_confined c S w v \<Longrightarrow> fs_confined c S v u \<Longrightarrow> fs_confined c S w u"
  unfolding fs_confined_def by (metis is_dir_node_simps(1))

interpretation fcr: world_relation "fs_confined c S" for c S
  by unfold_locales (simp add: fs_confined_def, erule (1) fs_confined_trans, simp add: fs_confined_def)

lemma fs_confined_mono: "fs_confined c S w w' \<Longrightarrow> S \<subseteq> T \<Longrightarrow> fs_confined c T w w'"
  by (auto simp: fs_confined_def)

lemma fs_confined_io_mono:
  "state_io_rel (fs_confined c S) m \<Longrightarrow> S \<subseteq> T \<Longrightarrow> state_io_rel (fs_confined c T) m"
  by (auto simp: state_io_rel_def intro: fs_confined_mono)

lemma fs_same_confined: "state_io_rel (fs_same c S) m \<Longrightarrow> state_io_rel (fs_confined c S) m"
  by (auto simp: state_io_rel_def fs_same_def fs_confined_def)

lemma fs_confined_mutators [step_rules]:
  "state_io_rel (fs_confined c S) (sys_mkdir p m)"
  "path_key c p \<in> S \<Longrightarrow> state_io_rel (fs_confined c S) (sys_open_wr p tr m)"
  "path_key c p \<in> S \<Longrightarrow> state_io_rel (fs_confined c S) (sys_fwrite p pos d)"
  "path_key c p \<in> S \<Longrightarrow> state_io_rel (fs_confined c S) (sys_unlink p)"
  "path_key c p \<in> S \<Longrightarrow> state_io_rel (fs_confined c S) (sys_chmod p m)"
  "path_key c p \<in> S \<Longrightarrow> state_io_rel (fs_confined c S) (sys_utime p t)"
  "(\<And>z. path_key c p @ z \<in> S) \<Longrightarrow> (\<And>z. path_key c q @ z \<in> S) \<Longrightarrow>
     state_io_rel (fs_confined c S) (sys_rename p q)"
  unfolding sys_mkdir_def
  by (auto intro!: fs_same_confined step_rules fcr.syscall simp: do_mkdir_def fs_confined_def pkey_def
      split: sum.splits)

lemmas [step_rules] = fcr.calls

text \<open>
  The contract between the calls on paths and the file utilities. A relation between worlds is
  kept by the mutating calls on the paths that are \<open>fine\<close>, and by making the directories that lead to
  them. Every utility then keeps it, if the paths it writes are fine.
\<close>

context world_relation
begin

lemma each_dir: "(\<And>d. d \<in> set ds \<Longrightarrow> state_io_rel R (sys_mkdir d 0x1ED)) \<Longrightarrow> state_io_rel R (mkdir_each ds)"
proof (induction ds)
  case Nil
  show ?case by (simp add: return)
next
  case (Cons d ds)
  have "state_io_rel R (mkdir_each ds)" by (rule Cons.IH) (simp add: Cons.prems)
  then show ?case using Cons.prems [of d] by (simp, intro rules) auto
qed

lemma any_dir: "(\<And>d m. state_io_rel R (sys_mkdir d m)) \<Longrightarrow> state_io_rel R (ensure_dir_exists p)"
  unfolding ensure_dir_exists_def Let_def by (intro rules each_dir)

lemma any_parent: "(\<And>d m. state_io_rel R (sys_mkdir d m)) \<Longrightarrow> state_io_rel R (ensure_parent_dir_exists p)"
  unfolding ensure_parent_dir_exists_def by (intro rules any_dir)

end

lemma make_timestamp_Some:
  "run_state (make_timestamp_dirname n) w = (Some s, w') \<Longrightarrow> \<exists>t. s = stamp_text t"
  by (auto simp: make_timestamp_dirname_def get_localtime_def Let_def split: if_splits)

locale file_relation = world_relation R for R :: "world \<Rightarrow> world \<Rightarrow> bool" +
  fixes fine :: "path \<Rightarrow> bool"
  assumes ensure_dir: "fine p \<Longrightarrow> state_io_rel R (ensure_dir_exists p)"
    and ensure_parent: "fine p \<Longrightarrow> state_io_rel R (ensure_parent_dir_exists p)"
    and open_wr: "fine p \<Longrightarrow> state_io_rel R (sys_open_wr p tr m)"
    and fwrite: "fine p \<Longrightarrow> state_io_rel R (sys_fwrite p pos d)"
    and unlink: "fine p \<Longrightarrow> state_io_rel R (sys_unlink p)"
    and chmod: "fine p \<Longrightarrow> state_io_rel R (sys_chmod p m)"
    and utime: "fine p \<Longrightarrow> state_io_rel R (sys_utime p t)"
    and rename: "fine p \<Longrightarrow> fine q \<Longrightarrow> state_io_rel R (sys_rename p q)"
begin

lemma write_chunk: "write_chunk dst wpos d w = (ok, w1) \<Longrightarrow> fine dst \<Longrightarrow> R w w1"
proof (induction dst wpos d w rule: write_chunk.induct)
  case (1 dst wpos d w)
  show ?case
  proof (cases "d = []")
    case True
    with "1.prems" show ?thesis by (simp add: refl)
  next
    case False
    obtain x w' where r: "run_state (sys_fwrite dst wpos d) w = (x, w')" by fastforce
    note w' = runD [OF fwrite [OF "1.prems"(2)] r]
    note eq = "1.prems"(1) [unfolded write_chunk_step [OF False r]]
    show ?thesis
    proof (cases x)
      case (Inl e)
      show ?thesis
      proof (cases "e = EINTR")
        case True
        with Inl eq have "write_chunk dst wpos d w' = (ok, w1)" by simp
        from trans [OF w' "1.IH"(1) [OF False r [symmetric] Inl True this "1.prems"(2)]] show ?thesis .
      qed (use Inl eq w' in simp)
    next
      case (Inr n)
      with eq have "write_chunk dst (wpos + n) (drop n d) w' = (ok, w1)" by simp
      from trans [OF w' "1.IH"(2) [OF False r [symmetric] Inr this "1.prems"(2)]] show ?thesis .
    qed
  qed
qed

lemma copy_loop: "copy_loop src dst rpos wpos w = (ok, w1) \<Longrightarrow> fine dst \<Longrightarrow> R w w1"
proof (induction src dst rpos wpos w rule: copy_loop.induct)
  case (1 src dst rpos wpos w)
  obtain x w' where r: "run_state (sys_fread src rpos 8192) w = (x, w')" by fastforce
  note w' = runD [OF calls(4) r]
  note eq = "1.prems"(1) [unfolded copy_loop_step [OF r]]
  show ?case
  proof (cases x)
    case (Inl e)
    show ?thesis
    proof (cases "e = EINTR")
      case True
      with Inl eq have "copy_loop src dst rpos wpos w' = (ok, w1)" by simp
      from trans [OF w' "1.IH"(1) [OF r [symmetric] Inl True this "1.prems"(2)]] show ?thesis .
    qed (use Inl eq w' in simp)
  next
    case (Inr d)
    obtain k w2 where c: "write_chunk dst wpos d w' = (k, w2)" by fastforce
    from trans [OF w' write_chunk [OF c "1.prems"(2)]] have w2: "R w w2" .
    consider "d = []" | "d \<noteq> []" "k < 0 \<or> pkey w src = pkey w dst"
      | "d \<noteq> []" "\<not> k < 0" "pkey w src \<noteq> pkey w dst" by blast
    then show ?thesis
    proof cases
      case 3
      with Inr eq c have "copy_loop src dst (rpos + length d) (wpos + length d) w2 = (ok, w1)"
        by simp
      from trans [OF w2 "1.IH"(2) [OF r [symmetric] Inr 3(1) c [symmetric] 3(2,3) this "1.prems"(2)]]
      show ?thesis .
    qed (use Inr eq c w' w2 in \<open>auto split: if_splits\<close>)
  qed
qed

lemma copy_plain: "fine dst \<Longrightarrow> state_io_rel R (copy_file_plain src dst)"
  unfolding copy_file_plain_def
  by (intro rules calls ensure_parent open_wr state_io_relI [of "State (copy_loop src dst 0 0)"])
    (auto intro: copy_loop)

lemma safe_rename:
  "fine src \<Longrightarrow> fine dst \<Longrightarrow> state_io_rel R (safe_rename_or_copy_unlink src dst)"
  unfolding safe_rename_or_copy_unlink_def
  by (intro rules ensure_parent rename copy_plain unlink)

lemma copy_atomic:
  assumes "fine dst" and "fine (dst @ ''.syncing'')"
  shows "state_io_rel R (copy_file_atomic src dst)"
proof (cases "length (dst @ ''.syncing'') < MAX_PATH_LEN")
  case True
  then show ?thesis unfolding copy_file_atomic_def snprintf_s_fits [OF True] prod.case Let_def
    by (intro rules copy_plain safe_rename unlink assms)
next
  case False
  then show ?thesis by (simp add: copy_file_atomic_def snprintf_s_def return)
qed

lemma set_metadata: "fine p \<Longrightarrow> state_io_rel R (set_file_metadata p m t)"
  unfolding set_file_metadata_def by (intro rules chmod utime)

lemma timestamp: "state_io_rel R (make_timestamp_dirname n)"
  unfolding make_timestamp_dirname_def by (intro rules calls)

lemma looking:
  "state_io_rel R (is_directory p)" "state_io_rel R (is_regular_file p)"
  "state_io_rel R (get_file_size p)" "state_io_rel R (hash_file_fnv1a p)"
  "state_io_rel R (try_read_lock p)" "state_io_rel R (unlock_file p)"
  unfolding is_directory_def is_regular_file_def get_file_size_def try_read_lock_def unlock_file_def
  by (intro rules calls quiet_io hash_file_quiet)+

lemma backup_version:
  assumes "\<And>t q. join4 root ''.versions'' (stamp_text t) rel = Some q \<Longrightarrow> fine q \<and> fine (q @ ''.syncing'')"
  shows "state_io_rel R (backup_old_version root rel)"
  unfolding backup_old_version_def
  by (intro cond case_opt return bind_result [OF timestamp] bind_result [OF calls(2)]
      bind_result [OF looking(1)] case_sum ensure_dir copy_atomic)
    (auto simp: bind_eq_Some_conv dest!: make_timestamp_Some assms)

lemma to_trash:
  assumes "\<And>q. join3 root ''current'' rel = Some q \<Longrightarrow> fine q"
    and "\<And>t q. join4 root ''.trash'' (stamp_text t) rel = Some q \<Longrightarrow> fine q"
  shows "state_io_rel R (move_to_trash root rel)"
  unfolding move_to_trash_def
  by (intro cond case_opt return bind_result [OF timestamp] bind_result [OF calls(2)] case_sum
      calls safe_rename)
    (auto simp: bind_eq_Some_conv dest!: make_timestamp_Some assms)

end

interpretation fcf: file_relation "fs_confined c S" "\<lambda>p. \<forall>z. path_key c p @ z \<in> S" for c S
proof unfold_locales
  have self: "path_key c p \<in> S" if "\<forall>z. path_key c p @ z \<in> S" for p
    using that by (metis append_Nil2)
  show "state_io_rel (fs_confined c S) (ensure_dir_exists p)" "state_io_rel (fs_confined c S) (ensure_parent_dir_exists p)"
    for p by (rule fcr.any_dir fcr.any_parent, rule fs_confined_mutators)+
  show "\<forall>z. path_key c p @ z \<in> S \<Longrightarrow> state_io_rel (fs_confined c S) (sys_open_wr p tr m)" for p tr m
    by (rule fs_confined_mutators, rule self)
  show "\<forall>z. path_key c p @ z \<in> S \<Longrightarrow> state_io_rel (fs_confined c S) (sys_fwrite p pos d)" for p pos d
    by (rule fs_confined_mutators, rule self)
  show "\<forall>z. path_key c p @ z \<in> S \<Longrightarrow> state_io_rel (fs_confined c S) (sys_unlink p)" for p
    by (rule fs_confined_mutators, rule self)
  show "\<forall>z. path_key c p @ z \<in> S \<Longrightarrow> state_io_rel (fs_confined c S) (sys_chmod p m)" for p m
    by (rule fs_confined_mutators, rule self)
  show "\<forall>z. path_key c p @ z \<in> S \<Longrightarrow> state_io_rel (fs_confined c S) (sys_utime p t)" for p t
    by (rule fs_confined_mutators, rule self)
  show "\<forall>z. path_key c p @ z \<in> S \<Longrightarrow> \<forall>z. path_key c q @ z \<in> S \<Longrightarrow>
      state_io_rel (fs_confined c S) (sys_rename p q)" for p q
    by (rule fs_confined_mutators) auto
qed

interpretation ssf: file_relation streams_same "\<lambda>_. True"
  by unfold_locales (rule ssr.any_dir ssr.any_parent streams_same_mutators)+

interpretation wff: file_relation fs_wf_kept "\<lambda>_. True"
  by unfold_locales (rule wfr.any_dir wfr.any_parent fs_wf_kept_mutators)+

section \<open>The backup area\<close>

text \<open>Everything at or below \<open>current\<close>, \<open>.versions\<close> and \<open>.trash\<close> of a backup root.\<close>

definition backup_area :: "fkey \<Rightarrow> path \<Rightarrow> fkey set" where
  "backup_area c root =
     {k. \<exists>s \<in> {''current'', ''.versions'', ''.trash''}. prefix (path_key c (joined root s)) k}"

lemma joined_sub_nonempty: "s \<in> {''current'', ''.versions'', ''.trash''} \<Longrightarrow> joined root s \<noteq> []"
  by (auto simp: joined_def Let_def)

lemma joined_area:
  assumes "s \<in> {''current'', ''.versions'', ''.trash''}" and "''..'' \<notin> set (split_on slash rel)"
  shows "path_key c (joined (joined root s) rel) @ z \<in> backup_area c root"
proof -
  have "path_key c (joined (joined root s) rel) = path_key c (joined root s) @ plain rel"
    using assms by (intro path_key_joined joined_sub_nonempty)
  with assms(1) show ?thesis by (auto simp: backup_area_def)
qed

lemma dotdot_suffix:
  "''..'' \<notin> set (split_on slash rel) \<Longrightarrow> ''..'' \<notin> set (split_on slash (rel @ ''.syncing''))"
  by (auto simp: split_on_snoc dest: in_set_butlastD arg_cong [of _ _ length])

lemma join3_area:
  assumes "sanitize_rel_path rel = 0" and "join3 root ''current'' rel = Some q"
  shows "path_key c q @ z \<in> backup_area c root"
    and "path_key c (q @ ''.syncing'') @ z \<in> backup_area c root"
proof -
  have q: "q = joined (joined root ''current'') rel"
    using assms(2) by (auto simp: join3_def dest!: join_path_Some split: option.splits)
  have nd: "''..'' \<notin> set (split_on slash rel)" using assms(1) by (rule sanitize_no_dotdot)
  show "path_key c q @ z \<in> backup_area c root"
    unfolding q by (rule joined_area [OF _ nd]) simp
  have "q @ ''.syncing'' = joined (joined root ''current'') (rel @ ''.syncing'')"
    using assms(1) by (simp add: q joined_suffix sanitize_iff)
  then show "path_key c (q @ ''.syncing'') @ z \<in> backup_area c root"
    using joined_area [OF _ dotdot_suffix [OF nd], of "''current''"] by simp
qed

lemma digit_char_plain: "d < 16 \<Longrightarrow> digit_char d \<noteq> slash \<and> digit_char d \<noteq> NUL"
proof -
  assume "d < 16"
  then have "d \<in> set [0..<16]" by simp
  moreover have "\<forall>d \<in> set [0..<16]. digit_char d \<noteq> slash \<and> digit_char d \<noteq> NUL" by code_simp
  ultimately show ?thesis by blast
qed

lemma dec_plain: "slash \<notin> set (dec n) \<and> NUL \<notin> set (dec n) \<and> dec n \<noteq> []"
proof (induction n rule: dec.induct)
  case (1 n)
  have "n mod 10 < 16" by (rule order.strict_trans [OF mod_less_divisor]) simp_all
  with 1 show ?case
    using digit_char_plain [of n] digit_char_plain [of "n mod 10"] by (subst (1 2 3) dec.simps) auto
qed

lemma stamp_plain: "slash \<notin> set (stamp_text t)" and stamp_no_dots: "stamp_text t \<noteq> ''..''"
proof -
  show "slash \<notin> set (stamp_text t)"
    by (auto simp: stamp_text_def pad2_def dec_plain)
  have "CHR ''-'' \<in> set (stamp_text t)" by (simp add: stamp_text_def)
  then show "stamp_text t \<noteq> ''..''" by auto
qed

lemma join4_area:
  assumes "sanitize_rel_path rel = 0" and "s \<in> {''.versions'', ''.trash''}"
    and "join4 root s (stamp_text t) rel = Some q"
  shows "path_key c q @ z \<in> backup_area c root"
    and "path_key c (q @ ''.syncing'') @ z \<in> backup_area c root"
proof -
  let ?v = "joined (joined root s) (stamp_text t)"
  have q: "q = joined ?v rel"
    using assms(3) by (auto simp: join4_def join3_def dest!: join_path_Some split: option.splits)
  have v: "?v \<noteq> []" "prefix (path_key c (joined root s)) (path_key c ?v)"
    using assms(2) stamp_plain [of t] stamp_no_dots [of t]
    by (auto simp: path_key_joined split_on_single joined_nonempty joined_sub_nonempty)
  have nd: "''..'' \<notin> set (split_on slash rel)" using assms(1) by (rule sanitize_no_dotdot)
  have in_area: "path_key c (joined ?v r) @ z \<in> backup_area c root"
    if "''..'' \<notin> set (split_on slash r)" for r
    using v assms(2) that by (auto simp: backup_area_def path_key_joined prefix_def)
  show "path_key c q @ z \<in> backup_area c root"
    unfolding q by (rule in_area [OF nd])
  have "q @ ''.syncing'' = joined ?v (rel @ ''.syncing'')"
    using assms(1) by (simp add: q joined_suffix sanitize_iff)
  then show "path_key c (q @ ''.syncing'') @ z \<in> backup_area c root"
    using in_area [OF dotdot_suffix [OF nd]] by simp
qed

lemma backup_version_confined:
  "state_io_rel (fs_confined c (backup_area c root)) (backup_old_version root rel)"
proof (cases "sanitize_rel_path rel = 0")
  case True
  then show ?thesis by (intro fcf.backup_version) (auto intro: join4_area [of rel "''.versions''"])
next
  case False
  then show ?thesis by (simp add: backup_old_version_def fcr.return)
qed

lemma to_trash_confined:
  "state_io_rel (fs_confined c (backup_area c root)) (move_to_trash root rel)"
proof (cases "sanitize_rel_path rel = 0")
  case True
  then show ?thesis
    by (intro fcf.to_trash) (auto intro: join3_area join4_area [of rel "''.trash''"])
next
  case False
  then show ?thesis by (simp add: move_to_trash_def fcr.return)
qed

end
