(* ===== verification/CopyLaws.thy ===== *)
theory CopyLaws
  imports FileLaws
begin

text \<open>
  What a copy leaves behind, for every script of failures: \<open>copy_file_plain\<close> reports success
  only with the whole content in the target, \<open>copy_file_atomic\<close> leaves the target either
  untouched or complete, versions and trash entries hold what was in \<open>current\<close>.
\<close>

section \<open>The copy loop\<close>

lemma splice_end [simp]: "splice (length b) d b = b @ d"
  by (simp add: splice_def)

lemma write_chunk_correct:
  "write_chunk dst wpos d w = (ok, w1) \<Longrightarrow>
   fs_get (w_fs w) (pkey w dst) = Some (Reg b m t) \<Longrightarrow> wpos = length b \<Longrightarrow>
   (ok = 0 \<or> ok = - 1) \<and>
   (\<exists>k t'. fs_get (w_fs w1) (pkey w dst) = Some (Reg (b @ take k d) m t') \<and>
      (ok = 0 \<longrightarrow> length d \<le> k))"
proof (induction dst wpos d w arbitrary: b t rule: write_chunk.induct)
  case (1 dst wpos d w)
  show ?case
  proof (cases "d = []")
    case True
    with "1.prems" show ?thesis by simp
  next
    case False
    obtain x w' where r: "run_state (sys_fwrite dst wpos d) w = (x, w')" by fastforce
    note eq = "1.prems"(1) [unfolded write_chunk_step [OF False r]]
    show ?thesis
    proof (cases x)
      case (Inl e)
      then have w': "w' = rest_script w"
        using r sys_fwrite_cases [of w dst wpos d] by auto
      show ?thesis
      proof (cases "e = EINTR")
        case True
        with Inl eq have "write_chunk dst wpos d w' = (ok, w1)" by simp
        from "1.IH"(1) [OF False r [symmetric] Inl True this] "1.prems"(2,3) w' show ?thesis by simp
      next
        case False
        with Inl eq "1.prems"(2) w' show ?thesis by (auto intro: exI [of _ 0])
      qed
    next
      case (Inr n)
      then have n: "n \<le> length d"
        and fs: "w_fs w' = fs_put (pkey w dst) (Reg (b @ take n d) m (w_time w)) (w_fs w)"
        and cwd: "w_cwd w' = w_cwd w"
        using r sys_fwrite_cases [of w dst wpos d] "1.prems"(2,3) by auto
      have key: "pkey w' dst = pkey w dst" using cwd by (simp add: pkey_def)
      from Inr eq have "write_chunk dst (wpos + n) (drop n d) w' = (ok, w1)" by simp
      from "1.IH"(2) [OF False r [symmetric] Inr this, of "b @ take n d" "w_time w"] fs key n "1.prems"(3)
      have ok: "ok = 0 \<or> ok = - 1" and
        "\<exists>k t'. fs_get (w_fs w1) (pkey w dst) = Some (Reg (b @ take n d @ take k (drop n d)) m t') \<and>
          (ok = 0 \<longrightarrow> length d - n \<le> k)"
        by auto
      then obtain k t' where
        "fs_get (w_fs w1) (pkey w dst) = Some (Reg (b @ take n d @ take k (drop n d)) m t')"
        and k: "ok = 0 \<longrightarrow> length d - n \<le> k"
        by blast
      then have "fs_get (w_fs w1) (pkey w dst) = Some (Reg (b @ take (n + k) d) m t')"
        by (simp only: take_add)
      moreover have "ok = 0 \<longrightarrow> length d \<le> n + k" using k by auto
      ultimately show ?thesis using ok by blast
    qed
  qed
qed

text \<open>
  After \<open>rpos\<close> bytes the target holds exactly these; success means all of the source.
\<close>

lemma copy_loop_correct:
  "copy_loop src dst rpos wpos w = (ok, w') \<Longrightarrow> wpos = rpos \<Longrightarrow> pkey w src \<noteq> pkey w dst \<Longrightarrow>
   fs_get (w_fs w) (pkey w src) = Some (Reg s ms ts) \<Longrightarrow>
   fs_get (w_fs w) (pkey w dst) = Some (Reg (take rpos s) m t) \<Longrightarrow> rpos \<le> length s \<Longrightarrow>
   (ok = 0 \<or> ok = - 1) \<and>
   (\<exists>c t'. fs_get (w_fs w') (pkey w dst) = Some (Reg c m t') \<and> prefix c s \<and> (ok = 0 \<longrightarrow> c = s))"
proof (induction src dst rpos wpos w arbitrary: t rule: copy_loop.induct)
  case (1 src dst rpos wpos w)
  obtain x w1 where r: "run_state (sys_fread src rpos 8192) w = (x, w1)" by fastforce
  then have w1: "w1 = rest_script w" using sys_fread_world by (metis snd_conv)
  note eq = "1.prems"(1) [unfolded copy_loop_step [OF r]]
  show ?case
  proof (cases x)
    case (Inl e)
    show ?thesis
    proof (cases "e = EINTR")
      case True
      with Inl eq have "copy_loop src dst rpos wpos w1 = (ok, w')" by simp
      from "1.IH"(1) [OF r [symmetric] Inl True this] "1.prems"(2-6) w1 show ?thesis by simp
    next
      case False
      with Inl eq "1.prems"(5) w1 show ?thesis by (auto simp: take_is_prefix)
    qed
  next
    case (Inr d)
    then obtain k where d: "d = take k (drop rpos s)" and k: "0 < k"
      using sys_fread_cases [of w src rpos 8192] r "1.prems"(4) by auto
    show ?thesis
    proof (cases "d = []")
      case True
      then have "take rpos s = s" using d k "1.prems"(6) by simp
      with True Inr eq "1.prems"(5) w1 show ?thesis by auto
    next
      case False
      obtain j w2 where c: "write_chunk dst wpos d w1 = (j, w2)" by fastforce
      have dst1: "fs_get (w_fs w1) (pkey w1 dst) = Some (Reg (take rpos s) m t)"
        using "1.prems"(5) w1 by simp
      have rp: "wpos = length (take rpos s)" using "1.prems"(2,6) by simp
      obtain i t' where j: "j = 0 \<or> j = - 1"
        and dst2: "fs_get (w_fs w2) (pkey w dst) = Some (Reg (take rpos s @ take i d) m t')"
        and full: "j = 0 \<longrightarrow> length d \<le> i"
        using write_chunk_correct [OF c dst1 rp] w1 by auto
      have w2: "w_cwd w2 = w_cwd w"
        "\<And>k. k \<noteq> pkey w dst \<Longrightarrow> fs_get (w_fs w2) k = fs_get (w_fs w) k"
        using write_chunk_frame [OF c] w1 by auto
      have key: "pkey w2 q = pkey w q" for q using w2(1) by (simp add: pkey_def)
      have pre: "prefix (take rpos s @ take i d) s"
        unfolding d by (metis append_take_drop_id prefix_order.trans same_prefix_prefix take_is_prefix)
      show ?thesis
      proof (cases "j < 0")
        case True
        with False Inr eq c dst2 pre show ?thesis by auto
      next
        case nonneg: False
        then have "take i d = d" using j full by auto
        moreover have "take rpos s @ d = take (rpos + length d) s"
          unfolding d by (simp add: take_add min_def)
        ultimately have dst2': "fs_get (w_fs w2) (pkey w2 dst) = Some (Reg (take (rpos + length d) s) m t')"
          using dst2 key by simp
        have "copy_loop src dst (rpos + length d) (wpos + length d) w2 = (ok, w')"
          using False Inr eq c nonneg "1.prems"(3) by simp
        moreover have "rpos + length d \<le> length s" using d "1.prems"(6) by auto
        ultimately show ?thesis
          using "1.IH"(2) [OF r [symmetric] Inr False c [symmetric] nonneg "1.prems"(3)]
            "1.prems"(2,3,4) w2 key dst2' by simp
      qed
    qed
  qed
qed

text \<open>A directory, or nothing, is never copied successfully.\<close>

lemma copy_loop_needs_file:
  "copy_loop src dst rpos wpos w = (0, w') \<Longrightarrow> is_reg_node (fs_get (w_fs w) (pkey w src))"
proof (induction src dst rpos wpos w rule: copy_loop.induct)
  case (1 src dst rpos wpos w)
  obtain x w1 where r: "run_state (sys_fread src rpos 8192) w = (x, w1)" by fastforce
  then have w1: "w1 = rest_script w" using sys_fread_world by (metis snd_conv)
  note eq = "1.prems"(1) [unfolded copy_loop_step [OF r]]
  show ?case
  proof (cases x)
    case (Inl e)
    with eq have e: "e = EINTR" and "copy_loop src dst rpos wpos w1 = (0, w')"
      by (auto split: if_splits)
    from "1.IH"(1) [OF r [symmetric] Inl this] w1 show ?thesis by simp
  next
    case (Inr d)
    then show ?thesis using sys_fread_cases [of w src rpos 8192] r by auto
  qed
qed

text \<open>
  Copying a file onto itself: the target was truncated, so the first read that is not
  interrupted ends the loop, and its self-copy stop is not reached.
\<close>

lemma copy_loop_self:
  "copy_loop src dst 0 wpos w = (ok, w') \<Longrightarrow>
   fs_get (w_fs w) (pkey w src) = Some (Reg [] m t) \<Longrightarrow> quiet w w' \<and> (ok = 0 \<or> ok = - 1)"
proof (induction src dst "0::nat" wpos w rule: copy_loop.induct)
  case (1 src dst wpos w)
  obtain x w1 where r: "run_state (sys_fread src 0 8192) w = (x, w1)" by fastforce
  then have w1: "w1 = rest_script w" using sys_fread_world by (metis snd_conv)
  then have q: "quiet w w1" by (simp add: quiet_rest)
  note eq = "1.prems"(1) [unfolded copy_loop_step [OF r]]
  show ?case
  proof (cases x)
    case (Inl e)
    show ?thesis
    proof (cases "e = EINTR")
      case True
      with Inl eq have "copy_loop src dst 0 wpos w1 = (ok, w')" by simp
      from "1.hyps"(1) [OF r [symmetric] Inl True this] "1.prems"(2) w1
      show ?thesis using q quiet_trans by auto
    qed (use Inl eq q in auto)
  next
    case (Inr d)
    then have "d = []" using sys_fread_cases [of w src 0 8192] r "1.prems"(2) by auto
    with Inr eq q show ?thesis by auto
  qed
qed

section \<open>Whole copies\<close>

lemma open_wr_Inr:
  assumes "run_state (sys_open_wr p tr m) w = (Inr u, w')"
  shows "p \<noteq> [] \<and> \<not> wants_dir p \<and> w_cwd w' = w_cwd w \<and>
    (\<forall>k. k \<noteq> pkey w p \<longrightarrow> fs_get (w_fs w') k = fs_get (w_fs w) k) \<and>
    (\<exists>b m' t. fs_get (w_fs w') (pkey w p) = Some (Reg b m' t) \<and>
       (tr \<or> fs_get (w_fs w) (pkey w p) = None \<longrightarrow> b = []) \<and>
       (\<not> tr \<and> fs_get (w_fs w) (pkey w p) \<noteq> None \<longrightarrow>
          fs_get (w_fs w') (pkey w p) = fs_get (w_fs w) (pkey w p)))"
proof -
  have "do_open_wr p tr m (rest_script w) = (Inr u, w')"
    using assms syscall_cases [of "do_open_wr p tr m" w] by (auto simp: sys_open_wr_def)
  then show ?thesis
    by (auto simp: do_open_wr_def split: if_splits option.splits node.splits sum.splits)
qed

lemma open_rd_quiet: "run_state (sys_open_rd p) w = (r, w') \<Longrightarrow> quiet w w'"
  by (rule qr.runD [OF qr.calls(3)])

lemma fsync_quiet: "run_state (sys_fsync p) w = (r, w') \<Longrightarrow> quiet w w'"
  by (rule qr.runD [OF qr.calls(5)])

lemma confined_parent: "state_io_rel (fs_confined c S) (ensure_parent_dir_exists p)"
  by (rule fcr.any_parent) (rule fs_confined_mutators)

lemma ensure_parent_confined:
  "run_state (ensure_parent_dir_exists p) w = (r, w') \<Longrightarrow> fs_confined (w_cwd w) {} w w'"
  by (rule fcr.runD [OF confined_parent])

lemma ensure_dir_confined:
  "run_state (ensure_dir_exists p) w = (r, w') \<Longrightarrow> fs_confined (w_cwd w) {} w w'"
  by (rule fcr.runD [OF fcr.any_dir]) (rule fs_confined_mutators)

text \<open>Outside the allowed set an existing node stays, and a file cannot appear.\<close>

lemma confined_keeps:
  "fs_confined (w_cwd w) S w w' \<Longrightarrow> k \<notin> S \<Longrightarrow> fs_get (w_fs w) k = Some n \<Longrightarrow>
     fs_get (w_fs w') k = Some n"
  by (auto simp: fs_confined_def)

lemma confined_file_back:
  "fs_confined (w_cwd w) S w w' \<Longrightarrow> k \<notin> S \<Longrightarrow> is_reg_node (fs_get (w_fs w') k) \<Longrightarrow>
     fs_get (w_fs w') k = fs_get (w_fs w) k"
  unfolding fs_confined_def by (metis is_dir_nodeE is_reg_node_simps(2))

lemma confined_cwd: "fs_confined (w_cwd w) S w w' \<Longrightarrow> w_cwd w' = w_cwd w"
  by (simp add: fs_confined_def)

lemma confined_pkey: "fs_confined (w_cwd w) S w w' \<Longrightarrow> pkey w' p = pkey w p"
  by (simp add: fs_confined_def pkey_def)

lemma copy_plain_success:
  assumes run: "run_state (copy_file_plain src dst) w = (0, w')"
    and ne: "pkey w src \<noteq> pkey w dst"
  shows "\<exists>s ms ts m t. fs_get (w_fs w) (pkey w src) = Some (Reg s ms ts) \<and>
    fs_get (w_fs w') (pkey w dst) = Some (Reg s m t)"
proof -
  from run obtain w1 p w2 w3 w4 where
    o: "run_state (sys_open_rd src) w = (Inr (), w1)"
    and p: "run_state (ensure_parent_dir_exists dst) w1 = (p, w2)"
    and op: "run_state (sys_open_wr dst True 0x1A4) w2 = (Inr (), w3)"
    and c: "copy_loop src dst 0 0 w3 = (0, w4)"
    and f: "run_state (sys_fsync dst) w4 = (Inr (), w')"
    unfolding copy_file_plain_def
    by (auto split: prod.splits sum.splits if_splits)
  have cwd: "w_cwd w3 = w_cwd w"
    using open_wr_Inr [OF op] confined_cwd [OF ensure_parent_confined [OF p]]
      quiet_simps [OF open_rd_quiet [OF o]] by simp
  have key: "pkey w3 q = pkey w q" "pkey w2 q = pkey w q" for q
    using cwd open_wr_Inr [OF op] by (simp_all add: pkey_def)
  obtain s ms ts where src3: "fs_get (w_fs w3) (pkey w src) = Some (Reg s ms ts)"
    using copy_loop_needs_file [OF c] key by (auto elim: is_reg_nodeE)
  have "fs_get (w_fs w2) (pkey w src) = Some (Reg s ms ts)"
    using src3 open_wr_Inr [OF op] ne key by metis
  then have src: "fs_get (w_fs w) (pkey w src) = Some (Reg s ms ts)"
    using confined_file_back [OF ensure_parent_confined [OF p], of "pkey w src"]
      quiet_simps [OF open_rd_quiet [OF o]] by simp
  obtain m t where dst3: "fs_get (w_fs w3) (pkey w dst) = Some (Reg [] m t)"
    using open_wr_Inr [OF op] key by auto
  have "\<exists>t'. fs_get (w_fs w4) (pkey w dst) = Some (Reg s m t')"
    using copy_loop_correct [OF c refl, of s ms ts m t] src3 dst3 ne key by auto
  then show ?thesis
    using src quiet_simps [OF fsync_quiet [OF f]] by auto
qed

text \<open>Everything at or below a place.\<close>

definition below :: "fkey \<Rightarrow> fkey set" where
  "below k = {k'. prefix k k'}"

lemma below_simps [simp]: "k @ z \<in> below k" "k' \<in> below k \<longleftrightarrow> prefix k k'"
  by (simp_all add: below_def)

lemma copy_plain_confined:
  "run_state (copy_file_plain src dst) w = (r, w') \<Longrightarrow> fs_confined (w_cwd w) (below (pkey w dst)) w w'"
  by (rule fcr.runD [OF fcf.copy_plain]) (auto simp: pkey_def)

section \<open>Return values\<close>

lemma copy_loop_values:
  "copy_loop src dst rpos wpos w = (ok, w') \<Longrightarrow> ok = 0 \<or> ok = - 1"
proof (induction src dst rpos wpos w rule: copy_loop.induct)
  case (1 src dst rpos wpos w)
  obtain x w1 where r: "run_state (sys_fread src rpos 8192) w = (x, w1)" by fastforce
  note eq = "1.prems" [unfolded copy_loop_step [OF r]]
  show ?case
  proof (cases x)
    case (Inl e)
    then show ?thesis using eq "1.IH"(1) [OF r [symmetric] Inl] by (auto split: if_splits)
  next
    case (Inr d)
    obtain j w2 where c: "write_chunk dst wpos d w1 = (j, w2)" by fastforce
    show ?thesis
      using eq Inr c "1.IH"(2) [OF r [symmetric] Inr _ c [symmetric]] by (auto split: if_splits)
  qed
qed

lemma mkdir_each_values: "run_state (mkdir_each ds) w = (r, w') \<Longrightarrow> r = 0 \<or> r = - 1"
  by (induction ds arbitrary: w) (auto split: prod.splits sum.splits if_splits)

lemma ensure_dir_values: "run_state (ensure_dir_exists p) w = (r, w') \<Longrightarrow> r = 0 \<or> r = - 1"
  by (auto simp: ensure_dir_exists_def Let_def dest: mkdir_each_values split: if_splits)

lemma ensure_parent_values: "run_state (ensure_parent_dir_exists p) w = (r, w') \<Longrightarrow> r = 0 \<or> r = - 1"
  by (auto simp: ensure_parent_dir_exists_def dest: ensure_dir_values split: if_splits option.splits)

lemma copy_plain_values: "run_state (copy_file_plain src dst) w = (r, w') \<Longrightarrow> r = 0 \<or> r = - 1"
  by (auto simp: copy_file_plain_def dest: copy_loop_values split: prod.splits sum.splits if_splits)

lemma safe_rename_values:
  "run_state (safe_rename_or_copy_unlink src dst) w = (r, w') \<Longrightarrow> r = 0 \<or> r = - 1"
  by (auto simp: safe_rename_or_copy_unlink_def split: prod.splits sum.splits if_splits)

lemma copy_atomic_values: "run_state (copy_file_atomic src dst) w = (r, w') \<Longrightarrow> r = 0 \<or> r = - 1"
  by (auto simp: copy_file_atomic_def split: prod.splits sum.splits if_splits)

lemma move_to_trash_values: "run_state (move_to_trash root rel) w = (r, w') \<Longrightarrow> r = 0 \<or> r = - 1"
  by (auto simp: move_to_trash_def dest: safe_rename_values
      split: prod.splits sum.splits if_splits option.splits)

section \<open>Moving\<close>

text \<open>The script only gets shorter.\<close>

definition script_used :: "world \<Rightarrow> world \<Rightarrow> bool" where
  "script_used w w' \<longleftrightarrow> (\<exists>j. w_script w' = drop j (w_script w))"

lemma script_used_refl: "w_script w' = w_script w \<Longrightarrow> script_used w w'"
  unfolding script_used_def by (rule exI [of _ 0]) simp

interpretation sur: world_relation script_used
proof unfold_locales
  fix s t u v :: world
  show "script_used s s" by (rule script_used_refl) simp
  show "script_used s t \<Longrightarrow> script_used t u \<Longrightarrow> script_used s u"
    by (auto simp: script_used_def add.commute)
  show "script_used v (rest_script v)"
    unfolding script_used_def by (rule exI [of _ 1]) (simp add: drop_Suc)
qed

lemma script_used_mkdir: "state_io_rel script_used (sys_mkdir d m)"
  unfolding sys_mkdir_def by (rule sur.syscall, rule script_used_refl) (auto simp: do_mkdir_def split: sum.splits)

interpretation suf: file_relation script_used "\<lambda>_. True"
  by unfold_locales
    ((rule sur.any_dir sur.any_parent, rule script_used_mkdir)+,
     unfold call_defs, (rule sur.syscall sur.syscall_state, rule script_used_refl,
      auto simp: do_mkdir_def do_open_wr_def do_fwrite_def do_unlink_def do_touch_def do_rename_def
        Let_def split: option.splits sum.splits node.splits)+)

lemma script_used_no_fail:
  "script_used w w' \<Longrightarrow> Fail e \<notin> set (w_script w) \<Longrightarrow> Fail e \<notin> set (w_script w')"
  by (auto simp: script_used_def dest: in_set_dropD)

lemma do_rename_no_EXDEV: "do_rename p q w \<noteq> (Inl EXDEV, w')"
  by (auto simp: do_rename_def Let_def parent_check_def split: option.splits sum.splits)

lemma sys_rename_Inl:
  assumes "run_state (sys_rename p q) w = (Inl e, w')"
  shows "quiet w w' \<and> (e = EXDEV \<longrightarrow> Fail EXDEV \<in> set (w_script w))"
  using syscall_cases [of "do_rename p q" w]
proof
  assume "run_state (syscall (do_rename p q)) w = do_rename p q (rest_script w)"
  with assms have r: "do_rename p q (rest_script w) = (Inl e, w')" by (simp add: sys_rename_def)
  then have "e \<noteq> EXDEV" using do_rename_no_EXDEV by blast
  with do_rename_fails [OF r] show ?thesis by (simp add: quiet_rest)
next
  assume "\<exists>e xs. w_script w = Fail e # xs \<and>
    run_state (syscall (do_rename p q)) w = (Inl e, rest_script w)"
  with assms show ?thesis by (auto simp: sys_rename_def quiet_rest)
qed

lemma sys_rename_Inr:
  assumes "run_state (sys_rename p q) w = (Inr u, w')" and "fs_wf (w_fs w)"
  shows "p \<noteq> [] \<and> q \<noteq> [] \<and> (pkey w p = pkey w q \<and> w_fs w' = w_fs w \<or>
     movable (w_fs w) (pkey w p) (pkey w q) \<and>
     w_fs w' = fs_move (pkey w p) (pkey w q) (w_fs w))"
proof -
  have r: "do_rename p q (rest_script w) = (Inr u, w')"
    using assms syscall_cases [of "do_rename p q" w] by (auto simp: sys_rename_def)
  then have "p \<noteq> [] \<and> q \<noteq> []" by (auto simp: do_rename_def Let_def split: if_splits)
  then show ?thesis using do_rename_succeeds [OF _ r] assms(2) by auto
qed

text \<open>
  A move that reports success has put the content in place, by renaming or, across file
  systems, by copying; a move that fails for another reason than that has changed nothing.
\<close>

lemma safe_rename_success:
  assumes run: "run_state (safe_rename_or_copy_unlink src dst) w = (0, w')"
    and wf: "fs_wf (w_fs w)" and ne: "pkey w src \<noteq> pkey w dst"
    and src: "fs_get (w_fs w) (pkey w src) = Some (Reg s m t)"
  shows "\<exists>m t. fs_get (w_fs w') (pkey w dst) = Some (Reg s m t)"
    and "fs_get (w_fs w') (pkey w src) = None"
proof -
  obtain p w1 x w2 where p: "run_state (ensure_parent_dir_exists dst) w = (p, w1)"
    and r: "run_state (sys_rename src dst) w1 = (x, w2)"
    and rest: "p \<ge> 0" "x = Inr () \<and> w' = w2 \<or>
      x = Inl EXDEV \<and> (\<exists>w3 c. run_state (copy_file_plain src dst) w2 = (c, w3) \<and> c \<ge> 0 \<and>
        run_state (sys_unlink src) w3 = (Inr (), w'))"
    using run unfolding safe_rename_or_copy_unlink_def
    by (auto split: prod.splits sum.splits if_splits)
  note c1 = ensure_parent_confined [OF p]
  have key1: "pkey w1 q = pkey w q" for q by (rule confined_pkey [OF c1])
  have src1: "fs_get (w_fs w1) (pkey w src) = Some (Reg s m t)"
    using confined_keeps [OF c1 _ src] by simp
  have wf1: "fs_wf (w_fs w1)"
    using wfr.runD [OF wff.ensure_parent [OF TrueI] p] wf by (simp add: fs_wf_kept_def)
  have "(\<exists>m t. fs_get (w_fs w') (pkey w dst) = Some (Reg s m t)) \<and> fs_get (w_fs w') (pkey w src) = None"
  proof (cases x)
    case (Inr u)
    with rest have w': "w' = w2" by simp
    with sys_rename_Inr [OF r [unfolded Inr] wf1] ne key1
    have mv: "movable (w_fs w1) (pkey w src) (pkey w dst)"
      and fs: "w_fs w' = fs_move (pkey w src) (pkey w dst) (w_fs w1)" by auto
    have "\<not> prefix (pkey w dst) (pkey w src)" using mv by (simp add: movable_def)
    then show ?thesis using src1 by (simp add: fs fs_get_moved [OF mv])
  next
    case (Inl e)
    with rest obtain w3 c where e: "e = EXDEV" and c: "run_state (copy_file_plain src dst) w2 = (c, w3)"
      and c0: "c \<ge> 0" and u: "run_state (sys_unlink src) w3 = (Inr (), w')" by auto
    have q: "quiet w1 w2" using sys_rename_Inl [OF r [unfolded Inl]] by simp
    have key2: "pkey w2 q = pkey w q" for q using quiet_simps [OF q] key1 by simp
    have "c = 0" using copy_plain_values [OF c] c0 by auto
    with copy_plain_success [OF c [unfolded this]] ne key2 src1 quiet_simps [OF q]
    obtain m' t' where dst3: "fs_get (w_fs w3) (pkey w dst) = Some (Reg s m' t')" by auto
    have key3: "pkey w3 q = pkey w q" for q
      using confined_pkey [OF copy_plain_confined [OF c]] key2 by simp
    have "w_fs w' = fs_del (pkey w src) (w_fs w3)"
      using u syscall_cases [of "do_unlink src" w3] key3
      by (auto simp: sys_unlink_def do_unlink_def split: sum.splits if_splits)
    then show ?thesis using dst3 ne by simp
  qed
  then show "\<exists>m t. fs_get (w_fs w') (pkey w dst) = Some (Reg s m t)"
    and "fs_get (w_fs w') (pkey w src) = None" by auto
qed

lemma safe_rename_failure:
  assumes run: "run_state (safe_rename_or_copy_unlink src dst) w = (r, w')" and r: "r \<noteq> 0"
    and nx: "Fail EXDEV \<notin> set (w_script w)"
  shows "fs_confined (w_cwd w) {} w w'"
proof -
  obtain p w1 where p: "run_state (ensure_parent_dir_exists dst) w = (p, w1)" by fastforce
  note c1 = ensure_parent_confined [OF p]
  have nx1: "Fail EXDEV \<notin> set (w_script w1)"
    using script_used_no_fail [OF sur.runD [OF suf.ensure_parent [OF TrueI] p] nx] .
  show ?thesis
  proof (cases "p < 0")
    case True
    with run p c1 show ?thesis by (simp add: safe_rename_or_copy_unlink_def)
  next
    case False
    obtain x w2 where rn: "run_state (sys_rename src dst) w1 = (x, w2)" by fastforce
    with run p False r obtain e where x: "x = Inl e"
      by (cases x) (auto simp: safe_rename_or_copy_unlink_def)
    from sys_rename_Inl [OF rn [unfolded x]] nx1 have q: "quiet w1 w2" and "e \<noteq> EXDEV" by auto
    with run p False rn x have "w' = w2"
      by (auto simp: safe_rename_or_copy_unlink_def)
    with c1 fcr.quiet [OF q] show ?thesis by (blast intro: fs_confined_trans)
  qed
qed

section \<open>The atomic copy\<close>

lemma copy_atomic_success:
  assumes run: "run_state (copy_file_atomic src dst) w = (0, w')" and wf: "fs_wf (w_fs w)"
    and ne: "pkey w src \<noteq> pkey w (dst @ ''.syncing'')" and dst: "dst \<noteq> []"
  shows "\<exists>s ms ts m t. fs_get (w_fs w) (pkey w src) = Some (Reg s ms ts) \<and>
    fs_get (w_fs w') (pkey w dst) = Some (Reg s m t)"
proof -
  let ?tmp = "dst @ ''.syncing''"
  obtain w1 c r where len: "length ?tmp < MAX_PATH_LEN"
    and c: "run_state (copy_file_plain src ?tmp) w = (c, w1)" and "c \<ge> 0"
    and rn: "run_state (safe_rename_or_copy_unlink ?tmp dst) w1 = (r, w')" and "r \<ge> 0"
    using run by (auto simp: copy_file_atomic_def snprintf_s_def split: prod.splits if_splits)
  then have c0: "c = 0" and r0: "r = 0"
    using copy_plain_values [OF c] safe_rename_values [OF rn] by auto
  have key: "pkey w1 q = pkey w q" for q by (rule confined_pkey [OF copy_plain_confined [OF c]])
  from copy_plain_success [OF c [unfolded c0] ne] obtain s ms ts m t where
    s: "fs_get (w_fs w) (pkey w src) = Some (Reg s ms ts)"
    "fs_get (w_fs w1) (pkey w ?tmp) = Some (Reg s m t)" by blast
  have wf1: "fs_wf (w_fs w1)"
    using wfr.runD [OF wff.copy_plain c] wf by (simp add: fs_wf_kept_def)
  have "pkey w1 ?tmp \<noteq> pkey w1 dst"
    using syncing_not_prefix [OF dst, of "w_cwd w1"] by (auto simp: pkey_def)
  from safe_rename_success(1) [OF rn [unfolded r0] wf1 this] s key show ?thesis by auto
qed

text \<open>The temporary name is free afterwards, whatever was there.\<close>

lemma copy_atomic_frees:
  assumes run: "run_state (copy_file_atomic src dst) w = (0, w')" and wf: "fs_wf (w_fs w)"
    and ne: "pkey w src \<noteq> pkey w (dst @ ''.syncing'')" and dst: "dst \<noteq> []"
  shows "fs_get (w_fs w') (pkey w (dst @ ''.syncing'')) = None"
proof -
  let ?tmp = "dst @ ''.syncing''"
  obtain w1 c r where c: "run_state (copy_file_plain src ?tmp) w = (c, w1)" and "c \<ge> 0"
    and rn: "run_state (safe_rename_or_copy_unlink ?tmp dst) w1 = (r, w')" and "r \<ge> 0"
    using run by (auto simp: copy_file_atomic_def snprintf_s_def split: prod.splits if_splits)
  then have c0: "c = 0" and r0: "r = 0"
    using copy_plain_values [OF c] safe_rename_values [OF rn] by auto
  have key: "pkey w1 q = pkey w q" for q by (rule confined_pkey [OF copy_plain_confined [OF c]])
  obtain s m t where s: "fs_get (w_fs w1) (pkey w ?tmp) = Some (Reg s m t)"
    using copy_plain_success [OF c [unfolded c0] ne] by blast
  have wf1: "fs_wf (w_fs w1)" using wfr.runD [OF wff.copy_plain c] wf by (simp add: fs_wf_kept_def)
  have "pkey w1 ?tmp \<noteq> pkey w1 dst" using syncing_not_prefix [OF dst, of "w_cwd w1"] by (auto simp: pkey_def)
  from safe_rename_success(2) [OF rn [unfolded r0] wf1 this] s key show ?thesis by auto
qed

lemma copy_atomic_failure:
  assumes run: "run_state (copy_file_atomic src dst) w = (r, w')" and r: "r \<noteq> 0"
    and nx: "Fail EXDEV \<notin> set (w_script w)"
  shows "fs_confined (w_cwd w) (below (pkey w (dst @ ''.syncing''))) w w'"
proof (cases "length (dst @ ''.syncing'') < MAX_PATH_LEN")
  case False
  with run show ?thesis by (auto simp: copy_file_atomic_def snprintf_s_def fcr.refl)
next
  case True
  let ?tmp = "dst @ ''.syncing''" and ?C = "fs_confined (w_cwd w) (below (pkey w (dst @ ''.syncing'')))"
  obtain c w1 where c: "run_state (copy_file_plain src ?tmp) w = (c, w1)" by fastforce
  note c1 = copy_plain_confined [OF c]
  have cwd1: "w_cwd w1 = w_cwd w" by (rule confined_cwd [OF c1])
  have unl: "?C v v'" if "run_state (sys_unlink ?tmp) v = (x, v')" for v v' x
    using that by (rule fcr.runD [OF fcf.unlink, rotated]) (auto simp: pkey_def)
  show ?thesis
  proof (cases "c < 0")
    case neg: True
    with run True c obtain x where "run_state (sys_unlink ?tmp) w1 = (x, w')"
      by (auto simp: copy_file_atomic_def snprintf_s_def split: prod.splits)
    from fs_confined_trans [OF c1 unl [OF this]] show ?thesis .
  next
    case pos: False
    obtain k w2 where k: "run_state (safe_rename_or_copy_unlink ?tmp dst) w1 = (k, w2)" by fastforce
    with run True c pos r obtain x where k0: "k < 0" and u: "run_state (sys_unlink ?tmp) w2 = (x, w')"
      by (auto simp: copy_file_atomic_def snprintf_s_def split: prod.splits if_splits)
    have nx1: "Fail EXDEV \<notin> set (w_script w1)"
      using script_used_no_fail [OF sur.runD [OF suf.copy_plain c] nx] by simp
    have "fs_confined (w_cwd w1) {} w1 w2"
      using safe_rename_failure [OF k _ nx1] k0 by simp
    then have "?C w1 w2" using cwd1 fs_confined_mono [of "w_cwd w" "{}" w1 w2] by simp
    with c1 unl [OF u] show ?thesis by (blast intro: fs_confined_trans)
  qed
qed

end
