(* ===== verification/BackupLaws.thy ===== *)
theory BackupLaws
  imports CopyLaws
begin

text \<open>
  Old versions and the trash: what \<open>backup_old_version\<close> and \<open>move_to_trash\<close> leave below the
  backup root, and the properties of the file utilities.
\<close>

section \<open>Places below the backup root\<close>

abbreviation current_file :: "path \<Rightarrow> string \<Rightarrow> path" where
  "current_file root rel \<equiv> joined (joined root ''current'') rel"

definition stamped_file :: "string \<Rightarrow> world \<Rightarrow> path \<Rightarrow> string \<Rightarrow> path" where
  "stamped_file sub w root rel =
     joined (joined (joined root sub) (stamp_text (w_localtime w (w_time w)))) rel"

lemma join3_Some: "join3 root sub rel = Some q \<Longrightarrow> q = joined (joined root sub) rel"
  by (auto simp: join3_def dest!: join_path_Some split: option.splits)

lemma join4_Some: "join4 root sub st rel = Some q \<Longrightarrow> q = joined (joined (joined root sub) st) rel"
  by (auto simp: join4_def dest!: join_path_Some join3_Some split: option.splits)

lemma plain_simps [simp]:
  "plain ''current'' = [''current'']" "plain ''.versions'' = [''.versions'']"
  "plain ''.trash'' = [''.trash'']"
  by (simp_all add: plain_def Let_def)

lemma sub_plain:
  "s \<in> {''current'', ''.versions'', ''.trash''} \<Longrightarrow> ''..'' \<notin> set (split_on slash s)"
  by (auto simp: Let_def)

lemma key_sub:
  assumes "root \<noteq> []" and s: "s \<in> {''current'', ''.versions'', ''.trash''}"
  shows "path_key c (joined root s) = path_key c root @ [s]"
proof -
  have "path_key c (joined root s) = path_key c root @ plain s"
    using assms by (intro path_key_joined sub_plain)
  moreover have "plain s = [s]" using s by (elim insertE) simp_all
  ultimately show ?thesis by simp
qed

lemma key_current:
  assumes "root \<noteq> []" and "sanitize_rel_path rel = 0"
  shows "path_key c (current_file root rel) = path_key c root @ ''current'' # plain rel"
  using assms sanitize_no_dotdot [OF assms(2)]
  by (simp add: path_key_joined [of "joined root ''current''"] joined_nonempty key_sub)

lemma key_stamped:
  assumes "root \<noteq> []" and "sub \<in> {''.versions'', ''.trash''}" and "''..'' \<notin> set (split_on slash rel)"
  shows "\<exists>ks. path_key c (stamped_file sub w root rel) = path_key c root @ sub # ks"
proof -
  let ?s = "stamp_text (w_localtime w (w_time w))"
  have "''..'' \<notin> set (split_on slash ?s)"
    using stamp_plain stamp_no_dots [THEN not_sym] by (simp add: split_on_single)
  then show ?thesis
    using assms by (auto simp: stamped_file_def path_key_joined joined_nonempty key_sub)
qed

lemma stamped_suffix:
  "sanitize_rel_path rel = 0 \<Longrightarrow>
     stamped_file sub w root rel @ ''.syncing'' = stamped_file sub w root (rel @ ''.syncing'')"
  by (simp add: stamped_file_def joined_suffix sanitize_iff)

text \<open>A first call that is not made to fail, and one that is.\<close>

definition unscripted :: "world \<Rightarrow> bool" where
  "unscripted w \<longleftrightarrow> (case w_script w of Fail e # xs \<Rightarrow> False | _ \<Rightarrow> True)"

lemma access_unscripted:
  "unscripted w \<Longrightarrow> fs_find w p = Inr n \<Longrightarrow> run_state (sys_access p) w = (Inr (), rest_script w)"
  using syscall_cases [of "\<lambda>w. (map_sum id (\<lambda>_. ()) (fs_find w p), w)" w]
  by (auto simp: unscripted_def sys_access_def fs_find_def pkey_def split: if_splits option.splits)

lemma access_scripted: "\<not> unscripted w \<Longrightarrow> \<exists>e. run_state (sys_access p) w = (Inl e, rest_script w)"
  by (auto simp: unscripted_def sys_access_def syscall_def rest_script_def split: list.splits outcome.splits)

lemma timestamp_now:
  "run_state (make_timestamp_dirname n) w = (x, w') \<Longrightarrow>
     w' = w \<and> (\<forall>s. x = Some s \<longrightarrow> s = stamp_text (w_localtime w (w_time w)))"
  by (auto simp: make_timestamp_dirname_def get_localtime_def Let_def split: if_splits)

lemma is_directory_quiet: "run_state (is_directory p) w = (b, w') \<Longrightarrow> quiet w w'"
  unfolding is_directory_def by (rule qr.runD [of "is_directory p", unfolded is_directory_def])
    (intro qr.rules qr.calls)

lemma is_directory_sound:
  "run_state (is_directory p) w = (True, w') \<Longrightarrow> is_dir_node (fs_get (w_fs w) (pkey w p))"
  using syscall_cases [of "\<lambda>w. (map_sum id node_stat (fs_find w p), w)" w]
  by (auto simp: is_directory_def sys_stat_def S_ISDIR_node fs_find_def map_sum_def
      split: prod.splits sum.splits option.splits if_splits)

section \<open>Versions\<close>

lemma backup_keeps_old:
  assumes run: "run_state (backup_old_version root rel) w = (0, w')"
    and wf: "fs_wf (w_fs w)" and root: "root \<noteq> []" and un: "unscripted w"
    and old: "fs_find w (current_file root rel) = Inr (Reg s m t)"
  shows "(\<exists>m t. fs_get (w_fs w') (pkey w (stamped_file ''.versions'' w root rel)) = Some (Reg s m t)) \<and>
    fs_get (w_fs w') (pkey w (current_file root rel)) = Some (Reg s m t)"
proof -
  let ?src = "current_file root rel" and ?dst = "stamped_file ''.versions'' w root rel"
  have san: "sanitize_rel_path rel = 0"
    using run by (auto simp: backup_old_version_def split: if_splits)
  let ?w1 = "rest_script w"
  note acc = access_unscripted [OF un old]
  obtain q where q: "join3 root ''current'' rel = Some q"
    using run san by (auto simp: backup_old_version_def split: option.splits)
  then have q_eq: "q = ?src" by (rule join3_Some)
  obtain x where ts: "run_state (make_timestamp_dirname 64) ?w1 = (x, ?w1)"
    using timestamp_now [of 64 ?w1] by (cases "run_state (make_timestamp_dirname 64) ?w1") auto
  obtain p where p: "Option.bind x (\<lambda>s. join4 root ''.versions'' s rel) = Some p"
    using run san q acc ts q_eq by (auto simp: backup_old_version_def split: option.splits)
  then have p_eq: "p = ?dst"
    using timestamp_now [OF ts] by (auto simp: bind_eq_Some_conv stamped_file_def dest!: join4_Some)
  obtain d w2 where d: "run_state (is_directory q) ?w1 = (d, w2)" by fastforce
  have src: "fs_get (w_fs w) (pkey w ?src) = Some (Reg s m t)" using fs_find_Inr [OF old] by simp
  have "\<not> d" using is_directory_sound [of q ?w1 w2] d src q_eq by (cases d) auto
  then have c: "run_state (copy_file_atomic q p) w2 = (0, w')"
    using run san q acc ts p d q_eq by (auto simp: backup_old_version_def split: option.splits)
  have qt: "quiet w w2" using is_directory_quiet [OF d] quiet_rest quiet_trans by blast
  have key: "pkey w2 r = path_key (w_cwd w) r" for r using quiet_simps [OF qt] by (simp add: pkey_def)
  have nd: "''..'' \<notin> set (split_on slash rel)" by (rule sanitize_no_dotdot [OF san])
  obtain ks where ks: "path_key (w_cwd w) (?dst @ ''.syncing'') = path_key (w_cwd w) root @ ''.versions'' # ks"
    unfolding stamped_suffix [OF san] using key_stamped [OF root _ dotdot_suffix [OF nd]] by blast
  obtain ls where ls: "path_key (w_cwd w) ?dst = path_key (w_cwd w) root @ ''.versions'' # ls"
    using key_stamped [OF root _ nd] by blast
  note kc = key_current [OF root san, of "w_cwd w"]
  have "pkey w2 q \<noteq> pkey w2 (p @ ''.syncing'')" by (simp add: key q_eq p_eq ks kc)
  moreover have "p \<noteq> []" using p by (auto simp: bind_eq_Some_conv join4_def dest: join_path_Some split: option.splits)
  ultimately have dst: "\<exists>m t. fs_get (w_fs w') (pkey w ?dst) = Some (Reg s m t)"
    using copy_atomic_success [OF c] wf src quiet_simps [OF qt] q_eq p_eq by (auto simp: pkey_def)
  have "fs_confined (w_cwd w) (below (path_key (w_cwd w) ?dst) \<union> below (path_key (w_cwd w) (?dst @ ''.syncing''))) w2 w'"
    using c p_eq by (intro fcr.runD [OF fcf.copy_atomic]) auto
  moreover have "fs_get (w_fs w2) (pkey w ?src) = Some (Reg s m t)" using src quiet_simps [OF qt] by simp
  ultimately have "fs_get (w_fs w') (pkey w ?src) = Some (Reg s m t)"
    using confined_keeps [of w2 _ w' "pkey w ?src"] quiet_simps [OF qt] by (auto simp: pkey_def ks ls kc)
  with dst show ?thesis by simp
qed

text \<open>When looking for the file fails, nothing is kept, and 0 is returned.\<close>

lemma backup_blind:
  assumes "run_state (backup_old_version root rel) w = (0, w')" and "\<not> unscripted w"
  shows "w_fs w' = w_fs w"
proof -
  obtain q where q: "join3 root ''current'' rel = Some q"
    using assms(1) by (auto simp: backup_old_version_def split: if_splits option.splits)
  obtain e where "run_state (sys_access q) w = (Inl e, rest_script w)" using access_scripted [OF assms(2)] by blast
  then have "w' = rest_script w" using assms(1) q by (auto simp: backup_old_version_def split: if_splits)
  then show ?thesis by simp
qed

section \<open>Trash\<close>

lemma safe_rename_moves:
  assumes run: "run_state (safe_rename_or_copy_unlink src dst) w = (0, w')"
    and wf: "fs_wf (w_fs w)" and ne: "pkey w src \<noteq> pkey w dst"
    and nx: "Fail EXDEV \<notin> set (w_script w)"
  shows "fs_get (w_fs w) (pkey w src @ z) = Some n \<Longrightarrow> fs_get (w_fs w') (pkey w dst @ z) = Some n"
    and "fs_get (w_fs w') (pkey w src @ z) = None"
proof -
  obtain p w1 where p: "run_state (ensure_parent_dir_exists dst) w = (p, w1)" by fastforce
  note c1 = ensure_parent_confined [OF p]
  have nx1: "Fail EXDEV \<notin> set (w_script w1)"
    using script_used_no_fail [OF sur.runD [OF suf.ensure_parent [OF TrueI] p] nx] .
  have wf1: "fs_wf (w_fs w1)"
    using wfr.runD [OF wff.ensure_parent [OF TrueI] p] wf by (simp add: fs_wf_kept_def)
  obtain x where r: "run_state (sys_rename src dst) w1 = (Inr x, w')"
    using run p nx1 sys_rename_Inl [of src dst w1]
    by (auto simp: safe_rename_or_copy_unlink_def split: prod.splits sum.splits if_splits)
  have mv: "movable (w_fs w1) (pkey w src) (pkey w dst)"
    and fs: "w_fs w' = fs_move (pkey w src) (pkey w dst) (w_fs w1)"
    using sys_rename_Inr [OF r wf1] ne confined_pkey [OF c1] by auto
  show "fs_get (w_fs w) (pkey w src @ z) = Some n \<Longrightarrow> fs_get (w_fs w') (pkey w dst @ z) = Some n"
    using confined_keeps [OF c1] by (simp add: fs fs_get_moved [OF mv])
  have "\<not> prefix (pkey w dst) (pkey w src @ z)"
    using mv unfolding movable_def by (metis prefix_append prefix_def prefix_same_cases)
  then show "fs_get (w_fs w') (pkey w src @ z) = None"
    by (simp add: fs fs_get_moved [OF mv])
qed

text \<open>With \<open>EXDEV\<close>, a file may have been copied instead.\<close>

lemma safe_rename_either:
  assumes run: "run_state (safe_rename_or_copy_unlink src dst) w = (0, w')"
    and wf: "fs_wf (w_fs w)" and ne: "pkey w src \<noteq> pkey w dst" and n0: "fs_get (w_fs w) (pkey w src) = Some n0"
  shows "(\<forall>z n. fs_get (w_fs w) (pkey w src @ z) = Some n \<longrightarrow> fs_get (w_fs w') (pkey w dst @ z) = Some n) \<and>
      (\<forall>z. fs_get (w_fs w') (pkey w src @ z) = None) \<or>
    Fail EXDEV \<in> set (w_script w) \<and> (\<exists>s m t m' t'. n0 = Reg s m t \<and>
      fs_get (w_fs w') (pkey w dst) = Some (Reg s m' t') \<and> fs_get (w_fs w') (pkey w src) = None)"
proof (cases "Fail EXDEV \<in> set (w_script w)")
  case False
  then show ?thesis using safe_rename_moves [OF run wf ne] by blast
next
  case ex: True
  obtain p w1 where p: "run_state (ensure_parent_dir_exists dst) w = (p, w1)" by (rule prod.exhaust)
  obtain x w2 where r: "run_state (sys_rename src dst) w1 = (x, w2)" by (rule prod.exhaust)
  note c1 = ensure_parent_confined [OF p]
  have key1: "pkey w1 q = pkey w q" for q by (rule confined_pkey [OF c1])
  have wf1: "fs_wf (w_fs w1)"
    using wfr.runD [OF wff.ensure_parent [OF TrueI] p] wf by (simp add: fs_wf_kept_def)
  show ?thesis
  proof (cases x)
    case (Inr u)
    have "w' = w2" using run p r Inr by (auto simp: safe_rename_or_copy_unlink_def split: if_splits)
    with sys_rename_Inr [OF r [unfolded Inr] wf1] ne
    have mv: "movable (w_fs w1) (pkey w src) (pkey w dst)"
      and fs: "w_fs w' = fs_move (pkey w src) (pkey w dst) (w_fs w1)" by (auto simp: key1)
    have "\<not> prefix (pkey w dst) (pkey w src @ z)" for z
      using mv unfolding movable_def by (metis prefix_append prefix_def prefix_same_cases)
    moreover have "fs_get (w_fs w) (pkey w src @ z) = Some n \<Longrightarrow> fs_get (w_fs w') (pkey w dst @ z) = Some n" for z n
      using confined_keeps [OF c1] by (simp add: fs fs_get_moved [OF mv])
    ultimately show ?thesis by (simp add: fs fs_get_moved [OF mv])
  next
    case (Inl e)
    have q: "quiet w1 w2" using sys_rename_Inl [OF r [unfolded Inl]] by simp
    obtain c w3 where c: "run_state (copy_file_plain src dst) w2 = (c, w3)" by (rule prod.exhaust)
    have "\<not> c < 0"
      using run p r Inl c by (auto simp: safe_rename_or_copy_unlink_def split: if_splits)
    then have "c = 0" using copy_plain_values [OF c] by auto
    moreover have key2: "pkey w2 k = pkey w k" for k using quiet_simps [OF q] key1 by simp
    ultimately obtain s m t where "fs_get (w_fs w2) (pkey w src) = Some (Reg s m t)"
      using copy_plain_success [of src dst w2 w3] c ne by auto
    moreover have "fs_get (w_fs w2) (pkey w src) = Some n0"
      using confined_keeps [OF c1 _ n0] quiet_simps(1) [OF q] by simp
    ultimately have "n0 = Reg s m t" by simp
    moreover from this have "fs_get (w_fs w) (pkey w src) = Some (Reg s m t)" using n0 by simp
    then have "\<exists>m t. fs_get (w_fs w') (pkey w dst) = Some (Reg s m t)" "fs_get (w_fs w') (pkey w src) = None"
      by (rule safe_rename_success [OF run wf ne])+
    ultimately show ?thesis using ex by auto
  qed
qed

lemma trash_keeps_all:
  assumes run: "run_state (move_to_trash root rel) w = (0, w')"
    and wf: "fs_wf (w_fs w)" and root: "root \<noteq> []" and un: "unscripted w"
    and old: "fs_find w (current_file root rel) = Inr n0"
  shows "(\<forall>z n. fs_get (w_fs w) (pkey w (current_file root rel) @ z) = Some n \<longrightarrow>
        fs_get (w_fs w') (pkey w (stamped_file ''.trash'' w root rel) @ z) = Some n) \<and>
      (\<forall>z. fs_get (w_fs w') (pkey w (current_file root rel) @ z) = None) \<or>
    Fail EXDEV \<in> set (w_script w) \<and> (\<exists>s m t m' t'. n0 = Reg s m t \<and>
      fs_get (w_fs w') (pkey w (stamped_file ''.trash'' w root rel)) = Some (Reg s m' t') \<and>
      fs_get (w_fs w') (pkey w (current_file root rel)) = None)"
proof -
  let ?src = "current_file root rel" and ?dst = "stamped_file ''.trash'' w root rel"
  have san: "sanitize_rel_path rel = 0"
    using run by (auto simp: move_to_trash_def split: if_splits)
  let ?w1 = "rest_script w"
  note acc = access_unscripted [OF un old]
  obtain q where q: "join3 root ''current'' rel = Some q"
    using run san by (auto simp: move_to_trash_def split: option.splits)
  then have q_eq: "q = ?src" by (rule join3_Some)
  obtain x where ts: "run_state (make_timestamp_dirname 64) ?w1 = (x, ?w1)"
    using timestamp_now [of 64 ?w1] by (cases "run_state (make_timestamp_dirname 64) ?w1") auto
  obtain p where p: "Option.bind x (\<lambda>s. join4 root ''.trash'' s rel) = Some p"
    using run san q acc ts q_eq by (auto simp: move_to_trash_def split: option.splits)
  then have p_eq: "p = ?dst"
    using timestamp_now [OF ts] by (auto simp: bind_eq_Some_conv stamped_file_def dest!: join4_Some)
  have c: "run_state (safe_rename_or_copy_unlink ?src ?dst) ?w1 = (0, w')"
    using run san q acc ts p q_eq p_eq by (auto simp: move_to_trash_def split: option.splits)
  obtain ls where ls: "path_key (w_cwd w) ?dst = path_key (w_cwd w) root @ ''.trash'' # ls"
    using key_stamped [OF root _ sanitize_no_dotdot [OF san]] by blast
  have "pkey ?w1 ?src \<noteq> pkey ?w1 ?dst"
    by (simp add: pkey_def ls key_current [OF root san])
  moreover have "Fail EXDEV \<in> set (w_script ?w1) \<Longrightarrow> Fail EXDEV \<in> set (w_script w)" by (cases "w_script w") auto
  moreover have "fs_get (w_fs ?w1) (pkey ?w1 ?src) = Some n0" using fs_find_Inr [OF old] by simp
  ultimately show ?thesis using safe_rename_either [OF c] wf by simp blast
qed

lemma trash_blind:
  assumes "run_state (move_to_trash root rel) w = (0, w')" and "\<not> unscripted w"
  shows "w_fs w' = w_fs w"
proof -
  obtain q where q: "join3 root ''current'' rel = Some q"
    using assms(1) by (auto simp: move_to_trash_def split: if_splits option.splits)
  obtain e where "run_state (sys_access q) w = (Inl e, rest_script w)" using access_scripted [OF assms(2)] by blast
  then have "w' = rest_script w" using assms(1) q by (auto simp: move_to_trash_def split: if_splits)
  then show ?thesis by simp
qed

end

