(* ===== verification/DirLaws.thy ===== *)
theory DirLaws
  imports CopyLaws
begin

text \<open>
  Directory creation: what success of \<open>ensure_dir_exists\<close> tells, and that it succeeds, and
  makes a directory, whenever no file is in the way and no call fails.
\<close>

section \<open>What success tells\<close>

lemma path_key_strip: "path_key c (strip_trailing p) = path_key c p"
proof (induction p rule: strip_trailing.induct)
  case (1 p)
  show ?case
  proof (cases "1 < length p \<and> last p = slash")
    case True
    then obtain q where q: "p = q @ [slash]" by (metis append_butlast_last_id length_0_conv not_one_less_zero)
    moreover have "q \<noteq> []" using True q by auto
    ultimately show ?thesis using 1 True by (simp add: strip_more path_key_dir_slash)
  next
    case False
    then show ?thesis by (simp add: strip_done)
  qed
qed

lemma mkdir_each_append:
  "run_state (mkdir_each (ds @ es)) w =
     (case run_state (mkdir_each ds) w of (r, w1) \<Rightarrow> if r < 0 then (r, w1) else run_state (mkdir_each es) w1)"
  by (induction ds arbitrary: w) (auto split: prod.splits sum.splits)

lemma mkdir_exists:
  assumes run: "run_state (sys_mkdir d m) w = (x, w')" and x: "x = Inr () \<or> x = Inl EEXIST"
    and nf: "Fail EEXIST \<notin> set (w_script w)"
  shows "fs_get (w_fs w') (pkey w d) \<noteq> None"
  using syscall_cases [of "do_mkdir d m" w]
proof
  assume "run_state (syscall (do_mkdir d m)) w = do_mkdir d m (rest_script w)"
  then have "do_mkdir d m (rest_script w) = (x, w')" using run by (simp add: sys_mkdir_def)
  then show ?thesis using x
    by (auto simp: do_mkdir_def parent_check_def split: if_splits sum.splits option.splits)
next
  assume "\<exists>e xs. w_script w = Fail e # xs \<and> run_state (syscall (do_mkdir d m)) w = (Inl e, rest_script w)"
  then show ?thesis using run x nf by (auto simp: sys_mkdir_def)
qed

lemma ensure_dir_exists_sound:
  assumes run: "run_state (ensure_dir_exists p) w = (0, w')" and nf: "Fail EEXIST \<notin> set (w_script w)"
  shows "fs_get (w_fs w') (pkey w p) \<noteq> None"
proof -
  let ?t = "strip_trailing p"
  have "run_state (mkdir_each (dir_prefixes ?t @ [?t])) w = (0, w')"
    using run by (auto simp: ensure_dir_exists_def Let_def split: if_splits)
  then obtain r w1 where r: "run_state (mkdir_each (dir_prefixes ?t)) w = (r, w1)"
    and l: "run_state (mkdir_each [?t]) w1 = (0, w')"
    by (auto simp: mkdir_each_append split: prod.splits if_splits)
  have nf1: "Fail EEXIST \<notin> set (w_script w1)"
    using script_used_no_fail [OF sur.runD [OF sur.each_dir [OF script_used_mkdir] r] nf] .
  have key: "pkey w1 ?t = pkey w p"
    using confined_pkey [OF fcr.runD [OF fcr.each_dir [OF fs_confined_mutators(1)] r]] by (simp add: pkey_def path_key_strip)
  obtain x where "run_state (sys_mkdir ?t 0x1ED) w1 = (x, w')" and "x = Inr () \<or> x = Inl EEXIST"
    using l by (cases "run_state (sys_mkdir ?t 0x1ED) w1") (auto split: sum.splits if_splits)
  from mkdir_exists [OF this nf1] show ?thesis by (simp add: key)
qed

section \<open>When it succeeds\<close>

text \<open>A world in which calls do not fail, with a sound tree and working directory.\<close>

definition calm :: "world \<Rightarrow> bool" where
  "calm w \<longleftrightarrow> w_script w = [] \<and> fs_wf (w_fs w) \<and> is_dir_node (fs_get (w_fs w) (w_cwd w))"

text \<open>The directories that lead to a path, and the path itself.\<close>

definition all_dirs :: "path \<Rightarrow> path list" where
  "all_dirs s = dir_prefixes s @ [s]"

text \<open>Nothing but directories on the way.\<close>

definition clear_way :: "world \<Rightarrow> path \<Rightarrow> bool" where
  "clear_way w p \<longleftrightarrow> list_all (\<lambda>q. fs_get (w_fs w) (pkey w q) = None \<or>
     is_dir_node (fs_get (w_fs w) (pkey w q))) (all_dirs p)"

lemma dir_prefix_iff: "q \<in> set (dir_prefixes p) \<longleftrightarrow> q \<noteq> [] \<and> (\<exists>r. p = q @ slash # r)"
proof
  assume "q \<in> set (dir_prefixes p)"
  then obtain i where i: "i < length p" "1 \<le> i" "p ! i = slash" "q = take i p" by (auto simp: dir_prefixes_def)
  then show "q \<noteq> [] \<and> (\<exists>r. p = q @ slash # r)" by (metis One_nat_def id_take_nth_drop length_greater_0_conv
        length_take less_le_trans min.absorb4 zero_less_one)
next
  assume "q \<noteq> [] \<and> (\<exists>r. p = q @ slash # r)"
  then obtain r where "p = q @ slash # r" "q \<noteq> []" by blast
  then show "q \<in> set (dir_prefixes p)"
    by (force simp: dir_prefixes_def Suc_le_eq intro: image_eqI [of _ _ "length q"])
qed

lemma all_dirs_within: "q \<in> set (all_dirs p) \<Longrightarrow> set (all_dirs q) \<subseteq> set (all_dirs p)"
  by (auto simp: all_dirs_def dir_prefix_iff)

lemma clear_way_within: "clear_way w p \<Longrightarrow> q \<in> set (all_dirs p) \<Longrightarrow> clear_way w q"
  unfolding clear_way_def list_all_iff using all_dirs_within by blast

lemma clear_way_confined: "clear_way w p \<Longrightarrow> fs_confined (w_cwd w) {} w w' \<Longrightarrow> clear_way w' p"
  unfolding clear_way_def fs_confined_def pkey_def list_all_iff by simp metis

lemma dir_prefixes_none: "slash \<notin> set s \<Longrightarrow> dir_prefixes s = []"
  by (auto simp: dir_prefixes_def filter_empty_conv in_set_conv_nth)

lemma dir_prefixes_slash:
  assumes "slash \<notin> set t"
  shows "dir_prefixes (a @ slash # t) = (if a = [] then [] else all_dirs a)"
proof -
  let ?s = "a @ slash # t"
  have up: "[1..<length ?s] = [1..<length a] @ (if a = [] then [] else [length a]) @ [Suc (length a)..<length ?s]"
  proof (cases "a = []")
    case False
    then have "1 \<le> length a" by (cases a) auto
    then have "[1..<length a + Suc (length t)] = [1..<length a] @ [length a..<length a + Suc (length t)]"
      by (rule upt_add_eq_append)
    then have "[1..<length ?s] = [1..<length a] @ [length a..<length ?s]" by simp
    moreover have "[length a..<length ?s] = length a # [Suc (length a)..<length ?s]"
      by (rule upt_conv_Cons) simp
    ultimately show ?thesis using False by (simp only: if_False append.simps)
  qed simp
  have f1: "filter (\<lambda>i. ?s ! i = slash) [1..<length a] = filter (\<lambda>i. a ! i = slash) [1..<length a]"
    by (rule filter_cong) (auto simp: nth_append)
  have f3: "filter (\<lambda>i. ?s ! i = slash) [Suc (length a)..<length ?s] = []"
    using assms by (auto simp: filter_empty_conv nth_append nth_Cons' in_set_conv_nth)
  have m: "map (\<lambda>i. take i ?s) (filter (\<lambda>i. a ! i = slash) [1..<length a]) = dir_prefixes a"
    by (auto simp: dir_prefixes_def)
  show ?thesis
    unfolding dir_prefixes_def [of ?s] up filter_append f1 f3 map_append m
    by (simp add: all_dirs_def dir_prefixes_def)
qed

text \<open>One step: the child of an existing directory.\<close>

lemma mkdir_child:
  assumes calm: "calm w" and par: "is_dir_node (fs_get (w_fs w) k)"
    and key: "pkey w s = push_comp k t" and s: "s \<noteq> []"
    and dotty: "t \<noteq> [] \<Longrightarrow> t \<noteq> ''.'' \<Longrightarrow> t \<noteq> ''..'' \<Longrightarrow> \<not> last_dotty s"
    and free: "fs_get (w_fs w) (pkey w s) = None \<or> is_dir_node (fs_get (w_fs w) (pkey w s))"
  shows "\<exists>w'. run_state (mkdir_each [s]) w = (0, w') \<and> calm w' \<and> fs_confined (w_cwd w) {} w w' \<and>
    is_dir_node (fs_get (w_fs w') (pkey w s))"
proof -
  have wf: "fs_wf (w_fs w)" and sc: "w_script w = []" using calm by (auto simp: calm_def)
  have run: "run_state (sys_mkdir s 0x1ED) w = do_mkdir s 0x1ED w"
    by (simp add: sys_mkdir_def run_syscall sc)
  show ?thesis
  proof (cases "fs_get (w_fs w) (pkey w s)")
    case (Some n)
    then have "run_state (mkdir_each [s]) w = (0, w)" using run s by (simp add: do_mkdir_def)
    then show ?thesis using free Some calm fcr.refl by auto
  next
    case None
    have t: "t \<noteq> [] \<and> t \<noteq> ''.'' \<and> t \<noteq> ''..''"
    proof (rule ccontr)
      assume "\<not> ?thesis"
      then have "pkey w s = k \<or> pkey w s = butlast k" by (auto simp: key push_comp.simps)
      moreover have "fs_get (w_fs w) (butlast k) \<noteq> None"
        using is_dir_node_exists [OF par] fs_wf_parent [OF wf, of k]
        by (cases "k = []") (auto dest: is_dir_node_exists)
      ultimately show False using None par by auto
    qed
    then have k: "pkey w s = k @ [t]" by (simp add: key push_comp.simps)
    let ?w = "w\<lparr>w_fs := fs_put (pkey w s) (Dir (creation_perm w 0x1ED) (w_time w)) (w_fs w)\<rparr>"
    have "parent_check w s = Inr ()" using par k by (auto simp: parent_check_def elim: is_dir_nodeE)
    then have mk: "do_mkdir s 0x1ED w = (Inr (), ?w)" using s t dotty None by (simp add: do_mkdir_def)
    then have "run_state (mkdir_each [s]) w = (0, ?w)" using run by simp
    moreover have "fs_wf (w_fs ?w)" using wf par k by (auto intro!: fs_wf_put)
    then have "calm ?w" using calm sc by (auto simp: calm_def)
    moreover have "fs_confined (w_cwd w) {} w ?w" using None by (auto simp: fs_confined_def)
    ultimately show ?thesis by auto
  qed
qed

lemma last_dotty_tail:
  assumes "slash \<notin> set t" "t \<noteq> []" "t \<noteq> ''.''" "t \<noteq> ''..''"
  shows "\<not> last_dotty t" and "\<not> last_dotty (a @ slash # t)"
  using assms by (simp_all add: last_dotty_def split_on_single split_on_append)

lemma mkdirs_succeed:
  "s \<noteq> [] \<Longrightarrow> calm w \<Longrightarrow> clear_way w s \<Longrightarrow>
   \<exists>w'. run_state (mkdir_each (all_dirs s)) w = (0, w') \<and> calm w' \<and> fs_confined (w_cwd w) {} w w' \<and>
     (\<forall>q \<in> set (all_dirs s). is_dir_node (fs_get (w_fs w') (pkey w q)))"
proof (induction "length s" arbitrary: s w rule: less_induct)
  case less
  have wf: "fs_wf (w_fs w)" using less.prems by (simp add: calm_def)
  have free: "fs_get (w_fs w) (pkey w s) = None \<or> is_dir_node (fs_get (w_fs w) (pkey w s))"
    using less.prems by (auto simp: clear_way_def all_dirs_def)
  show ?case
  proof (cases "slash \<in> set s")
    case False
    have "hd s \<noteq> slash" using False less.prems(1) by (metis hd_in_set)
    then have "pkey w s = push_comp (w_cwd w) s"
      using False by (simp add: pkey_def path_key_def split_on_single)
    moreover have "all_dirs s = [s]" using False by (simp add: all_dirs_def dir_prefixes_none)
    ultimately show ?thesis
      using mkdir_child [OF less.prems(2) _ _ less.prems(1), of "w_cwd w" s] less.prems(2) free
        last_dotty_tail(1) [OF False]
      by (auto simp: calm_def)
  next
    case True
    then obtain a t where s: "s = a @ slash # t" and t: "slash \<notin> set t"
      by (metis split_list_last)
    show ?thesis
    proof (cases "a = []")
      case True
      have "pkey w s = push_comp [] t"
        using True s t by (simp add: pkey_def path_key_def Let_def split_on_single push_comp.simps)
      moreover have "all_dirs s = [s]" using True dir_prefixes_slash [OF t, of a] s by (simp add: all_dirs_def)
      moreover have "t \<noteq> [] \<Longrightarrow> t \<noteq> ''.'' \<Longrightarrow> t \<noteq> ''..'' \<Longrightarrow> \<not> last_dotty s"
        unfolding s by (rule last_dotty_tail(2) [OF t])
      ultimately show ?thesis
        using mkdir_child [OF less.prems(2) fs_wf_root [OF wf] _ less.prems(1), of t] free by simp
    next
      case False
      have "a \<in> set (all_dirs s)" using False by (auto simp: s all_dirs_def dir_prefix_iff)
      with less.hyps [of a w] less.prems(2) clear_way_within [OF less.prems(3)] False s
      obtain w1 where w1: "run_state (mkdir_each (all_dirs a)) w = (0, w1)" "calm w1"
        "fs_confined (w_cwd w) {} w w1" "\<forall>q \<in> set (all_dirs a). is_dir_node (fs_get (w_fs w1) (pkey w q))" by auto
      have key1: "pkey w1 q = pkey w q" for q by (rule confined_pkey [OF w1(3)])
      have da: "is_dir_node (fs_get (w_fs w1) (pkey w a))" using w1(4) by (simp add: all_dirs_def)
      have "pkey w1 s = push_comp (pkey w a) t"
        using False t unfolding key1 s by (simp add: pkey_def path_key_append_slash split_on_single)
      moreover have "t \<noteq> [] \<Longrightarrow> t \<noteq> ''.'' \<Longrightarrow> t \<noteq> ''..'' \<Longrightarrow> \<not> last_dotty s"
        unfolding s by (rule last_dotty_tail(2) [OF t])
      moreover have "fs_get (w_fs w1) (pkey w1 s) = None \<or> is_dir_node (fs_get (w_fs w1) (pkey w1 s))"
        using clear_way_confined [OF less.prems(3) w1(3)] by (simp add: clear_way_def all_dirs_def)
      ultimately obtain w2 where w2: "run_state (mkdir_each [s]) w1 = (0, w2)" "calm w2"
        "fs_confined (w_cwd w1) {} w1 w2" "is_dir_node (fs_get (w_fs w2) (pkey w1 s))"
        using mkdir_child [OF w1(2) da _ less.prems(1), of t] by blast
      have ad: "all_dirs s = all_dirs a @ [s]"
        using False dir_prefixes_slash [OF t, of a] s by (simp add: all_dirs_def)
      then have "run_state (mkdir_each (all_dirs s)) w = (0, w2)"
        using w1(1) w2(1) by (simp add: mkdir_each_append)
      moreover have "fs_confined (w_cwd w) {} w w2"
        using w1(3) w2(3) confined_cwd [OF w1(3)] by (metis fs_confined_trans)
      moreover have "is_dir_node (fs_get (w_fs w2) (pkey w q))" if "q \<in> set (all_dirs a)" for q
        using w1(4) that confined_keeps [OF w2(3), of "pkey w q"] by (metis empty_iff is_dir_node_exists)
      ultimately show ?thesis using w2 key1 ad by auto
    qed
  qed
qed

lemma strip_dirs:
  "q \<in> set (all_dirs p) \<Longrightarrow> \<exists>q' \<in> set (all_dirs (strip_trailing p)). path_key c q' = path_key c q"
proof (induction p arbitrary: q rule: strip_trailing.induct)
  case (1 p)
  show ?case
  proof (cases "1 < length p \<and> last p = slash")
    case True
    then obtain p' where p': "p = p' @ [slash]" by (metis append_butlast_last_id length_0_conv not_one_less_zero)
    then have ne: "p' \<noteq> []" using True by auto
    have "q \<in> set (all_dirs p') \<or> q = p"
      using "1.prems" dir_prefixes_slash [of "[]" p'] ne by (auto simp: p' all_dirs_def)
    moreover have "path_key c p = path_key c p'" "p' \<in> set (all_dirs p')"
      using ne by (simp_all add: p' path_key_dir_slash all_dirs_def)
    ultimately obtain q1 where "q1 \<in> set (all_dirs p')" "path_key c q1 = path_key c q" by auto
    moreover have "strip_trailing p = strip_trailing (butlast p)" "butlast p = p'"
      using strip_more [OF True] p' by simp_all
    ultimately show ?thesis using "1.IH" [OF True, of q1] by simp
  qed (auto simp: strip_done intro: "1.prems")
qed

text \<open>Directories are made only at the paths given.\<close>

lemma mkdir_each_same: "path_key c ` set ds \<subseteq> S \<Longrightarrow> state_io_rel (fs_same c S) (mkdir_each ds)"
  by (rule fsr.each_dir) (auto intro: fs_same_mutators(1))

lemma strip_all_dirs: "set (all_dirs (strip_trailing p)) \<subseteq> set (all_dirs p)"
proof (induction p rule: strip_trailing.induct)
  case (1 p)
  show ?case
  proof (cases "1 < length p \<and> last p = slash")
    case True
    then have "p = butlast p @ [slash]" "butlast p \<noteq> []"
      by (metis append_butlast_last_id length_0_conv not_one_less_zero) (use True in \<open>cases p; auto\<close>)
    then have "butlast p \<in> set (all_dirs p)" by (auto simp: all_dirs_def dir_prefix_iff)
    from all_dirs_within [OF this] show ?thesis using "1.IH" [OF True] True by (simp add: strip_more)
  qed (simp add: strip_done)
qed

lemma ensure_dir_succeeds:
  assumes "p \<noteq> []" and "length p < MAX_PATH_LEN" and "calm w" and "clear_way w p"
  obtains w' where "run_state (ensure_dir_exists p) w = (0, w')" "calm w'"
    "fs_confined (w_cwd w) {} w w'" "\<forall>q \<in> set (all_dirs p). is_dir_node (fs_get (w_fs w') (pkey w q))"
    "fs_same (w_cwd w) (pkey w ` set (all_dirs p)) w w'"
proof -
  let ?t = "strip_trailing p"
  have "p \<in> set (all_dirs p)" by (simp add: all_dirs_def)
  have "?t \<in> set (all_dirs p)" using strip_all_dirs [of p] by (auto simp: all_dirs_def)
  then have "clear_way w ?t" by (rule clear_way_within [OF assms(4)])
  with mkdirs_succeed [OF strip_nonempty [OF assms(1)] assms(3)]
  obtain w' where w': "run_state (mkdir_each (all_dirs ?t)) w = (0, w')" "calm w'"
    "fs_confined (w_cwd w) {} w w'" "\<forall>q \<in> set (all_dirs ?t). is_dir_node (fs_get (w_fs w') (pkey w q))" by blast
  have "\<forall>q \<in> set (all_dirs p). is_dir_node (fs_get (w_fs w') (pkey w q))"
    using w'(4) strip_dirs [of _ p "w_cwd w"] by (metis pkey_def)
  moreover have "fs_same (w_cwd w) (pkey w ` set (all_dirs p)) w w'"
    using strip_all_dirs [of p] by (intro fsr.runD [OF mkdir_each_same w'(1)]) (auto simp: pkey_def)
  moreover have "run_state (ensure_dir_exists p) w = (0, w')"
    using assms w'(1) by (simp add: ensure_dir_exists_def snprintf_s_def all_dirs_def Let_def)
  ultimately show thesis using that w'(2,3) by blast
qed

lemma dir_prefix_above:
  assumes "''..'' \<notin> set (split_on slash p)" and "q \<in> set (dir_prefixes p)"
  shows "prefix (path_key c q) (path_key c p)"
proof -
  obtain r where r: "p = q @ slash # r" "q \<noteq> []" using assms(2) by (auto simp: dir_prefix_iff)
  then have "''..'' \<notin> set (split_on slash r)" using assms(1) by (auto simp: split_on_append)
  then show ?thesis using r by (simp add: path_key_append_slash foldl_push_plain)
qed

section \<open>When everything exists already\<close>

lemma mkdir_each_exist:
  "w_script w = [] \<Longrightarrow> \<forall>d \<in> set ds. d \<noteq> [] \<and> fs_get (w_fs w) (pkey w d) \<noteq> None \<Longrightarrow>
   run_state (mkdir_each ds) w = (0, w)"
  by (induction ds) (auto simp: sys_mkdir_def run_syscall do_mkdir_def)

lemma ensure_dir_exist:
  assumes "length p < MAX_PATH_LEN" and "''..'' \<notin> set (split_on slash p)" and "fs_wf (w_fs w)"
    and "w_script w = []" and "fs_find w p = Inr n"
  shows "run_state (ensure_dir_exists p) w = (0, w)"
proof -
  have p: "p \<noteq> []" "fs_get (w_fs w) (pkey w p) = Some n"
    using assms(5) fs_find_Inr [OF assms(5)] by (auto simp: fs_find_def)
  have "q \<noteq> [] \<and> fs_get (w_fs w) (pkey w q) \<noteq> None" if q: "q \<in> set (all_dirs p)" for q
  proof (cases "q = p")
    case False
    then have d: "q \<in> set (dir_prefixes p)" using q by (simp add: all_dirs_def)
    obtain z where z: "pkey w p = pkey w q @ z"
      using dir_prefix_above [OF assms(2) d, of "w_cwd w"] by (auto simp: pkey_def prefix_def)
    have "fs_get (w_fs w) (pkey w q) \<noteq> None"
    proof (cases "z = []")
      case ne: False
      have "fs_get (w_fs w) (pkey w q @ z) \<noteq> None" using p(2) z by simp
      from fs_wf_ancestor [OF assms(3) this ne] show ?thesis by (auto elim: is_dir_nodeE)
    next
      case True
      then show ?thesis using p(2) z by simp
    qed
    moreover have "q \<noteq> []" using d by (simp add: dir_prefix_iff)
    ultimately show ?thesis by simp
  next
    case True
    then show ?thesis using p by simp
  qed
  then have "run_state (mkdir_each (all_dirs (strip_trailing p))) w = (0, w)"
    using strip_all_dirs [of p] by (intro mkdir_each_exist [OF assms(4)]) blast
  then show ?thesis using p(1) assms(1) by (simp add: ensure_dir_exists_def snprintf_s_def all_dirs_def Let_def)
qed

end
