(* ===== verification/Samples.thy ===== *)
theory Samples
  imports Posix "HOL-Library.Code_Target_Nat"
begin

text \<open>
  A small concrete world, on which the witnesses of the properties evaluate the model: a backup
  root \<open>b\<close> holding one file in a directory, a source tree \<open>s\<close>, and a clock.
\<close>

definition sample_tm :: tm where
  "sample_tm = \<lparr>tm_year = 2024, tm_mon = 5, tm_mday = 7, tm_hour = 9, tm_min = 8, tm_sec = 30\<rparr>"

definition sample_tree :: fstree where
  "sample_tree =
     [([], Dir 0x1ED 1), ([''b''], Dir 0x1ED 1), ([''b'', ''current''], Dir 0x1ED 1),
      ([''b'', ''current'', ''d''], Dir 0x1ED 1),
      ([''b'', ''current'', ''d'', ''f''], Reg ''old'' 0x1A4 5),
      ([''s''], Dir 0x1ED 1), ([''s'', ''d''], Dir 0x1ED 1),
      ([''s'', ''d'', ''f''], Reg ''new!'' 0x180 6)]"

definition sample_world :: world where
  "sample_world = \<lparr>w_fs = sample_tree, w_cwd = [], w_umask = 0x12, w_script = [], w_time = 9,
     w_localtime = (\<lambda>_. sample_tm), w_mono = (4, 0), w_rx = (\<lambda>_. []), w_tx = (\<lambda>_. []),
     w_log = [], w_pid = 77\<rparr>"

text \<open>The same world with disturbances ahead: interrupted and short transfers.\<close>

definition bumpy_world :: world where
  "bumpy_world = sample_world\<lparr>w_script := [Go, Go, Go, Short 2, Fail EINTR, Go]\<rparr>"

end
