(* ===== verification/FileProperties.thy ===== *)
theory FileProperties
  imports BackupLaws DirLaws Samples
begin

text \<open>
  Properties of \<^verbatim>\<open>src/hash.c\<close> and \<^verbatim>\<open>src/file_utils.c\<close>, with their witnesses on the sample
  world.
\<close>

section \<open>Helper lemmas\<close>

lemma strip_trailing_split:
  "\<exists>j. s = strip_trailing s @ replicate j slash \<and>
     (length (strip_trailing s) \<le> 1 \<or> last (strip_trailing s) \<noteq> slash)"
proof (induction s rule: strip_trailing.induct)
  case (1 s)
  show ?case
  proof (cases "1 < length s \<and> last s = slash")
    case True
    with 1 obtain j where j: "butlast s = strip_trailing (butlast s) @ replicate j slash"
      "length (strip_trailing (butlast s)) \<le> 1 \<or> last (strip_trailing (butlast s)) \<noteq> slash" by blast
    have "s = butlast s @ [slash]" using True by (metis append_butlast_last_id length_0_conv not_one_less_zero)
    with j(1) have "s = strip_trailing (butlast s) @ replicate (Suc j) slash"
      by (metis append.assoc replicate_append_same replicate_Suc)
    with j(2) strip_more [OF True] show ?thesis by metis
  next
    case False
    have "s = s @ replicate 0 slash" by simp
    moreover have "length s \<le> 1 \<or> last s \<noteq> slash" using False by auto
    ultimately show ?thesis unfolding strip_done [OF False] by blast
  qed
qed

lemma get_relative_joined:
  assumes root: "root \<noteq> []" "length root \<le> Suc (length (strip_trailing root))"
    and rel: "rel \<noteq> []" "hd rel \<noteq> slash" and fits: "length rel < n"
  shows "get_relative_path out n root (joined root rel) = (sanitize_rel_path rel, rel)"
proof -
  let ?r = "strip_trailing root"
  obtain j where j: "root = ?r @ replicate j slash"
    and l: "length ?r \<le> 1 \<or> last ?r \<noteq> slash"
    using strip_trailing_split by blast
  have j1: "j \<le> 1" using root(2) arg_cong [OF j, of length] by simp
  note hd = rel
  then have drop: "dropWhile (\<lambda>c. c = slash) rel = rel" by (cases rel) auto
  have r: "?r \<noteq> []" by (rule strip_nonempty [OF root(1)])
  have "\<exists>x. joined root rel = ?r @ x \<and> (x = rel \<or> x = slash # rel)"
  proof (cases "last root = slash")
    case True
    then have "joined root rel = root @ rel" using root drop by (simp add: joined_def)
    moreover have "j = 0 \<or> j = 1" using j1 by auto
    ultimately show ?thesis using j by (elim disjE) (metis append_Nil2 replicate_0, metis
          append.assoc append_Cons append_Nil replicate_0 replicate_Suc One_nat_def)
  next
    case False
    have "j \<noteq> 1"
    proof
      assume "j = 1"
      then have "replicate j slash = [slash]" by simp
      with j have "last root = slash" by (metis last_snoc)
      with False show False ..
    qed
    then have "j = 0" using j1 by simp
    then show ?thesis using j False drop root by (simp add: joined_def)
  qed
  then obtain x where x: "joined root rel = ?r @ x" "x = rel \<or> x = slash # rel" by blast
  have "prefix (take (length ?r) root) (joined root rel)"
    using x j by (metis append_eq_conv_conj prefixI)
  then show ?thesis
    using x hd rel fits by (auto simp: get_relative_path_def Let_def snprintf_s_def)
qed

lemma digit_char_inj: "a < 16 \<Longrightarrow> b < 16 \<Longrightarrow> digit_char a = digit_char b \<Longrightarrow> a = b"
proof -
  assume "a < 16" "b < 16" and e: "digit_char a = digit_char b"
  then have "a \<in> set [0..<16]" "b \<in> set [0..<16]" by simp_all
  moreover have "\<forall>x \<in> set [0..<16]. \<forall>y \<in> set [0..<16]. digit_char x = digit_char y \<longrightarrow> x = y"
    by code_simp
  ultimately show ?thesis using e by blast
qed

lemma nibble_lt: "unat (take_bit 4 (w :: 64 word)) < 16"
proof -
  have "unat (take_bit 4 w) = take_bit 4 (unat w)" by (simp add: unsigned_take_bit_eq)
  then show ?thesis using take_bit_nat_less_exp [of 4 "unat w"] by simp
qed

lemma hex16_inj: "hex16 x = hex16 y \<Longrightarrow> x = y"
proof (rule bit_word_eqI)
  fix n
  assume h: "hex16 x = hex16 y" and n: "n < LENGTH(64)"
  let ?i = "n div 4"
  have i: "?i \<in> set (rev [0..<16])" using n by auto
  have "digit_char (unat (take_bit 4 (drop_bit (4 * ?i) x))) =
      digit_char (unat (take_bit 4 (drop_bit (4 * ?i) y)))"
    using h i unfolding hex16_def by (meson map_eq_conv)
  then have "take_bit 4 (drop_bit (4 * ?i) x) = take_bit 4 (drop_bit (4 * ?i) y)"
    by (meson digit_char_inj nibble_lt unsigned_word_eqI)
  then have "bit (take_bit 4 (drop_bit (4 * ?i) x)) (n mod 4) =
      bit (take_bit 4 (drop_bit (4 * ?i) y)) (n mod 4)" by simp
  moreover have "n mod 4 < 4" by simp
  ultimately show "bit x n = bit y n"
    by (simp only: bit_take_bit_iff bit_drop_bit_eq comp_def simp_thms mult_div_mod_eq)
qed

section \<open>Properties\<close>

text \<open>C22: A relative path that passes \<open>sanitize_rel_path\<close> and is joined to a base directory names
  a place at or below that directory: no check is by-passed by \<open>..\<close>, doubled or leading
  slashes, and the joined string fits its buffer.\<close>

theorem sanitized_join_stays_below:
  assumes "sanitize_rel_path rel = 0" and "base \<noteq> []" and "join_path n base rel = Some q"
  shows "prefix (path_key cwd base) (path_key cwd q) \<and> length q < n"
proof -
  have q: "q = joined base rel" "length q < n" using join_path_Some [OF assms(3)] by blast+
  show ?thesis
    using q path_key_joined [OF assms(2) sanitize_no_dotdot [OF assms(1)]] by simp
qed

lemma sanitized_join_stays_below_witness:
  "prefix (path_key [''h''] ''../b'') (path_key [''h''] ''../b/d/./f'') \<and> length ''../b/d/./f'' < 512"
proof (rule sanitized_join_stays_below)
  show "sanitize_rel_path ''d/./f'' = 0" by code_simp
  show "join_path 512 ''../b'' ''d/./f'' = Some ''../b/d/./f''" by code_simp
qed simp

text \<open>C21: The copy through a temporary file is atomic for every script of interrupted, short and
  failing calls: it returns 0 only with the whole source content in the target. On failure nothing
  that existed has changed but the temporary file; only when the script has an \<open>EXDEV\<close>, so that
  the rename may have fallen back to copying over the target in place, the target itself may have
  changed as well.\<close>

theorem copy_file_atomic_all_or_nothing:
  assumes "run_state (copy_file_atomic src dst) w = (r, w')" and "fs_wf (w_fs w)" and "dst \<noteq> []"
    and "pkey w src \<noteq> pkey w (dst @ ''.syncing'')"
  shows "r = 0 \<and> (\<exists>s ms ts m t. fs_get (w_fs w) (pkey w src) = Some (Reg s ms ts) \<and>
       fs_get (w_fs w') (pkey w dst) = Some (Reg s m t)) \<or>
     r = - 1 \<and> fs_confined (w_cwd w) (below (pkey w (dst @ ''.syncing'')) \<union>
       (if Fail EXDEV \<in> set (w_script w) then below (pkey w dst) else {})) w w'"
proof (cases "r = 0")
  case True
  then show ?thesis using copy_atomic_success [OF _ assms(2) assms(4,3)] assms(1) by auto
next
  case False
  have "fs_confined (w_cwd w) (below (pkey w (dst @ ''.syncing'')) \<union> below (pkey w dst)) w w'"
    by (intro fcr.runD [OF fcf.copy_atomic assms(1)]) (auto simp: pkey_def)
  then show ?thesis
    using False copy_atomic_values [OF assms(1)] copy_atomic_failure [OF assms(1) False] by simp
qed

lemma copy_file_atomic_all_or_nothing_witness:
  "\<exists>r w'. run_state (copy_file_atomic ''s/d/f'' ''b/current/d/f'') bumpy_world = (r, w') \<and>
     (r = 0 \<and> (\<exists>s ms ts m t. fs_get (w_fs bumpy_world) (pkey bumpy_world ''s/d/f'') = Some (Reg s ms ts) \<and>
       fs_get (w_fs w') (pkey bumpy_world ''b/current/d/f'') = Some (Reg s m t)) \<or>
     r = - 1 \<and> fs_confined (w_cwd bumpy_world)
       (below (pkey bumpy_world (''b/current/d/f'' @ ''.syncing''))) bumpy_world w')"
proof -
  obtain r w' where run: "run_state (copy_file_atomic ''s/d/f'' ''b/current/d/f'') bumpy_world = (r, w')"
    by fastforce
  have wf: "fs_wf (w_fs bumpy_world)" by code_simp
  have ne: "pkey bumpy_world ''s/d/f'' \<noteq> pkey bumpy_world (''b/current/d/f'' @ ''.syncing'')" by code_simp
  have nx: "(Fail EXDEV \<in> set (w_script bumpy_world)) = False" by (simp add: bumpy_world_def)
  show ?thesis
    using run copy_file_atomic_all_or_nothing [OF run wf list.distinct(2) ne, unfolded nx if_False Un_empty_right]
    by blast
qed

text \<open>C23: Before a file of the backup is overwritten, \<open>backup_old_version\<close> preserves it: when it
  returns 0, the old content is below \<open>.versions\<close> at the same relative path under the current
  time stamp, and the file itself is still in place. The exception is a failure of \<open>access\<close>, the
  first call it makes: the file is then taken to be absent, 0 is returned and nothing has changed,
  so no version has been kept.\<close>

theorem backup_old_version_preserves:
  assumes "run_state (backup_old_version root rel) w = (0, w')" and "fs_wf (w_fs w)" and "root \<noteq> []"
    and "fs_find w (current_file root rel) = Inr (Reg s m t)"
  shows "if unscripted w
    then (\<exists>m t. fs_get (w_fs w') (pkey w (stamped_file ''.versions'' w root rel)) = Some (Reg s m t)) \<and>
      fs_get (w_fs w') (pkey w (current_file root rel)) = Some (Reg s m t)
    else w_fs w' = w_fs w"
  using backup_keeps_old [OF assms(1-3) _ assms(4)] backup_blind [OF assms(1)] by simp

lemma backup_old_version_preserves_witness:
  "let w' = snd (run_state (backup_old_version ''b'' ''d/f'') sample_world) in
   (\<exists>m t. fs_get (w_fs w') (pkey sample_world (stamped_file ''.versions'' sample_world ''b'' ''d/f'')) =
       Some (Reg ''old'' m t)) \<and>
   fs_get (w_fs w') (pkey sample_world (current_file ''b'' ''d/f'')) = Some (Reg ''old'' 0x1A4 5)"
proof -
  let ?r = "run_state (backup_old_version ''b'' ''d/f'') sample_world"
  have z: "fst ?r = 0" by code_simp
  have "?r = (0, snd ?r)" by (rule prod_eqI) (simp_all only: z fst_conv snd_conv)
  moreover have "fs_wf (w_fs sample_world)" and "unscripted sample_world"
    and "fs_find sample_world (current_file ''b'' ''d/f'') = Inr (Reg ''old'' 0x1A4 5)" by code_simp+
  ultimately show ?thesis
    unfolding Let_def using backup_old_version_preserves [of "''b''" "''d/f''" sample_world "snd ?r"] by simp
qed

text \<open>C24: A deletion destroys nothing: when \<open>move_to_trash\<close> returns 0 for an existing file or
  directory of the backup, every node of its subtree is found at the same place below
  \<open>.trash\<close> and the time stamp, with its content, mode and time, and nothing is left at the old
  place. There are two exceptions. If a call fails with \<open>EXDEV\<close>, a file may have been copied instead
  of moved: its content is then in the trash, but under the mode and the time of the copy. If
  \<open>access\<close>, the first call, fails, the file is taken to be absent: 0 is returned and nothing has
  changed.\<close>

theorem move_to_trash_preserves:
  assumes "run_state (move_to_trash root rel) w = (0, w')" and "fs_wf (w_fs w)" and "root \<noteq> []"
    and "fs_find w (current_file root rel) = Inr n0"
  shows "if unscripted w
    then (\<forall>z n. fs_get (w_fs w) (pkey w (current_file root rel) @ z) = Some n \<longrightarrow>
        fs_get (w_fs w') (pkey w (stamped_file ''.trash'' w root rel) @ z) = Some n) \<and>
        (\<forall>z. fs_get (w_fs w') (pkey w (current_file root rel) @ z) = None) \<or>
      Fail EXDEV \<in> set (w_script w) \<and> (\<exists>s m t m' t'. n0 = Reg s m t \<and>
        fs_get (w_fs w') (pkey w (stamped_file ''.trash'' w root rel)) = Some (Reg s m' t') \<and>
        fs_get (w_fs w') (pkey w (current_file root rel)) = None)
    else w_fs w' = w_fs w"
  using trash_keeps_all [OF assms(1-3) _ assms(4)] trash_blind [OF assms(1)] by simp

lemma move_to_trash_preserves_witness:
  "let w' = snd (run_state (move_to_trash ''b'' ''d'') sample_world) in
   (\<forall>z n. fs_get (w_fs sample_world) (pkey sample_world (current_file ''b'' ''d'') @ z) = Some n \<longrightarrow>
      fs_get (w_fs w') (pkey sample_world (stamped_file ''.trash'' sample_world ''b'' ''d'') @ z) = Some n) \<and>
   (\<forall>z. fs_get (w_fs w') (pkey sample_world (current_file ''b'' ''d'') @ z) = None)"
proof -
  let ?r = "run_state (move_to_trash ''b'' ''d'') sample_world"
  have z: "fst ?r = 0" by code_simp
  have "?r = (0, snd ?r)" by (rule prod_eqI) (simp_all only: z fst_conv snd_conv)
  moreover have "fs_wf (w_fs sample_world)" and "unscripted sample_world"
    and "fs_find sample_world (current_file ''b'' ''d'') = Inr (Dir 0x1ED 1)" by code_simp+
  moreover have "(Fail EXDEV \<in> set (w_script sample_world)) = False" by (simp add: sample_world_def)
  ultimately show ?thesis
    unfolding Let_def using move_to_trash_preserves [of "''b''" "''d''" sample_world "snd ?r"] by simp
qed

text \<open>Versions and trash stay in the backup area: whatever the relative path and whatever
  fails, nothing outside \<open>current\<close>, \<open>.versions\<close> and \<open>.trash\<close> of the root changes, except that
  missing directories may be made.\<close>

lemma backup_and_trash_confined:
  "fs_confined (w_cwd w) (backup_area (w_cwd w) root) w (snd (run_state (backup_old_version root rel) w)) \<and>
   fs_confined (w_cwd w) (backup_area (w_cwd w) root) w (snd (run_state (move_to_trash root rel) w))"
  using backup_version_confined to_trash_confined by (simp add: state_io_rel_def)

text \<open>C25: Hashing a file is independent of how its reads are cut and interrupted: under any script
  of short transfers and interruptions the result is the FNV-1a hash of the bytes of the file.\<close>

theorem hash_file_chunking:
  assumes "benign w" and "unscripted w" and "fs_find w p = Inr (Reg b m t)"
  shows "fst (run_state (hash_file_fnv1a p) w) = hash_buffer_fnv1a b"
  using assms by (intro hash_file_benign) (auto simp: unscripted_def)

lemma hash_file_chunking_witness:
  "fst (run_state (hash_file_fnv1a ''s/d/f'') bumpy_world) = hash_buffer_fnv1a ''new!''"
proof (rule hash_file_chunking)
  show "benign bumpy_world" by (auto simp: benign_def bumpy_world_def)
  show "unscripted bumpy_world" and "fs_find bumpy_world ''s/d/f'' = Inr (Reg ''new!'' 0x180 6)"
    by code_simp+
qed

text \<open>C26: Whatever fails, a non-zero file hash is the hash of the content of a regular file, and
  hashing changes nothing.\<close>

theorem hash_file_never_wrong:
  assumes "run_state (hash_file_fnv1a p) w = (h, w')"
  shows "(h = 0 \<or> is_reg_node (fs_get (w_fs w) (pkey w p)) \<and> h = hash_buffer_fnv1a (file_bytes w p)) \<and>
    w_fs w' = w_fs w"
  using hash_file_sound [OF assms] quiet_simps(1) [OF hash_file_world [OF assms]] by simp

lemma hash_file_never_wrong_witness:
  "\<exists>h w'. run_state (hash_file_fnv1a ''s/d/f'') bumpy_world = (h, w') \<and>
   (h = 0 \<or> is_reg_node (fs_get (w_fs bumpy_world) (pkey bumpy_world ''s/d/f'')) \<and>
      h = hash_buffer_fnv1a (file_bytes bumpy_world ''s/d/f'')) \<and> w_fs w' = w_fs bumpy_world"
proof -
  obtain h w' where run: "run_state (hash_file_fnv1a ''s/d/f'') bumpy_world = (h, w')"
    by (rule prod.exhaust)
  then show ?thesis using hash_file_never_wrong [OF run] by blast
qed

text \<open>The hexadecimal form of a hash has sixteen digits and determines the hash.\<close>

lemma hash_to_hex_faithful:
  "length (hash_to_hex h) = 16 \<and> (hash_to_hex h = hash_to_hex h' \<longleftrightarrow> h = h')"
  by (auto simp: hash_to_hex_def snprintf_s_def dest: hex16_inj)

text \<open>C31: \<open>get_relative_path\<close> undoes \<open>join_path\<close>: for a root that ends in at most one slash, the
  path of a checked relative name below it is read back as that name.\<close>

theorem relative_path_roundtrip:
  assumes "root \<noteq> []" and "length root \<le> Suc (length (strip_trailing root))"
    and "sanitize_rel_path rel = 0" and "length rel < n"
  shows "get_relative_path out n root (joined root rel) = (0, rel)"
proof -
  have "rel \<noteq> []" "hd rel \<noteq> slash" using assms(3) by (auto simp: sanitize_iff)
  from get_relative_joined [OF assms(1,2) this assms(4)] show ?thesis using assms(3) by simp
qed

lemma relative_path_roundtrip_witness:
  "get_relative_path [] 512 ''./src/'' (joined ''./src/'' ''d/f'') = (0, ''d/f'')"
  by (rule relative_path_roundtrip) code_simp+

text \<open>C35: \<open>ensure_dir_exists\<close> succeeds, and the path is then a directory, whenever it fits the
  buffer, no call fails and no file is in the way; only directories have been added.\<close>

theorem ensure_dir_exists_complete:
  assumes "p \<noteq> []" and "length p < MAX_PATH_LEN" and "calm w" and "clear_way w p"
  shows "\<exists>w'. run_state (ensure_dir_exists p) w = (0, w') \<and> is_dir_node (fs_get (w_fs w') (pkey w p)) \<and>
    fs_confined (w_cwd w) {} w w'"
  by (rule ensure_dir_succeeds [OF assms]) (auto simp: all_dirs_def)

lemma ensure_dir_exists_complete_witness:
  "\<exists>w'. run_state (ensure_dir_exists ''b/x/y'') sample_world = (0, w') \<and>
    is_dir_node (fs_get (w_fs w') (pkey sample_world ''b/x/y'')) \<and>
    fs_confined (w_cwd sample_world) {} sample_world w'"
proof (rule ensure_dir_exists_complete)
  show "calm sample_world" unfolding calm_def by code_simp
  show "clear_way sample_world ''b/x/y''" by code_simp
qed simp_all

text \<open>C36: Success of \<open>ensure_dir_exists\<close> only tells that something exists at the path: for every
  path that leads to a regular file, fits the buffer and has no \<open>..\<close>, it returns 0 when no call
  fails, and changes nothing, so that the path still is a file.\<close>

theorem ensure_dir_exists_accepts_file:
  assumes "fs_find w p = Inr (Reg b m t)" and "length p < MAX_PATH_LEN" and "''..'' \<notin> set (split_on slash p)"
    and "fs_wf (w_fs w)" and "w_script w = []"
  shows "run_state (ensure_dir_exists p) w = (0, w)"
  by (rule ensure_dir_exist [OF assms(2-5,1)])

lemma ensure_dir_exists_accepts_file_witness:
  "run_state (ensure_dir_exists ''b/current/d/f'') sample_world = (0, sample_world)"
proof (rule ensure_dir_exists_accepts_file)
  show "fs_find sample_world ''b/current/d/f'' = Inr (Reg ''old'' 0x1A4 5)" by code_simp
  show "''..'' \<notin> set (split_on slash ''b/current/d/f'')" by code_simp
  show "fs_wf (w_fs sample_world)" by code_simp
qed (simp_all add: sample_world_def)

end
