(* ===== verification/Slots.thy ===== *)
theory Slots
  imports Main
begin

text \<open>
  Fixed arrays of records with a \<open>used\<close> flag, searched by a key: the scheme of the table of
  pending tasks and of the table of file snapshots. The locale \<open>slot_table\<close> proves once what
  searching, storing and clearing do to the map from keys to used records.
\<close>

text \<open>The first index whose element satisfies \<open>P\<close>.\<close>

fun index_of :: "('a \<Rightarrow> bool) \<Rightarrow> 'a list \<Rightarrow> nat option" where
  "index_of P [] = None"
| "index_of P (x # xs) = (if P x then Some 0 else map_option Suc (index_of P xs))"

lemma index_of_None: "index_of P xs = None \<longleftrightarrow> (\<forall>x \<in> set xs. \<not> P x)"
  by (induction xs) auto

lemma index_of_Some: "index_of P xs = Some i \<Longrightarrow> i < length xs \<and> P (xs ! i)"
  by (induction xs arbitrary: i) (auto split: if_splits)

lemma index_of_first: "index_of P xs = Some i \<Longrightarrow> j < i \<Longrightarrow> \<not> P (xs ! j)"
proof (induction xs arbitrary: i j)
  case (Cons x xs)
  then show ?case by (cases j) (auto split: if_splits)
qed simp

definition slot_lookup :: "('a \<Rightarrow> bool) \<Rightarrow> ('a \<Rightarrow> 'k) \<Rightarrow> 'a list \<Rightarrow> 'k \<Rightarrow> 'a option" where
  "slot_lookup used key xs k = List.find (\<lambda>x. used x \<and> key x = k) xs"

text \<open>Where a record with this key goes: over the old one, else into the first free slot.\<close>

definition slot_for :: "('a \<Rightarrow> bool) \<Rightarrow> ('a \<Rightarrow> 'k) \<Rightarrow> 'a list \<Rightarrow> 'k \<Rightarrow> nat option" where
  "slot_for used key xs k =
     (case index_of (\<lambda>x. used x \<and> key x = k) xs of
        Some i \<Rightarrow> Some i
      | None \<Rightarrow> index_of (\<lambda>x. \<not> used x) xs)"

locale slot_table =
  fixes used :: "'a \<Rightarrow> bool" and key :: "'a \<Rightarrow> 'k" and empty_slot :: 'a
  assumes empty_unused: "\<not> used empty_slot"
begin

text \<open>No key has two used slots.\<close>

definition unique :: "'a list \<Rightarrow> bool" where
  "unique xs \<longleftrightarrow> (\<forall>i < length xs. \<forall>j < length xs.
     used (xs ! i) \<longrightarrow> used (xs ! j) \<longrightarrow> key (xs ! i) = key (xs ! j) \<longrightarrow> i = j)"

lemma lookup_Some: "slot_lookup used key xs k = Some x \<Longrightarrow> x \<in> set xs \<and> used x \<and> key x = k"
  by (auto simp: slot_lookup_def find_Some_iff)

lemma lookup_None: "slot_lookup used key xs k = None \<longleftrightarrow> (\<forall>x \<in> set xs. used x \<longrightarrow> key x \<noteq> k)"
  by (auto simp: slot_lookup_def find_None_iff)

lemma lookup_nth:
  assumes "unique xs" and "i < length xs" and "used (xs ! i)"
  shows "slot_lookup used key xs (key (xs ! i)) = Some (xs ! i)"
proof (cases "slot_lookup used key xs (key (xs ! i))")
  case None
  then show ?thesis using assms(2,3) nth_mem by (auto simp: lookup_None)
next
  case (Some x)
  from lookup_Some [OF this] obtain j where "j < length xs" "xs ! j = x" "used x"
    "key x = key (xs ! i)" by (auto simp: in_set_conv_nth)
  with assms Some show ?thesis by (auto simp: unique_def)
qed

lemma lookup_iff:
  "unique xs \<Longrightarrow> slot_lookup used key xs k = Some x \<longleftrightarrow>
    (\<exists>i < length xs. xs ! i = x \<and> used x \<and> key x = k)"
  using lookup_nth lookup_Some by (metis in_set_conv_nth)

text \<open>Replacing the record of a slot.\<close>

lemma unique_update:
  assumes "unique xs" and "i < length xs"
    and "used x \<Longrightarrow> (\<forall>j < length xs. j \<noteq> i \<longrightarrow> used (xs ! j) \<longrightarrow> key (xs ! j) \<noteq> key x)"
  shows "unique (xs[i := x])"
  unfolding unique_def
proof (intro allI impI)
  fix a b
  assume "a < length (xs[i := x])" "b < length (xs[i := x])" "used (xs[i := x] ! a)"
    "used (xs[i := x] ! b)" "key (xs[i := x] ! a) = key (xs[i := x] ! b)"
  then show "a = b"
    using assms by (cases "a = i"; cases "b = i") (auto simp: unique_def)
qed

lemma lookup_update_same:
  "unique (xs[i := x]) \<Longrightarrow> i < length xs \<Longrightarrow> used x \<Longrightarrow>
    slot_lookup used key (xs[i := x]) (key x) = Some x"
  using lookup_nth [of "xs[i := x]" i] by simp

lemma lookup_update_other:
  assumes "unique xs" and "unique (xs[i := x])" and "i < length xs"
    and "used x \<Longrightarrow> key x \<noteq> k" and "used (xs ! i) \<Longrightarrow> key (xs ! i) \<noteq> k"
  shows "slot_lookup used key (xs[i := x]) k = slot_lookup used key xs k"
proof -
  have "slot_lookup used key (xs[i := x]) k = Some y \<longleftrightarrow> slot_lookup used key xs k = Some y" for y
  proof -
    have "(\<exists>j < length xs. xs[i := x] ! j = y \<and> used y \<and> key y = k) \<longleftrightarrow>
      (\<exists>j < length xs. xs ! j = y \<and> used y \<and> key y = k)"
    proof -
      have "(xs[i := x] ! j = y \<and> used y \<and> key y = k) = (xs ! j = y \<and> used y \<and> key y = k)"
        if "j < length xs" for j
        using assms(3-5) that by (cases "j = i") auto
      then show ?thesis by blast
    qed
    then show ?thesis by (simp add: lookup_iff assms(1,2))
  qed
  then show ?thesis by (metis not_None_eq)
qed

lemma store:
  assumes "unique xs" and "slot_for used key xs (key x) = Some i" and "used x"
  shows "unique (xs[i := x])" and "i < length xs"
    and "slot_lookup used key (xs[i := x]) = (slot_lookup used key xs)(key x \<mapsto> x)"
proof -
  have i: "i < length xs \<and> (used (xs ! i) \<longrightarrow> key (xs ! i) = key x)"
    using assms(2) by (auto simp: slot_for_def split: option.splits dest: index_of_Some)
  have no: "\<forall>j < length xs. j \<noteq> i \<longrightarrow> used (xs ! j) \<longrightarrow> key (xs ! j) \<noteq> key x"
  proof (cases "index_of (\<lambda>y. used y \<and> key y = key x) xs")
    case None
    then show ?thesis by (auto simp: index_of_None)
  next
    case (Some j)
    then have "j = i" "used (xs ! i)" using assms(2) index_of_Some [OF Some] by (auto simp: slot_for_def)
    then show ?thesis using assms(1) i by (auto simp: unique_def)
  qed
  show u: "unique (xs[i := x])" using assms(1) i no by (intro unique_update) auto
  show "i < length xs" using i by simp
  show "slot_lookup used key (xs[i := x]) = (slot_lookup used key xs)(key x \<mapsto> x)"
  proof
    fix k
    show "slot_lookup used key (xs[i := x]) k = ((slot_lookup used key xs)(key x \<mapsto> x)) k"
      using lookup_update_same [OF u] lookup_update_other [OF assms(1) u, of k] i assms(3)
      by (cases "k = key x") auto
  qed
qed

text \<open>Storing fails only in a table that is full of other keys.\<close>

lemma full:
  "slot_for used key xs k = None \<longleftrightarrow> (\<forall>x \<in> set xs. used x \<and> key x \<noteq> k)"
proof (cases "index_of (\<lambda>x. used x \<and> key x = k) xs")
  case None
  then have "\<forall>x \<in> set xs. used x \<longrightarrow> key x \<noteq> k" by (auto simp: index_of_None)
  then show ?thesis unfolding slot_for_def None by (auto simp: index_of_None)
next
  case (Some i)
  from index_of_Some [OF this] have "i < length xs" "used (xs ! i)" "key (xs ! i) = k" by auto
  moreover from this have "xs ! i \<in> set xs" by simp
  ultimately show ?thesis using Some by (auto simp: slot_for_def)
qed

lemma clear:
  assumes "unique xs" and "i < length xs" and "used (xs ! i)"
  shows "unique (xs[i := empty_slot])"
    and "slot_lookup used key (xs[i := empty_slot]) = (slot_lookup used key xs)(key (xs ! i) := None)"
proof -
  show u: "unique (xs[i := empty_slot])"
    using assms empty_unused by (intro unique_update) auto
  show "slot_lookup used key (xs[i := empty_slot]) = (slot_lookup used key xs)(key (xs ! i) := None)"
  proof
    fix k
    show "slot_lookup used key (xs[i := empty_slot]) k =
      ((slot_lookup used key xs)(key (xs ! i) := None)) k"
    proof (cases "k = key (xs ! i)")
      case True
      have "used x \<Longrightarrow> x \<in> set (xs[i := empty_slot]) \<Longrightarrow> key x \<noteq> k" for x
        using assms empty_unused True
        by (auto simp: in_set_conv_nth unique_def nth_list_update split: if_splits)
      then show ?thesis using True by (auto simp: lookup_None)
    next
      case False
      then show ?thesis
        using lookup_update_other [OF assms(1) u assms(2), of k] empty_unused by auto
    qed
  qed
qed

lemma unique_Cons:
  "unique (x # xs) \<longleftrightarrow> unique xs \<and> (used x \<longrightarrow> (\<forall>y \<in> set xs. used y \<longrightarrow> key y \<noteq> key x))"
proof
  assume u: "unique (x # xs)"
  have "key y \<noteq> key x" if ux: "used x" and y: "y \<in> set xs" "used y" for y
  proof -
    obtain i where "i < length xs" "xs ! i = y" using y(1) by (auto simp: in_set_conv_nth)
    then show ?thesis using u [unfolded unique_def, rule_format, of "Suc i" 0] ux y by auto
  qed
  moreover have "unique xs" unfolding unique_def
  proof (intro allI impI)
    fix i j assume "i < length xs" "j < length xs" "used (xs ! i)" "used (xs ! j)" "key (xs ! i) = key (xs ! j)"
    then show "i = j" using u [unfolded unique_def, rule_format, of "Suc i" "Suc j"] by simp
  qed
  ultimately show "unique xs \<and> (used x \<longrightarrow> (\<forall>y \<in> set xs. used y \<longrightarrow> key y \<noteq> key x))" by blast
next
  assume "unique xs \<and> (used x \<longrightarrow> (\<forall>y \<in> set xs. used y \<longrightarrow> key y \<noteq> key x))"
  then show "unique (x # xs)" by (auto simp: unique_def nth_Cons split: nat.splits)
qed

lemma used_keys_distinct: "unique xs \<Longrightarrow> distinct (map key (filter (\<lambda>x. used x \<and> P x) xs))"
  by (induction xs) (auto simp: unique_Cons)

lemma unique_replicate: "unique (replicate n empty_slot)"
  using empty_unused by (simp add: unique_def)

end

end
