(* ===== verification/Wire.thy ===== *)
theory Wire
  imports Posix
begin

text \<open>
  The byte images of the records MiniSync sends through pipes and sockets: it writes the C
  structs as they lie in memory (little endian, natural alignment). \<open>sync_header\<close> is
  \<open>SyncHeader\<close> of \<^verbatim>\<open>include/protocol.h\<close>, sixty-four bytes without padding. The locale
  \<open>fixed_codec\<close> holds what every fixed-width image gives: a stream of images is split
  back into its records.
\<close>

section \<open>Little-endian numbers\<close>

fun le_bytes :: "nat \<Rightarrow> nat \<Rightarrow> bytes" where
  "le_bytes 0 v = []"
| "le_bytes (Suc n) v = char_of (v mod 256) # le_bytes n (v div 256)"

fun le_val :: "bytes \<Rightarrow> nat" where
  "le_val [] = 0"
| "le_val (c # cs) = of_char c + 256 * le_val cs"

lemma length_le_bytes [simp]: "length (le_bytes n v) = n"
  by (induction n arbitrary: v) simp_all

lemma le_val_bytes: "v < 256 ^ n \<Longrightarrow> le_val (le_bytes n v) = v"
proof (induction n arbitrary: v)
  case 0
  then show ?case by simp
next
  case (Suc n)
  then have "v div 256 < 256 ^ n" by (simp add: less_mult_imp_div_less mult.commute)
  then show ?case using Suc.IH by simp
qed

lemma le_bytes_val: "le_bytes (length b) (le_val b) = b"
proof (induction b)
  case Nil
  then show ?case by simp
next
  case (Cons c b)
  have "of_char c < (256 :: nat)" by simp
  then have "(of_char c + 256 * le_val b) mod 256 = (of_char c :: nat)"
    and "(of_char c + 256 * le_val b) div 256 = le_val b" by simp_all
  then show ?case using Cons by simp
qed

lemma le_val_less: "le_val b < 256 ^ length b"
proof (induction b)
  case Nil
  then show ?case by simp
next
  case (Cons c b)
  have "of_char c + 256 * le_val b < 256 * Suc (le_val b)" by simp
  also have "256 * Suc (le_val b) \<le> 256 * 256 ^ length b"
    using Cons by (intro mult_le_mono2) simp
  finally show ?case by simp
qed

definition u32_bytes :: "32 word \<Rightarrow> bytes" where "u32_bytes w = le_bytes 4 (unat w)"
definition u64_bytes :: "64 word \<Rightarrow> bytes" where "u64_bytes w = le_bytes 8 (unat w)"
definition u32_at :: "nat \<Rightarrow> bytes \<Rightarrow> 32 word" where
  "u32_at i b = word_of_nat (le_val (take 4 (drop i b)))"
definition u64_at :: "nat \<Rightarrow> bytes \<Rightarrow> 64 word" where
  "u64_at i b = word_of_nat (le_val (take 8 (drop i b)))"

lemma length_u [simp]: "length (u32_bytes w) = 4" "length (u64_bytes v) = 8"
  by (simp_all add: u32_bytes_def u64_bytes_def)

lemma u32_at_here: "length a = i \<Longrightarrow> u32_at i (a @ u32_bytes w @ r) = w"
proof -
  have "unat w < 256 ^ 4" using unsigned_less [of w] by simp
  then show "length a = i \<Longrightarrow> u32_at i (a @ u32_bytes w @ r) = w"
    by (simp add: u32_at_def u32_bytes_def le_val_bytes)
qed

lemma u64_at_here: "length a = i \<Longrightarrow> u64_at i (a @ u64_bytes w @ r) = w"
proof -
  have "unat w < 256 ^ 8" using unsigned_less [of w] by simp
  then show "length a = i \<Longrightarrow> u64_at i (a @ u64_bytes w @ r) = w"
    by (simp add: u64_at_def u64_bytes_def le_val_bytes)
qed

lemma u32_at_skip [simp]: "length a \<le> i \<Longrightarrow> u32_at i (a @ r) = u32_at (i - length a) r"
  by (simp add: u32_at_def)

lemma u64_at_skip [simp]: "length a \<le> i \<Longrightarrow> u64_at i (a @ r) = u64_at (i - length a) r"
  by (simp add: u64_at_def)

lemma u_at_0 [simp]:
  "u32_at 0 (u32_bytes w @ r) = w" "u64_at 0 (u64_bytes v @ r) = v"
  "u32_at 0 (u32_bytes w) = w" "u64_at 0 (u64_bytes v) = v"
  using u32_at_here [of "[]" 0 w r] u64_at_here [of "[]" 0 v r]
    u32_at_here [of "[]" 0 w "[]"] u64_at_here [of "[]" 0 v "[]"] by simp_all

section \<open>Fixed character arrays\<close>

definition char_array :: "nat \<Rightarrow> string \<Rightarrow> bytes" where
  "char_array n s = take (n - 1) s @ replicate (n - length (take (n - 1) s)) NUL"

lemma length_char_array [simp]: "0 < n \<Longrightarrow> length (char_array n s) = n"
  by (auto simp: char_array_def min_def)

lemma cstr_char_array:
  assumes "is_cstr s" and "length s < n"
  shows "cstr (char_array n s) = s"
proof -
  obtain k where k: "n - length s = Suc k" using assms(2) by (cases "n - length s") auto
  have "char_array n s = s @ NUL # replicate k NUL"
    using assms(2) k by (simp add: char_array_def)
  then show ?thesis using assms(1) by simp
qed

section \<open>Streams of fixed-width images\<close>

locale fixed_codec =
  fixes enc :: "'a \<Rightarrow> bytes" and dec :: "bytes \<Rightarrow> 'a" and width :: nat and fits :: "'a \<Rightarrow> bool"
  assumes width_pos: "0 < width"
    and enc_width: "length (enc x) = width"
    and dec_enc: "fits x \<Longrightarrow> dec (enc x) = x"
begin

lemma enc_inj: "fits x \<Longrightarrow> fits y \<Longrightarrow> enc x = enc y \<Longrightarrow> x = y"
  by (metis dec_enc)

lemma first_image: "take width (enc x @ r) = enc x" "drop width (enc x @ r) = r"
  by (simp_all add: enc_width)

lemma stream_length: "length (concat (map enc xs)) = width * length xs"
  by (induction xs) (simp_all add: enc_width)

text \<open>Where a stream of images has been cut, it is determined which records came through.\<close>

lemma stream_prefix:
  assumes "\<forall>x \<in> set xs. fits x" and "\<forall>y \<in> set ys. fits y"
    and "prefix (concat (map enc ys)) (concat (map enc xs))"
  shows "prefix ys xs"
  using assms
proof (induction ys arbitrary: xs)
  case Nil
  then show ?case by simp
next
  case (Cons y ys)
  have "xs \<noteq> []" using Cons.prems(3) enc_width [of y] width_pos by auto
  then obtain x xs' where xs: "xs = x # xs'" by (cases xs) auto
  obtain r where r: "enc x @ concat (map enc xs') = enc y @ concat (map enc ys) @ r"
    using Cons.prems(3) xs by (auto simp: prefix_def)
  moreover have "length (enc x) = length (enc y)" by (simp add: enc_width)
  ultimately have e: "enc x = enc y" and t: "concat (map enc xs') = concat (map enc ys) @ r"
    by simp_all
  have "fits x" "fits y" using Cons.prems(1,2) xs by simp_all
  then have "x = y" using e by (rule enc_inj)
  moreover have "prefix ys xs'"
    using Cons.prems(1,2) xs t by (intro Cons.IH) (simp_all add: prefixI)
  ultimately show ?case using xs by simp
qed

lemma stream_inj:
  assumes "\<forall>x \<in> set xs. fits x" and "\<forall>y \<in> set ys. fits y"
    and "concat (map enc xs) = concat (map enc ys)"
  shows "xs = ys"
  using stream_prefix [of xs ys] stream_prefix [of ys xs] assms by (simp add: prefix_order.eq_iff)

end

section \<open>\<open>SyncHeader\<close>\<close>

record sync_header =
  h_magic :: "32 word"
  h_version :: "32 word"
  h_msg_type :: "32 word"
  h_path_len :: "32 word"
  h_file_size :: "64 word"
  h_offset :: "64 word"
  h_data_len :: "32 word"
  h_mode :: "32 word"
  h_mtime :: "64 word"
  h_total_hash :: "64 word"
  h_block_hash :: "64 word"

definition header_size :: nat where "header_size = 64"

definition header_bytes :: "sync_header \<Rightarrow> bytes" where
  "header_bytes h = u32_bytes (h_magic h) @ u32_bytes (h_version h) @ u32_bytes (h_msg_type h) @
     u32_bytes (h_path_len h) @ u64_bytes (h_file_size h) @ u64_bytes (h_offset h) @
     u32_bytes (h_data_len h) @ u32_bytes (h_mode h) @ u64_bytes (h_mtime h) @
     u64_bytes (h_total_hash h) @ u64_bytes (h_block_hash h)"

definition header_of :: "bytes \<Rightarrow> sync_header" where
  "header_of b = \<lparr>h_magic = u32_at 0 b, h_version = u32_at 4 b, h_msg_type = u32_at 8 b,
     h_path_len = u32_at 12 b, h_file_size = u64_at 16 b, h_offset = u64_at 24 b,
     h_data_len = u32_at 32 b, h_mode = u32_at 36 b, h_mtime = u64_at 40 b,
     h_total_hash = u64_at 48 b, h_block_hash = u64_at 56 b\<rparr>"

lemma length_header_bytes [simp]: "length (header_bytes h) = header_size"
  by (simp add: header_bytes_def header_size_def)

lemma header_of_bytes [simp]: "header_of (header_bytes h) = h"
  by (cases h) (simp add: header_of_def header_bytes_def)

lemma u32_bytes_at: "length a = 4 \<Longrightarrow> u32_bytes (u32_at 0 a) = a"
proof -
  assume a: "length a = 4"
  then have "unat (word_of_nat (le_val a) :: 32 word) = le_val a"
    using le_val_less [of a] a by (simp add: unat_of_nat)
  then show ?thesis using a le_bytes_val [of a] by (simp add: u32_bytes_def u32_at_def)
qed

lemma u64_bytes_at: "length a = 8 \<Longrightarrow> u64_bytes (u64_at 0 a) = a"
proof -
  assume a: "length a = 8"
  then have "unat (word_of_nat (le_val a) :: 64 word) = le_val a"
    using le_val_less [of a] a by (simp add: unat_of_nat)
  then show ?thesis using a le_bytes_val [of a] by (simp add: u64_bytes_def u64_at_def)
qed

lemma u_at_part:
  "u32_at i b = u32_at 0 (take 4 (drop i b))" "u64_at i b = u64_at 0 (take 8 (drop i b))"
  by (simp_all add: u32_at_def u64_at_def)

text \<open>Every sixty-four bytes are the image of one header.\<close>

lemma header_bytes_of:
  assumes "length b = header_size"
  shows "header_bytes (header_of b) = b"
proof -
  have l: "length b = 64" using assms by (simp add: header_size_def)
  have four: "u32_bytes (u32_at i b) = take 4 (drop i b)" if "i \<le> 60" for i
    using that l by (subst u_at_part) (simp add: u32_bytes_at)
  have eight: "u64_bytes (u64_at i b) = take 8 (drop i b)" if "i \<le> 56" for i
    using that l by (subst u_at_part) (simp add: u64_bytes_at)
  have "header_bytes (header_of b) = take 4 (drop 0 b) @ take 4 (drop 4 b) @ take 4 (drop 8 b) @
     take 4 (drop 12 b) @ take 8 (drop 16 b) @ take 8 (drop 24 b) @ take 4 (drop 32 b) @
     take 4 (drop 36 b) @ take 8 (drop 40 b) @ take 8 (drop 48 b) @ take 8 (drop 56 b)"
    by (simp add: header_bytes_def header_of_def four eight)
  also have "\<dots> = take (4 + (4 + (4 + (4 + (8 + (8 + (4 + (4 + (8 + (8 + 8)))))))))) b"
    by (simp only: take_add drop_drop) simp
  finally show ?thesis using l by simp
qed

interpretation hc: fixed_codec header_bytes header_of header_size "\<lambda>_. True"
  by unfold_locales (simp_all add: header_size_def)

end
