(* ===== verification/NetUtils.thy ===== *)
theory NetUtils
  imports Wire Hash
begin

text \<open>
  \<^verbatim>\<open>src/net_utils.c\<close>: whole-buffer reads and writes on descriptors, protocol headers, paths,
  acknowledgements and errors, and the two clock helpers.
\<close>

section \<open>Clocks and names\<close>

definition sys_clock :: "(errno + int \<times> int) prog" where
  "sys_clock = syscall (\<lambda>w. (Inr (w_mono w), w))"

definition current_time_ms :: "int prog" where
  "current_time_ms = do {
     r \<leftarrow> sys_clock;
     ret (case r of Inl _ \<Rightarrow> 0 | Inr (sec, nsec) \<Rightarrow> sec * 1000 + nsec div 1000000)
   }"

text \<open>
  \<^verbatim>\<open>nanosleep\<close> lets the monotonic clock advance; an interrupted one leaves the rest of the
  time in its argument, which is not told apart from the whole here.
\<close>

definition sys_nanosleep :: "int \<Rightarrow> int \<Rightarrow> (errno + unit) prog" where
  "sys_nanosleep sec nsec = syscall (\<lambda>w.
     let t = snd (w_mono w) + nsec in
     (Inr (), w\<lparr>w_mono := (fst (w_mono w) + sec + t div 1000000000, t mod 1000000000)\<rparr>))"

lemma sys_nanosleep_EINTR:
  "run_state (sys_nanosleep s n) w = (Inl e, w1) \<Longrightarrow> w1 = rest_script w \<and> w_script w \<noteq> []"
  using syscall_cases [of _ w] unfolding sys_nanosleep_def
  by (auto simp: syscall_def Let_def rest_script_def split: list.splits outcome.splits)

function nanosleep_retry :: "int \<Rightarrow> int \<Rightarrow> world \<Rightarrow> unit \<times> world" where
  "nanosleep_retry sec nsec w =
     (case run_state (sys_nanosleep sec nsec) w of
        (Inl e, w1) \<Rightarrow> if e = EINTR then nanosleep_retry sec nsec w1 else ((), w1)
      | (Inr _, w1) \<Rightarrow> ((), w1))"
  by pat_completeness auto
termination
  by (relation "measure (\<lambda>(s, n, w). length (w_script w))")
    (auto dest!: sym [of "(_, _)" "run_state _ _"] dest: sys_nanosleep_EINTR)

declare nanosleep_retry.simps [simp del]

definition sleep_ms :: "int \<Rightarrow> unit prog" where
  "sleep_ms milliseconds =
     (if milliseconds \<le> 0 then ret ()
      else State (nanosleep_retry (milliseconds div 1000) (milliseconds mod 1000 * 1000000)))"

definition minisync_basename :: "path \<Rightarrow> string" where
  "minisync_basename p = (case strrchr p slash of Some i \<Rightarrow> drop (Suc i) p | None \<Rightarrow> p)"

text \<open>The tree and all streams are as before; the script shrinks.\<close>

definition idle :: "world \<Rightarrow> world \<Rightarrow> bool" where
  "idle w w' \<longleftrightarrow> (\<exists>j m. w' = w\<lparr>w_script := drop j (w_script w), w_mono := m\<rparr>)"

lemma idleI: "idle w (w\<lparr>w_script := drop j (w_script w), w_mono := m\<rparr>)"
  unfolding idle_def by blast

lemma idle_trans:
  assumes "idle u v" and "idle v w"
  shows "idle u w"
proof -
  obtain j m i n where "v = u\<lparr>w_script := drop j (w_script u), w_mono := m\<rparr>"
    and "w = v\<lparr>w_script := drop i (w_script v), w_mono := n\<rparr>"
    using assms unfolding idle_def by blast
  then have "w = u\<lparr>w_script := drop (i + j) (w_script u), w_mono := n\<rparr>" by simp
  then show ?thesis using idleI by metis
qed

lemma idle_mono: "idle w (w\<lparr>w_mono := m\<rparr>)"
  using idleI [where w = w and j = 0 and m = m] by simp

lemma idle_refl: "idle w w"
  using idle_mono [of w "w_mono w"] by simp

lemma idle_rest: "idle w (rest_script w)"
  using idleI [where w = w and j = 1 and m = "w_mono w"] by (simp add: rest_script_def drop_Suc)

interpretation idr: world_relation idle
  by unfold_locales (fact idle_refl, fact idle_trans, fact idle_rest)

lemma idle_simps:
  assumes "idle w w'"
  shows "w_fs w' = w_fs w" "w_cwd w' = w_cwd w" "w_rx w' = w_rx w" "w_tx w' = w_tx w"
    "w_log w' = w_log w" "w_umask w' = w_umask w" "w_time w' = w_time w"
    "w_localtime w' = w_localtime w" "pkey w' p = pkey w p"
    "length (w_script w') \<le> length (w_script w)"
    "set (w_script w') \<subseteq> set (w_script w)"
  using assms by (auto simp: idle_def pkey_def dest: in_set_dropD)

lemma nanosleep_idle: "state_io_rel idle (sys_nanosleep s n)"
  unfolding sys_nanosleep_def by (rule idr.syscall) (simp add: Let_def idle_mono)

lemma nanosleep_retry_idle: "nanosleep_retry s n w = (u, w') \<Longrightarrow> idle w w'"
proof (induction s n w rule: nanosleep_retry.induct)
  case (1 s n w)
  obtain x w1 where r: "run_state (sys_nanosleep s n) w = (x, w1)" by fastforce
  have i: "idle w w1" using idr.runD [OF nanosleep_idle r] .
  show ?case
    using "1.prems" "1.IH" [OF r [symmetric]] i r
    by (subst (asm) nanosleep_retry.simps) (auto split: sum.splits if_splits intro: idle_trans)
qed

lemma sleep_ms_idle: "state_io_rel idle (sleep_ms n)"
proof -
  have "state_io_rel idle (State (nanosleep_retry a b))" for a b
    by (rule state_io_relI) (auto dest: nanosleep_retry_idle)
  then show ?thesis by (simp add: sleep_ms_def idr.return)
qed

section \<open>Talking on one descriptor\<close>

text \<open>
  A program that only talks on \<open>fd\<close>: it may consume input and append output there, let time
  pass and use up the script; the tree and all other descriptors are as before.
\<close>

definition talks :: "int \<Rightarrow> world \<Rightarrow> world \<Rightarrow> bool" where
  "talks fd w w' \<longleftrightarrow> (\<exists>j m i d. w' = w\<lparr>w_script := drop j (w_script w), w_mono := m,
     w_rx := (w_rx w)(fd := drop i (w_rx w fd)), w_tx := (w_tx w)(fd := w_tx w fd @ d)\<rparr>)"

lemma talksI: "talks fd w (w\<lparr>w_script := drop j (w_script w), w_mono := m,
     w_rx := (w_rx w)(fd := drop i (w_rx w fd)), w_tx := (w_tx w)(fd := w_tx w fd @ d)\<rparr>)"
  unfolding talks_def by blast

lemma talks_trans:
  assumes "talks fd u v" and "talks fd v w"
  shows "talks fd u w"
proof -
  obtain j m i d where v: "v = u\<lparr>w_script := drop j (w_script u), w_mono := m,
     w_rx := (w_rx u)(fd := drop i (w_rx u fd)), w_tx := (w_tx u)(fd := w_tx u fd @ d)\<rparr>"
    using assms(1) unfolding talks_def by blast
  obtain j' m' i' d' where w: "w = v\<lparr>w_script := drop j' (w_script v), w_mono := m',
     w_rx := (w_rx v)(fd := drop i' (w_rx v fd)), w_tx := (w_tx v)(fd := w_tx v fd @ d')\<rparr>"
    using assms(2) unfolding talks_def by blast
  have "w = u\<lparr>w_script := drop (j' + j) (w_script u), w_mono := m',
     w_rx := (w_rx u)(fd := drop (i' + i) (w_rx u fd)), w_tx := (w_tx u)(fd := w_tx u fd @ (d @ d'))\<rparr>"
    unfolding w v by simp
  then show ?thesis unfolding talks_def by blast
qed

lemma talks_idle: "idle w w' \<Longrightarrow> talks fd w w'"
proof -
  assume "idle w w'"
  then obtain j m where "w' = w\<lparr>w_script := drop j (w_script w), w_mono := m\<rparr>"
    unfolding idle_def by blast
  then have "w' = w\<lparr>w_script := drop j (w_script w), w_mono := m,
     w_rx := (w_rx w)(fd := drop 0 (w_rx w fd)), w_tx := (w_tx w)(fd := w_tx w fd @ [])\<rparr>" by simp
  then show ?thesis unfolding talks_def by blast
qed

interpretation tkr: world_relation "talks fd" for fd
  by unfold_locales (fact talks_idle [OF idle_refl], fact talks_trans, fact talks_idle [OF idle_rest])

lemma talks_simps:
  assumes "talks fd w w'"
  shows "w_fs w' = w_fs w" "w_cwd w' = w_cwd w" "w_log w' = w_log w" "w_umask w' = w_umask w"
    "w_time w' = w_time w" "w_localtime w' = w_localtime w" "pkey w' p = pkey w p"
    "fd' \<noteq> fd \<Longrightarrow> w_rx w' fd' = w_rx w fd'" "fd' \<noteq> fd \<Longrightarrow> w_tx w' fd' = w_tx w fd'"
    "suffix (w_rx w' fd) (w_rx w fd)" "prefix (w_tx w fd) (w_tx w' fd)"
    "set (w_script w') \<subseteq> set (w_script w)" "fs_find w' p = fs_find w p"
    "file_bytes w' p = file_bytes w p" "w_script w = [] \<Longrightarrow> w_script w' = []" "w_pid w' = w_pid w"
  using assms by (auto simp: talks_def pkey_def fs_find_def file_bytes_def wants_dir_def
      suffix_drop dest: in_set_dropD)

lemma talks_tree: "talks fd w w' \<Longrightarrow> tree_same w w'"
  by (simp add: tree_same_def talks_simps(1,2))

lemma sys_read_cases:
  "(\<exists>e xs. w_script w = Fail e # xs \<and> run_state (sys_read fd n) w = (Inl e, rest_script w)) \<or>
   (\<exists>k. k \<le> n \<and> (n = 0 \<or> 0 < k) \<and> run_state (sys_read fd n) w =
      (Inr (take k (w_rx w fd)),
       (rest_script w)\<lparr>w_rx := (w_rx w)(fd := drop k (w_rx w fd))\<rparr>))"
proof -
  let ?k = "min n (max 1 (transfer_limit (w_script w) n))"
  let ?f = "\<lambda>w1. (Inr (take ?k (w_rx w1 fd)), w1\<lparr>w_rx := (w_rx w1)(fd := drop ?k (w_rx w1 fd))\<rparr>)"
  have call: "run_state (sys_read fd n) w = run_state (syscall ?f) w"
    by (simp add: sys_read_def Let_def)
  have k: "?k \<le> n" "n = 0 \<or> 0 < ?k" by auto
  from syscall_cases [of ?f w] show ?thesis
  proof
    assume "run_state (syscall ?f) w = ?f (rest_script w)"
    then show ?thesis unfolding call using k by (intro disjI2 exI [of _ ?k]) simp
  next
    assume "\<exists>e xs. w_script w = Fail e # xs \<and> run_state (syscall ?f) w = (Inl e, rest_script w)"
    then show ?thesis unfolding call by blast
  qed
qed

lemma sys_write_cases:
  "(\<exists>e xs. w_script w = Fail e # xs \<and> run_state (sys_write fd d) w = (Inl e, rest_script w)) \<or>
   (\<exists>k. k \<le> length d \<and> (k < length d \<longrightarrow> w_script w \<noteq> []) \<and> run_state (sys_write fd d) w =
      (Inr k, (rest_script w)\<lparr>w_tx := (w_tx w)(fd := w_tx w fd @ take k d)\<rparr>))"
proof -
  let ?k = "transfer_limit (w_script w) (length d)"
  let ?f = "\<lambda>w1. (Inr ?k, w1\<lparr>w_tx := (w_tx w1)(fd := w_tx w1 fd @ take ?k d)\<rparr>)"
  have call: "run_state (sys_write fd d) w = run_state (syscall ?f) w"
    by (simp add: sys_write_def Let_def)
  have k: "?k \<le> length d" "?k < length d \<longrightarrow> w_script w \<noteq> []" by (auto simp: transfer_limit_le)
  from syscall_cases [of ?f w] show ?thesis
  proof
    assume "run_state (syscall ?f) w = ?f (rest_script w)"
    then show ?thesis unfolding call using k by (intro disjI2 exI [of _ ?k]) simp
  next
    assume "\<exists>e xs. w_script w = Fail e # xs \<and> run_state (syscall ?f) w = (Inl e, rest_script w)"
    then show ?thesis unfolding call by blast
  qed
qed

lemma sys_read_talks: "state_io_rel (talks fd) (sys_read fd n)"
proof (rule state_io_relI)
  fix a w w'
  assume r: "run_state (sys_read fd n) w = (a, w')"
  have "talks fd w ((rest_script w)\<lparr>w_rx := (w_rx w)(fd := drop k (w_rx w fd))\<rparr>)" for k
    using talksI [where fd = fd and w = w and j = 1 and m = "w_mono w" and i = k and d = "[]"]
    by (simp add: rest_script_def drop_Suc)
  then show "talks fd w w'"
    using sys_read_cases [of w fd n] r talks_idle [OF idle_rest] by auto
qed

lemma sys_write_talks: "state_io_rel (talks fd) (sys_write fd d)"
proof (rule state_io_relI)
  fix a w w'
  assume r: "run_state (sys_write fd d) w = (a, w')"
  have "talks fd w ((rest_script w)\<lparr>w_tx := (w_tx w)(fd := w_tx w fd @ take k d)\<rparr>)" for k
    using talksI [where fd = fd and w = w and j = 1 and m = "w_mono w" and i = 0 and d = "take k d"]
    by (simp add: rest_script_def drop_Suc)
  then show "talks fd w w'"
    using sys_write_cases [of w fd d] r talks_idle [OF idle_rest] by auto
qed

section \<open>Whole buffers\<close>

lemma sys_read_progress:
  assumes "run_state (sys_read fd n) w = (x, w1)"
  shows "x = Inl e \<Longrightarrow> length (w_script w1) < length (w_script w)"
    and "length (w_script w1) \<le> length (w_script w)"
    and "x = Inr d \<Longrightarrow> length d \<le> n"
proof -
  from sys_read_cases [of w fd n]
  have "(x = Inl e \<longrightarrow> length (w_script w1) < length (w_script w)) \<and>
    length (w_script w1) \<le> length (w_script w) \<and> (x = Inr d \<longrightarrow> length d \<le> n)" (is ?P)
  proof
    assume "\<exists>e xs. w_script w = Fail e # xs \<and> run_state (sys_read fd n) w = (Inl e, rest_script w)"
    then show ?P using assms by fastforce
  next
    assume "\<exists>k. k \<le> n \<and> (n = 0 \<or> 0 < k) \<and> run_state (sys_read fd n) w =
      (Inr (take k (w_rx w fd)), (rest_script w)\<lparr>w_rx := (w_rx w)(fd := drop k (w_rx w fd))\<rparr>)"
    then obtain k where "k \<le> n" "x = Inr (take k (w_rx w fd))"
      "w1 = (rest_script w)\<lparr>w_rx := (w_rx w)(fd := drop k (w_rx w fd))\<rparr>"
      using assms by auto
    then show ?P by auto
  qed
  then show "x = Inl e \<Longrightarrow> length (w_script w1) < length (w_script w)"
    and "length (w_script w1) \<le> length (w_script w)"
    and "x = Inr d \<Longrightarrow> length d \<le> n" by blast+
qed

text \<open>
  \<open>readn\<close> gives the C result (the number of bytes, or -1) and what it put in the buffer.
\<close>

function readn_loop :: "int \<Rightarrow> nat \<Rightarrow> bytes \<Rightarrow> world \<Rightarrow> (int \<times> bytes) \<times> world" where
  "readn_loop fd left got w =
     (if left = 0 then ((int (length got), got), w)
      else case run_state (sys_read fd left) w of
        (Inl e, w1) \<Rightarrow> if e = EINTR then readn_loop fd left got w1 else ((- 1, got), w1)
      | (Inr d, w1) \<Rightarrow>
          if d = [] then ((int (length got), got), w1)
          else readn_loop fd (left - length d) (got @ d) w1)"
  by pat_completeness auto
termination
proof (relation "measure (\<lambda>(fd, left, got, w). length (w_script w) + left)", goal_cases)
  case 1
  show ?case by simp
next
  case (2 fd left got w x w1 e)
  then have "run_state (sys_read fd left) w = (Inl e, w1)" by simp
  from sys_read_progress(1) [OF this refl] show ?case by simp
next
  case (3 fd left got w x w1 d)
  then have r: "run_state (sys_read fd left) w = (Inr d, w1)" by simp
  have "0 < length d" using 3 by simp
  moreover have "length (w_script w1) \<le> length (w_script w)" by (rule sys_read_progress(2) [OF r])
  moreover have "0 < left" using 3(1) by simp
  ultimately have "length (w_script w1) + (left - length d) < length (w_script w) + left" by linarith
  then show ?case by simp
qed

declare readn_loop.simps [simp del]

lemma readn_loop_step:
  "0 < left \<Longrightarrow> run_state (sys_read fd left) w = (x, w1) \<Longrightarrow>
   readn_loop fd left got w =
     (case x of
        Inl e \<Rightarrow> if e = EINTR then readn_loop fd left got w1 else ((- 1, got), w1)
      | Inr d \<Rightarrow>
          if d = [] then ((int (length got), got), w1)
          else readn_loop fd (left - length d) (got @ d) w1)"
  by (subst readn_loop.simps) simp

definition readn :: "int \<Rightarrow> nat \<Rightarrow> (int \<times> bytes) prog" where
  "readn fd n = State (readn_loop fd n [])"

text \<open>\<open>writen\<close>: interrupted writes are repeated, and so are full pipes after ten milliseconds.\<close>

lemma sys_write_progress:
  assumes "run_state (sys_write fd d) w = (x, w1)"
  shows "x = Inl e \<Longrightarrow> length (w_script w1) < length (w_script w)"
    and "x = Inr k \<Longrightarrow> d \<noteq> [] \<Longrightarrow>
      length (w_script w1) + length (drop k d) < length (w_script w) + length d"
  using sys_write_cases [of w fd d] assms by (cases "w_script w"; auto)+

lemma sleep_script: "length (w_script (snd (run_state (sleep_ms n) w))) \<le> length (w_script w)"
  using idle_simps(10) sleep_ms_idle by (auto simp: state_io_rel_def)

function writen_loop :: "int \<Rightarrow> bytes \<Rightarrow> world \<Rightarrow> bool \<times> world" where
  "writen_loop fd d w =
     (if d = [] then (True, w)
      else case run_state (sys_write fd d) w of
        (Inl e, w1) \<Rightarrow>
          if e = EINTR then writen_loop fd d w1
          else if e = EAGAIN then writen_loop fd d (snd (run_state (sleep_ms 10) w1))
          else (False, w1)
      | (Inr k, w1) \<Rightarrow> if k = 0 then writen_loop fd d w1 else writen_loop fd (drop k d) w1)"
  by pat_completeness auto
termination
proof (relation "measure (\<lambda>(fd, d, w). length (w_script w) + length d)", goal_cases)
  case 1
  show ?case by simp
next
  case (2 fd d w x w1 e)
  then have "run_state (sys_write fd d) w = (Inl e, w1)" by simp
  from sys_write_progress(1) [OF this refl] show ?case by simp
next
  case (3 fd d w x w1 e)
  then have "run_state (sys_write fd d) w = (Inl e, w1)" by simp
  from sys_write_progress(1) [OF this refl] sleep_script [of 10 w1] show ?case by simp
next
  case (4 fd d w x w1 k)
  then have "run_state (sys_write fd d) w = (Inr k, w1)" by simp
  from sys_write_progress(2) [OF this refl] 4 show ?case by simp
next
  case (5 fd d w x w1 k)
  then have "run_state (sys_write fd d) w = (Inr k, w1)" by simp
  from sys_write_progress(2) [OF this refl] 5 show ?case by simp
qed

declare writen_loop.simps [simp del]

lemma writen_loop_step:
  "d \<noteq> [] \<Longrightarrow> run_state (sys_write fd d) w = (x, w1) \<Longrightarrow>
   writen_loop fd d w =
     (case x of
        Inl e \<Rightarrow>
          if e = EINTR then writen_loop fd d w1
          else if e = EAGAIN then writen_loop fd d (snd (run_state (sleep_ms 10) w1))
          else (False, w1)
      | Inr k \<Rightarrow> if k = 0 then writen_loop fd d w1 else writen_loop fd (drop k d) w1)"
  by (subst writen_loop.simps) simp

definition writen :: "int \<Rightarrow> bytes \<Rightarrow> int prog" where
  "writen fd buf = do {
     ok \<leftarrow> State (writen_loop fd buf);
     ret (if ok then int (length buf) else - 1)
   }"

definition read_full :: "int \<Rightarrow> nat \<Rightarrow> bytes option prog" where
  "read_full fd n = do {
     r \<leftarrow> readn fd n;
     ret (if fst r = int n then Some (snd r) else None)
   }"

definition write_full :: "int \<Rightarrow> bytes \<Rightarrow> int prog" where
  "write_full fd buf = writen fd buf"

section \<open>Headers, paths and answers\<close>

abbreviation PROTOCOL_MAGIC :: "32 word" where "PROTOCOL_MAGIC \<equiv> 0x4D53594E"
abbreviation PROTOCOL_VERSION :: "32 word" where "PROTOCOL_VERSION \<equiv> 1"
abbreviation MSG_HELLO :: "32 word" where "MSG_HELLO \<equiv> 1"
abbreviation MSG_FILE_BEGIN :: "32 word" where "MSG_FILE_BEGIN \<equiv> 2"
abbreviation MSG_FILE_BLOCK :: "32 word" where "MSG_FILE_BLOCK \<equiv> 3"
abbreviation MSG_FILE_END :: "32 word" where "MSG_FILE_END \<equiv> 4"
abbreviation MSG_FILE_DELETE :: "32 word" where "MSG_FILE_DELETE \<equiv> 5"
abbreviation MSG_FILE_RENAME :: "32 word" where "MSG_FILE_RENAME \<equiv> 6"
abbreviation MSG_QUERY_OFFSET :: "32 word" where "MSG_QUERY_OFFSET \<equiv> 7"
abbreviation MSG_OFFSET_REPLY :: "32 word" where "MSG_OFFSET_REPLY \<equiv> 8"
abbreviation MSG_ACK :: "32 word" where "MSG_ACK \<equiv> 9"
abbreviation MSG_ERROR :: "32 word" where "MSG_ERROR \<equiv> 10"
abbreviation MSG_EXIT :: "32 word" where "MSG_EXIT \<equiv> 99"
abbreviation MAX_NET_PATH :: nat where "MAX_NET_PATH \<equiv> 512"

definition zero_header :: sync_header where
  "zero_header = \<lparr>h_magic = 0, h_version = 0, h_msg_type = 0, h_path_len = 0, h_file_size = 0,
     h_offset = 0, h_data_len = 0, h_mode = 0, h_mtime = 0, h_total_hash = 0, h_block_hash = 0\<rparr>"

definition init_sync_header :: "32 word \<Rightarrow> sync_header" where
  "init_sync_header msg_type =
     zero_header\<lparr>h_magic := PROTOCOL_MAGIC, h_version := PROTOCOL_VERSION, h_msg_type := msg_type\<rparr>"

definition validate_sync_header :: "sync_header \<Rightarrow> int" where
  "validate_sync_header h =
     (if h_magic h \<noteq> PROTOCOL_MAGIC then - 1
      else if h_version h \<noteq> PROTOCOL_VERSION then - 1
      else if unat (h_path_len h) > MAX_NET_PATH then - 1
      else 0)"

definition msg_type_to_string :: "32 word \<Rightarrow> string" where
  "msg_type_to_string t =
     (if t = MSG_HELLO then ''HELLO''
      else if t = MSG_FILE_BEGIN then ''FILE_BEGIN''
      else if t = MSG_FILE_BLOCK then ''FILE_BLOCK''
      else if t = MSG_FILE_END then ''FILE_END''
      else if t = MSG_FILE_DELETE then ''FILE_DELETE''
      else if t = MSG_FILE_RENAME then ''FILE_RENAME''
      else if t = MSG_QUERY_OFFSET then ''QUERY_OFFSET''
      else if t = MSG_OFFSET_REPLY then ''OFFSET_REPLY''
      else if t = MSG_ACK then ''ACK''
      else if t = MSG_ERROR then ''ERROR''
      else if t = MSG_EXIT then ''EXIT''
      else ''UNKNOWN'')"

definition send_header :: "int \<Rightarrow> sync_header \<Rightarrow> int prog" where
  "send_header fd h = do {
     r \<leftarrow> write_full fd (header_bytes h);
     ret (if r = int header_size then 0 else - 1)
   }"

definition recv_header :: "int \<Rightarrow> sync_header option prog" where
  "recv_header fd = do {
     r \<leftarrow> read_full fd header_size;
     ret (case r of
        None \<Rightarrow> None
      | Some b \<Rightarrow> let h = header_of b in if validate_sync_header h = 0 then Some h else None)
   }"

definition send_path :: "int \<Rightarrow> string \<Rightarrow> int prog" where
  "send_path fd rel_path =
     (let len = length rel_path in
      if len > MAX_NET_PATH then ret (- 1)
      else do {
        r \<leftarrow> write_full fd rel_path;
        ret (if r = int len then 0 else - 1)
      })"

text \<open>The bytes put in the buffer; the C function adds a NUL behind them.\<close>

definition recv_path :: "int \<Rightarrow> nat \<Rightarrow> nat \<Rightarrow> bytes option prog" where
  "recv_path fd max_len path_len =
     (if path_len \<ge> max_len \<or> path_len > MAX_NET_PATH then ret None
      else if path_len = 0 then ret (Some [])
      else read_full fd path_len)"

definition send_ack :: "int \<Rightarrow> 64 word \<Rightarrow> int prog" where
  "send_ack fd offset = send_header fd ((init_sync_header MSG_ACK)\<lparr>h_offset := offset\<rparr>)"

definition error_header :: "string \<Rightarrow> sync_header" where
  "error_header message =
     (let n = word_of_nat (length message) :: 32 word in
      (init_sync_header MSG_ERROR)
        \<lparr>h_path_len := (if unat n > MAX_NET_PATH then word_of_nat MAX_NET_PATH else n)\<rparr>)"

definition send_error :: "int \<Rightarrow> string \<Rightarrow> int prog" where
  "send_error fd message = do {
     let h = error_header message;
     s \<leftarrow> send_header fd h;
     if s < 0 then ret (- 1)
     else do {
       r \<leftarrow> write_full fd (take (unat (h_path_len h)) message);
       ret (if r = int (unat (h_path_len h)) then 0 else - 1)
     }
   }"

end
