(* ===== verification/NetLaws.thy ===== *)
theory NetLaws
  imports NetUtils
begin

text \<open>
  What whole-buffer transfers do for every script: \<open>readn\<close> takes bytes off the front of the
  input and \<open>writen\<close> puts a prefix of its buffer behind the output; they are complete when
  only interruptions (and full pipes) disturb them. The header functions inherit this.
\<close>

section \<open>Reading\<close>

lemma readn_loop_result:
  "readn_loop fd left got w = ((r, d), w') \<Longrightarrow>
   talks fd w w' \<and> w_tx w' fd = w_tx w fd \<and>
   (\<exists>e. d = got @ e \<and> w_rx w fd = e @ w_rx w' fd \<and> length e \<le> left \<and>
     (r = - 1 \<and> \<not> benign w \<or>
      r = int (length d) \<and> (length e < left \<longrightarrow> w_rx w' fd = [])))"
proof (induction fd left got w rule: readn_loop.induct)
  case (1 fd left got w)
  show ?case
  proof (cases "left = 0")
    case True
    then show ?thesis using "1.prems" by (auto simp: readn_loop.simps tkr.refl)
  next
    case False
    then have pos: "0 < left" by simp
    obtain x w1 where rd: "run_state (sys_read fd left) w = (x, w1)" by fastforce
    note step = readn_loop_step [OF pos rd, of got]
    have t1: "talks fd w w1" by (rule tkr.runD [OF sys_read_talks rd])
    from sys_read_cases [of w fd left] show ?thesis
    proof
      assume "\<exists>e xs. w_script w = Fail e # xs \<and> run_state (sys_read fd left) w = (Inl e, rest_script w)"
      then obtain e xs where e: "w_script w = Fail e # xs" "x = Inl e" "w1 = rest_script w"
        using rd by auto
      show ?thesis
      proof (cases "e = EINTR")
        case True
        then have rec: "readn_loop fd left got w1 = ((r, d), w')" using "1.prems" step e by simp
        have "benign w \<Longrightarrow> benign w1" using e benign_rest by simp
        with "1.IH"(1) [OF False rd [symmetric] e(2) True rec] t1 e(3) show ?thesis
          by (auto intro: talks_trans)
      next
        case ne: False
        then have "((- 1, got), w1) = ((r, d), w')" using "1.prems" step e by simp
        moreover have "\<not> benign w" using e ne by (auto simp: benign_def)
        ultimately show ?thesis using t1 e(3) by auto
      qed
    next
      assume "\<exists>k. k \<le> left \<and> (left = 0 \<or> 0 < k) \<and> run_state (sys_read fd left) w =
        (Inr (take k (w_rx w fd)), (rest_script w)\<lparr>w_rx := (w_rx w)(fd := drop k (w_rx w fd))\<rparr>)"
      then obtain k where k: "k \<le> left" "0 < k" "x = Inr (take k (w_rx w fd))"
        "w1 = (rest_script w)\<lparr>w_rx := (w_rx w)(fd := drop k (w_rx w fd))\<rparr>"
        using rd False by auto
      show ?thesis
      proof (cases "take k (w_rx w fd) = []")
        case True
        then have "w_rx w fd = []" using k(2) by simp
        then show ?thesis using "1.prems" step k t1 by auto
      next
        case ne: False
        let ?d = "take k (w_rx w fd)"
        have rec: "readn_loop fd (left - length ?d) (got @ ?d) w1 = ((r, d), w')"
          using "1.prems" step k ne by simp
        have b: "benign w \<Longrightarrow> benign w1" using k(4) benign_rest by (simp add: benign_def)
        from "1.IH"(2) [OF False rd [symmetric] k(3) ne rec]
        obtain e where ih: "talks fd w1 w'" "w_tx w' fd = w_tx w1 fd"
          "d = (got @ ?d) @ e" "w_rx w1 fd = e @ w_rx w' fd" "length e \<le> left - length ?d"
          "r = - 1 \<and> \<not> benign w1 \<or>
            r = int (length d) \<and> (length e < left - length ?d \<longrightarrow> w_rx w' fd = [])" by blast
        have rx: "w_rx w fd = (?d @ e) @ w_rx w' fd"
        proof -
          have "drop k (w_rx w fd) = e @ w_rx w' fd" using ih(4) k(4) by simp
          then show ?thesis using append_take_drop_id [of k "w_rx w fd"] by simp
        qed
        have "length (?d @ e) \<le> left" using ih(5) k(1) by simp
        moreover have "r = - 1 \<and> \<not> benign w \<or>
            r = int (length d) \<and> (length (?d @ e) < left \<longrightarrow> w_rx w' fd = [])"
          using ih(6) b by auto
        moreover have "w_tx w' fd = w_tx w fd" using ih(2) k(4) by simp
        moreover have "talks fd w w'" using t1 ih(1) by (rule talks_trans)
        ultimately show ?thesis using rx ih(3) by (intro conjI exI [of _ "?d @ e"]) simp_all
      qed
    qed
  qed
qed

lemma benign_talks: "benign w \<Longrightarrow> talks fd w w' \<Longrightarrow> benign w'"
  using talks_simps(12) by (fastforce simp: benign_def)

lemma read_full_talks: "state_io_rel (talks fd) (read_full fd n)"
  by (rule state_io_relI)
    (auto simp: read_full_def readn_def split: prod.splits dest: readn_loop_result)

lemma read_full_result:
  assumes "run_state (read_full fd n) w = (x, w')"
  shows "w_tx w' fd = w_tx w fd"
    and "x = Some d \<Longrightarrow> length d = n \<and> w_rx w fd = d @ w_rx w' fd"
    and "benign w \<Longrightarrow> n \<le> length (w_rx w fd) \<Longrightarrow>
      x = Some (take n (w_rx w fd)) \<and> w_rx w' fd = drop n (w_rx w fd)"
    and "benign w \<Longrightarrow> length (w_rx w fd) < n \<Longrightarrow> x = None \<and> w_rx w' fd = []"
proof -
  obtain r b where l: "readn_loop fd n [] w = ((r, b), w')" and x: "x = (if r = int n then Some b else None)"
    using assms by (auto simp: read_full_def readn_def split: prod.splits)
  from readn_loop_result [OF l] have tx: "w_tx w' fd = w_tx w fd"
    and rx: "w_rx w fd = b @ w_rx w' fd" and len: "length b \<le> n"
    and r: "r = - 1 \<and> \<not> benign w \<or> r = int (length b) \<and> (length b < n \<longrightarrow> w_rx w' fd = [])"
    by auto
  show "w_tx w' fd = w_tx w fd" by (fact tx)
  show "x = Some d \<Longrightarrow> length d = n \<and> w_rx w fd = d @ w_rx w' fd"
    using x rx r by (auto split: if_splits)
  show "benign w \<Longrightarrow> n \<le> length (w_rx w fd) \<Longrightarrow>
      x = Some (take n (w_rx w fd)) \<and> w_rx w' fd = drop n (w_rx w fd)"
    using x rx r len by (cases "length b < n") auto
  show "benign w \<Longrightarrow> length (w_rx w fd) < n \<Longrightarrow> x = None \<and> w_rx w' fd = []"
    using x rx r len by (cases "length b < n") auto
qed

section \<open>Input is used up\<close>

text \<open>No input appears and the script does not grow.\<close>

definition shrinks :: "world \<Rightarrow> world \<Rightarrow> bool" where
  "shrinks w w' \<longleftrightarrow> (\<forall>fd. length (w_rx w' fd) \<le> length (w_rx w fd)) \<and>
     length (w_script w') \<le> length (w_script w)"

interpretation skr: world_relation shrinks
  by unfold_locales (auto simp: shrinks_def intro: le_trans)

lemma talks_shrinks: "talks fd w w' \<Longrightarrow> shrinks w w'"
  by (auto simp: talks_def shrinks_def)

lemma talks_shrinks_io: "state_io_rel (talks fd) m \<Longrightarrow> state_io_rel shrinks m"
  by (auto simp: state_io_rel_def intro: talks_shrinks)

section \<open>Worlds without failures\<close>

text \<open>Transfers may be short and descriptors late, but no call fails.\<close>

definition no_failure :: "world \<Rightarrow> bool" where
  "no_failure w \<longleftrightarrow> (\<forall>e. Fail e \<notin> set (w_script w))"

lemma syscall_no_failure:
  "no_failure w \<Longrightarrow> run_state (syscall f) w = f (rest_script w)"
  using syscall_cases [of f w] by (auto simp: no_failure_def)

lemma no_failure_rest: "no_failure w \<Longrightarrow> no_failure (rest_script w)"
  by (cases "w_script w") (auto simp: no_failure_def)

lemma no_failure_benign: "no_failure w \<Longrightarrow> benign w"
  by (auto simp: no_failure_def benign_def)

lemma no_failure_quiet: "no_failure w \<Longrightarrow> quiet w w' \<Longrightarrow> no_failure w'"
  unfolding no_failure_def quiet_def by (force dest: in_set_dropD)

lemma no_failure_talks: "no_failure w \<Longrightarrow> talks fd w w' \<Longrightarrow> no_failure w'"
  using talks_simps(12) by (fastforce simp: no_failure_def)

section \<open>Writing\<close>

text \<open>Only failures that \<open>writen\<close> retries.\<close>

definition retryable :: "world \<Rightarrow> bool" where
  "retryable w \<longleftrightarrow> (\<forall>e. Fail e \<in> set (w_script w) \<longrightarrow> e = EINTR \<or> e = EAGAIN)"

lemma benign_retryable: "benign w \<Longrightarrow> retryable w"
  by (auto simp: benign_def retryable_def)

lemma retryable_talks: "retryable w \<Longrightarrow> talks fd w w' \<Longrightarrow> retryable w'"
  using talks_simps(12) by (fastforce simp: retryable_def)

lemma writen_loop_result:
  "writen_loop fd d w = (ok, w') \<Longrightarrow>
   talks fd w w' \<and> w_rx w' fd = w_rx w fd \<and>
   (\<exists>k \<le> length d. w_tx w' fd = w_tx w fd @ take k d \<and> (ok \<longrightarrow> k = length d)) \<and>
   (retryable w \<longrightarrow> ok)"
proof (induction fd d w rule: writen_loop.induct)
  case (1 fd d w)
  show ?case
  proof (cases "d = []")
    case True
    then show ?thesis using "1.prems" by (auto simp: writen_loop.simps tkr.refl)
  next
    case False
    obtain x w1 where wr: "run_state (sys_write fd d) w = (x, w1)" by fastforce
    note step = writen_loop_step [OF False wr]
    have t1: "talks fd w w1" by (rule tkr.runD [OF sys_write_talks wr])
    have re: "retryable w \<Longrightarrow> retryable w1" using retryable_talks t1 by blast
    from sys_write_cases [of w fd d] show ?thesis
    proof
      assume "\<exists>e xs. w_script w = Fail e # xs \<and> run_state (sys_write fd d) w = (Inl e, rest_script w)"
      then obtain e xs where e: "w_script w = Fail e # xs" "x = Inl e" "w1 = rest_script w"
        using wr by auto
      consider "e = EINTR" | "e = EAGAIN" | "e \<noteq> EINTR" "e \<noteq> EAGAIN" by blast
      then show ?thesis
      proof cases
        case 1
        then have rec: "writen_loop fd d w1 = (ok, w')" using "1.prems" step e by simp
        from "1.IH"(1) [OF False wr [symmetric] e(2) 1 rec] t1 e(3) re show ?thesis
          by (auto intro: talks_trans)
      next
        case 2
        then have ne: "e \<noteq> EINTR" by simp
        let ?w = "snd (run_state (sleep_ms 10) w1)"
        have i: "idle w1 ?w" using sleep_ms_idle by (simp add: state_io_rel_def)
        then have t2: "talks fd w ?w" using t1 talks_idle talks_trans by blast
        have rec: "writen_loop fd d ?w = (ok, w')" using "1.prems" step e 2 by simp
        from "1.IH"(2) [OF False wr [symmetric] e(2) ne 2 rec] t2 e(3) idle_simps [OF i]
          retryable_talks [OF _ t2]
        show ?thesis by (auto intro: talks_trans)
      next
        case 3
        then have "(False, w1) = (ok, w')" using "1.prems" step e by simp
        moreover have "\<not> retryable w" using e 3 by (auto simp: retryable_def)
        ultimately show ?thesis using t1 e(3) by (auto intro: exI [of _ 0])
      qed
    next
      assume "\<exists>k. k \<le> length d \<and> (k < length d \<longrightarrow> w_script w \<noteq> []) \<and> run_state (sys_write fd d) w =
        (Inr k, (rest_script w)\<lparr>w_tx := (w_tx w)(fd := w_tx w fd @ take k d)\<rparr>)"
      then obtain k where k: "k \<le> length d" "x = Inr k"
        "w1 = (rest_script w)\<lparr>w_tx := (w_tx w)(fd := w_tx w fd @ take k d)\<rparr>"
        using wr by auto
      have "talks fd w1 w' \<and> w_rx w' fd = w_rx w1 fd \<and>
        (\<exists>j \<le> length (drop k d). w_tx w' fd = w_tx w1 fd @ take j (drop k d) \<and>
          (ok \<longrightarrow> j = length (drop k d))) \<and> (retryable w1 \<longrightarrow> ok)"
      proof (cases "k = 0")
        case True
        then have rec: "writen_loop fd d w1 = (ok, w')" using "1.prems" step k by simp
        from "1.IH"(3) [OF False wr [symmetric] k(2) True rec] True show ?thesis by simp
      next
        case kn: False
        then have rec: "writen_loop fd (drop k d) w1 = (ok, w')" using "1.prems" step k by simp
        from "1.IH"(4) [OF False wr [symmetric] k(2) kn rec] show ?thesis .
      qed
      then obtain j where j: "talks fd w1 w'" "w_rx w' fd = w_rx w1 fd" "j \<le> length d - k"
        "w_tx w' fd = w_tx w1 fd @ take j (drop k d)" "ok \<longrightarrow> j = length d - k" "retryable w1 \<longrightarrow> ok"
        by auto
      have "w_tx w' fd = w_tx w fd @ take (k + j) d"
        using j(4) k(3) by (simp add: take_add)
      moreover have "k + j \<le> length d" "ok \<longrightarrow> k + j = length d" using j(3,5) k(1) by auto
      ultimately show ?thesis using j(1,2,6) t1 re k(3) by (auto intro: talks_trans)
    qed
  qed
qed

lemma write_full_talks: "state_io_rel (talks fd) (write_full fd d)"
  by (rule state_io_relI)
    (auto simp: write_full_def writen_def split: prod.splits dest: writen_loop_result)

lemma write_full_result:
  assumes "run_state (write_full fd d) w = (r, w')"
  shows "w_rx w' fd = w_rx w fd"
    and "r = - 1 \<or> r = int (length d) \<and> w_tx w' fd = w_tx w fd @ d"
    and "\<exists>k \<le> length d. w_tx w' fd = w_tx w fd @ take k d"
    and "retryable w \<Longrightarrow> r = int (length d) \<and> w_tx w' fd = w_tx w fd @ d"
proof -
  obtain ok where l: "writen_loop fd d w = (ok, w')" and r: "r = (if ok then int (length d) else - 1)"
    using assms by (auto simp: write_full_def writen_def split: prod.splits)
  show "w_rx w' fd = w_rx w fd"
    "r = - 1 \<or> r = int (length d) \<and> w_tx w' fd = w_tx w fd @ d"
    "\<exists>k \<le> length d. w_tx w' fd = w_tx w fd @ take k d"
    "retryable w \<Longrightarrow> r = int (length d) \<and> w_tx w' fd = w_tx w fd @ d"
    using writen_loop_result [OF l] r by auto
qed

section \<open>Headers and paths\<close>

lemma write_full_only: "run_state (write_full fd d) w = (r, w') \<Longrightarrow> r = - 1 \<or> r = int (length d)"
  using write_full_result(2) by blast

lemma send_header_talks: "state_io_rel (talks fd) (send_header fd h)"
  unfolding send_header_def by (intro tkr.rules write_full_talks)

lemma send_header_result:
  assumes "run_state (send_header fd h) w = (r, w')"
  shows "w_rx w' fd = w_rx w fd"
    and "r = - 1 \<or> r = 0 \<and> w_tx w' fd = w_tx w fd @ header_bytes h"
    and "\<exists>k \<le> header_size. w_tx w' fd = w_tx w fd @ take k (header_bytes h)"
    and "retryable w \<Longrightarrow> r = 0 \<and> w_tx w' fd = w_tx w fd @ header_bytes h"
proof -
  obtain x where x: "run_state (write_full fd (header_bytes h)) w = (x, w')"
    "r = (if x = int header_size then 0 else - 1)"
    using assms by (auto simp: send_header_def split: prod.splits)
  note wr = write_full_result [OF x(1)]
  show "w_rx w' fd = w_rx w fd" by (rule wr(1))
  show "r = - 1 \<or> r = 0 \<and> w_tx w' fd = w_tx w fd @ header_bytes h"
    using wr(2) x(2) by auto
  show "\<exists>k \<le> header_size. w_tx w' fd = w_tx w fd @ take k (header_bytes h)"
    using wr(3) by simp
  show "retryable w \<Longrightarrow> r = 0 \<and> w_tx w' fd = w_tx w fd @ header_bytes h"
    using wr(4) x(2) by simp
qed

lemma recv_header_talks: "state_io_rel (talks fd) (recv_header fd)"
  unfolding recv_header_def by (intro tkr.rules read_full_talks)

lemma recv_header_result:
  assumes "run_state (recv_header fd) w = (x, w')"
  shows "w_tx w' fd = w_tx w fd"
    and "x = Some h \<Longrightarrow> validate_sync_header h = 0 \<and> w_rx w fd = header_bytes h @ w_rx w' fd"
    and "benign w \<Longrightarrow> w_rx w fd = header_bytes h @ rest \<Longrightarrow> validate_sync_header h = 0 \<Longrightarrow>
      x = Some h \<and> w_rx w' fd = rest"
    and "benign w \<Longrightarrow> w_rx w fd = [] \<Longrightarrow> x = None"
proof -
  obtain y where y: "run_state (read_full fd header_size) w = (y, w')"
    "x = (case y of None \<Rightarrow> None
      | Some b \<Rightarrow> let h = header_of b in if validate_sync_header h = 0 then Some h else None)"
    using assms by (auto simp: recv_header_def split: prod.splits)
  note rd = read_full_result [OF y(1)]
  show "w_tx w' fd = w_tx w fd" by (rule rd(1))
  show "validate_sync_header h = 0 \<and> w_rx w fd = header_bytes h @ w_rx w' fd" if "x = Some h"
  proof -
    from that y(2) obtain b where b: "y = Some b" "header_of b = h" "validate_sync_header h = 0"
      by (auto simp: Let_def split: option.splits if_splits)
    from rd(2) [OF b(1)] b show ?thesis by (auto simp: header_bytes_of)
  qed
  show "x = Some h \<and> w_rx w' fd = rest"
    if "benign w" "w_rx w fd = header_bytes h @ rest" "validate_sync_header h = 0"
    using rd(3) that y(2) by simp
  show "x = None" if "benign w" "w_rx w fd = []"
    using rd(4) that y(2) by (simp add: header_size_def)
qed

lemma send_path_talks: "state_io_rel (talks fd) (send_path fd p)"
  unfolding send_path_def Let_def by (intro tkr.rules write_full_talks)

lemma send_path_result:
  assumes "run_state (send_path fd p) w = (r, w')"
  shows "w_rx w' fd = w_rx w fd"
    and "r = - 1 \<or> r = 0 \<and> w_tx w' fd = w_tx w fd @ p"
    and "retryable w \<Longrightarrow> length p \<le> MAX_NET_PATH \<Longrightarrow> r = 0"
  using assms write_full_result(1,2,4) [of fd p w]
  by (auto simp: send_path_def Let_def split: prod.splits if_splits)

lemma recv_path_talks: "state_io_rel (talks fd) (recv_path fd m n)"
  unfolding recv_path_def by (intro tkr.rules read_full_talks)

lemma recv_path_result:
  assumes "run_state (recv_path fd m n) w = (x, w')"
  shows "w_tx w' fd = w_tx w fd"
    and "x = Some d \<Longrightarrow> length d = n \<and> n < m \<and> n \<le> MAX_NET_PATH \<and> w_rx w fd = d @ w_rx w' fd"
    and "benign w \<Longrightarrow> n < m \<Longrightarrow> n \<le> MAX_NET_PATH \<Longrightarrow> w_rx w fd = p @ rest \<Longrightarrow> length p = n \<Longrightarrow>
      x = Some p \<and> w_rx w' fd = rest"
proof -
  consider "x = None" "w' = w" "m \<le> n \<or> MAX_NET_PATH < n"
    | "x = Some []" "w' = w" "n = 0" "n < m"
    | "run_state (read_full fd n) w = (x, w')" "n < m" "n \<le> MAX_NET_PATH"
    using assms by (auto simp: recv_path_def not_le split: if_splits)
  then have "w_tx w' fd = w_tx w fd \<and>
    (x = Some d \<longrightarrow> length d = n \<and> n < m \<and> n \<le> MAX_NET_PATH \<and> w_rx w fd = d @ w_rx w' fd) \<and>
    (benign w \<longrightarrow> n < m \<longrightarrow> n \<le> MAX_NET_PATH \<longrightarrow> w_rx w fd = p @ rest \<longrightarrow> length p = n \<longrightarrow>
      x = Some p \<and> w_rx w' fd = rest)"
  proof cases
    case 3
    have "x = Some p \<and> w_rx w' fd = rest" if "benign w" "w_rx w fd = p @ rest" "length p = n"
      using read_full_result(3) [OF 3(1) that(1)] that by simp
    then show ?thesis using read_full_result(1,2) [OF 3(1)] 3 by blast
  qed auto
  then show "w_tx w' fd = w_tx w fd"
    and "x = Some d \<Longrightarrow> length d = n \<and> n < m \<and> n \<le> MAX_NET_PATH \<and> w_rx w fd = d @ w_rx w' fd"
    and "benign w \<Longrightarrow> n < m \<Longrightarrow> n \<le> MAX_NET_PATH \<Longrightarrow> w_rx w fd = p @ rest \<Longrightarrow> length p = n \<Longrightarrow>
      x = Some p \<and> w_rx w' fd = rest"
    by blast+
qed

lemma send_ack_talks: "state_io_rel (talks fd) (send_ack fd off)"
  unfolding send_ack_def by (rule send_header_talks)

lemma send_error_talks: "state_io_rel (talks fd) (send_error fd m)"
  unfolding send_error_def Let_def by (intro tkr.rules send_header_talks write_full_talks)

lemma send_ack_result:
  assumes "run_state (send_ack fd off) w = (r, w')"
  shows "w_rx w' fd = w_rx w fd"
    and "r = - 1 \<or> r = 0 \<and> w_tx w' fd = w_tx w fd @
      header_bytes ((init_sync_header MSG_ACK)\<lparr>h_offset := off\<rparr>)"
    and "retryable w \<Longrightarrow> r = 0"
  using send_header_result(1,2,4) assms unfolding send_ack_def by blast+

lemma send_error_rx:
  assumes "run_state (send_error fd m) w = (r, w')"
  shows "w_rx w' fd = w_rx w fd"
proof -
  obtain s w1 where s: "run_state (send_header fd (error_header m)) w = (s, w1)" by fastforce
  show ?thesis
  proof (cases "s < 0")
    case True
    then show ?thesis using assms s send_header_result(1) [OF s]
      by (simp add: send_error_def Let_def)
  next
    case False
    then obtain x where "run_state (write_full fd (take (unat (h_path_len (error_header m))) m)) w1 = (x, w')"
      using assms s by (auto simp: send_error_def Let_def split: prod.splits)
    from write_full_result(1) [OF this] send_header_result(1) [OF s] show ?thesis by simp
  qed
qed

lemma valid_init: "validate_sync_header h = 0 \<longleftrightarrow>
  h_magic h = PROTOCOL_MAGIC \<and> h_version h = PROTOCOL_VERSION \<and> unat (h_path_len h) \<le> MAX_NET_PATH"
  by (simp add: validate_sync_header_def)

lemmas talk_rules = send_header_talks recv_header_talks send_path_talks recv_path_talks
  send_ack_talks send_error_talks read_full_talks write_full_talks

end
