(* ===== verification/Tasks.thy ===== *)
theory Tasks
  imports NetLaws
begin

text \<open>
  \<open>SyncTask\<close> of \<^verbatim>\<open>include/task.h\<close>, its image on the event pipe (1576 bytes with the padding
  of the C struct), and the helpers of \<^verbatim>\<open>src/task_queue.c\<close> that do not concern the queue;
  \<open>ClientConfig\<close> of \<^verbatim>\<open>include/common.h\<close>.
\<close>

abbreviation PATH_BUF :: nat where "PATH_BUF \<equiv> 512"

record sync_task =
  t_event_type :: "32 word"
  t_src_path :: path
  t_rel_path :: string
  t_old_rel_path :: string
  t_file_size :: "64 word"
  t_mode :: "32 word"
  t_mtime :: "64 word"
  t_is_dir :: "32 word"
  t_retry_count :: "32 word"

abbreviation EVENT_CREATE :: "32 word" where "EVENT_CREATE \<equiv> 1"
abbreviation EVENT_MODIFY :: "32 word" where "EVENT_MODIFY \<equiv> 2"
abbreviation EVENT_DELETE :: "32 word" where "EVENT_DELETE \<equiv> 3"
abbreviation EVENT_RENAME :: "32 word" where "EVENT_RENAME \<equiv> 4"
abbreviation EVENT_FULLSCAN :: "32 word" where "EVENT_FULLSCAN \<equiv> 5"
abbreviation EVENT_EXIT :: "32 word" where "EVENT_EXIT \<equiv> 99"
abbreviation MAX_RETRY_COUNT :: "32 word" where "MAX_RETRY_COUNT \<equiv> 3"

definition event_type_to_string :: "32 word \<Rightarrow> string" where
  "event_type_to_string e =
     (if e = EVENT_CREATE then ''CREATE''
      else if e = EVENT_MODIFY then ''MODIFY''
      else if e = EVENT_DELETE then ''DELETE''
      else if e = EVENT_RENAME then ''RENAME''
      else if e = EVENT_FULLSCAN then ''FULLSCAN''
      else if e = EVENT_EXIT then ''EXIT''
      else ''UNKNOWN'')"

definition init_sync_task :: sync_task where
  "init_sync_task = \<lparr>t_event_type = 0, t_src_path = [], t_rel_path = [], t_old_rel_path = [],
     t_file_size = 0, t_mode = 0, t_mtime = 0, t_is_dir = 0, t_retry_count = 0\<rparr>"

definition sync_task_same_target :: "sync_task \<Rightarrow> sync_task \<Rightarrow> bool" where
  "sync_task_same_target a b \<longleftrightarrow> t_rel_path a = t_rel_path b"

section \<open>The image of a task\<close>

text \<open>The struct starts with a four-byte field and two arrays of eight-byte fields follow, so
  there are four bytes of padding behind the last path and behind the mode.\<close>

definition task_size :: nat where "task_size = 1576"

definition padding :: bytes where "padding = replicate 4 NUL"

definition task_bytes :: "sync_task \<Rightarrow> bytes" where
  "task_bytes t = u32_bytes (t_event_type t) @ char_array PATH_BUF (t_src_path t) @
     char_array PATH_BUF (t_rel_path t) @ char_array PATH_BUF (t_old_rel_path t) @ padding @
     u64_bytes (t_file_size t) @ u32_bytes (t_mode t) @ padding @ u64_bytes (t_mtime t) @
     u32_bytes (t_is_dir t) @ u32_bytes (t_retry_count t)"

definition array_at :: "nat \<Rightarrow> bytes \<Rightarrow> string" where
  "array_at i b = cstr (take PATH_BUF (drop i b))"

definition task_of :: "bytes \<Rightarrow> sync_task" where
  "task_of b = \<lparr>t_event_type = u32_at 0 b, t_src_path = array_at 4 b, t_rel_path = array_at 516 b,
     t_old_rel_path = array_at 1028 b, t_file_size = u64_at 1544 b, t_mode = u32_at 1552 b,
     t_mtime = u64_at 1560 b, t_is_dir = u32_at 1568 b, t_retry_count = u32_at 1572 b\<rparr>"

definition fits_buf :: "string \<Rightarrow> bool" where
  "fits_buf s \<longleftrightarrow> is_cstr s \<and> length s < PATH_BUF"

definition task_fits :: "sync_task \<Rightarrow> bool" where
  "task_fits t \<longleftrightarrow> fits_buf (t_src_path t) \<and> fits_buf (t_rel_path t) \<and> fits_buf (t_old_rel_path t)"

lemma length_padding [simp]: "length padding = 4"
  by (simp add: padding_def)

lemma length_task_bytes [simp]: "length (task_bytes t) = task_size"
  by (simp add: task_bytes_def task_size_def)

lemma array_at_skip [simp]: "length a \<le> i \<Longrightarrow> array_at i (a @ r) = array_at (i - length a) r"
  by (simp add: array_at_def)

lemma array_at_here [simp]: "fits_buf s \<Longrightarrow> array_at 0 (char_array PATH_BUF s @ r) = s"
  by (simp add: array_at_def fits_buf_def cstr_char_array)

lemma task_of_bytes: "task_fits t \<Longrightarrow> task_of (task_bytes t) = t"
  by (cases t) (simp add: task_of_def task_bytes_def task_fits_def)

lemma array_at_fits: "array_at i b = s \<Longrightarrow> is_cstr s \<and> length s \<le> PATH_BUF"
  using length_cstr [of "take PATH_BUF (drop i b)"] by (auto simp: array_at_def)

interpretation tc: fixed_codec task_bytes task_of task_size task_fits
  by unfold_locales (simp_all add: task_size_def task_of_bytes)

section \<open>The configuration of the client\<close>

abbreviation MODE_LOCAL :: int where "MODE_LOCAL \<equiv> 1"
abbreviation MODE_REMOTE :: int where "MODE_REMOTE \<equiv> 2"

record client_config =
  cc_mode :: int
  cc_src_root :: path
  cc_dst_root :: path
  cc_server_ip :: string
  cc_port :: int
  cc_thread_count :: int
  cc_block_size :: int
  cc_debounce_ms :: int
  cc_hash_threshold :: int
  cc_log_path :: path

end
