(* ===== verification/TaskQueue.thy ===== *)
theory TaskQueue
  imports Tasks "HOL-Library.AList"
begin

text \<open>
  The queue of \<^verbatim>\<open>src/task_queue.c\<close>: a linked list of heap nodes with a front and a rear
  pointer. The heap maps addresses to nodes; following a pointer that is not allocated is
  \<open>None\<close>, the undefined behaviour of C. Every operation runs under the queue's mutex, so it is
  one step. \<open>queue_repr\<close> relates the pointers to the list of queued tasks.
\<close>

section \<open>Definitions\<close>

record task_node =
  n_task :: sync_task
  n_next :: "nat option"

type_synonym node_heap = "(nat \<times> task_node) list"

record task_queue =
  q_heap :: node_heap
  q_brk :: nat
  q_front :: "nat option"
  q_rear :: "nat option"
  q_size :: int
  q_stopped :: bool

definition task_queue_init :: "node_heap \<Rightarrow> nat \<Rightarrow> task_queue" where
  "task_queue_init heap brk = \<lparr>q_heap = heap, q_brk = brk, q_front = None, q_rear = None,
     q_size = 0, q_stopped = False\<rparr>"

abbreviation heap_at :: "node_heap \<Rightarrow> nat \<Rightarrow> task_node option" where
  "heap_at h a \<equiv> map_of h a"

text \<open>\<^verbatim>\<open>calloc\<close> takes the next address that was never used.\<close>

definition task_queue_push :: "bool \<Rightarrow> task_queue \<Rightarrow> sync_task \<Rightarrow> (int \<times> task_queue) option" where
  "task_queue_push calloc_ok q task =
     (if \<not> calloc_ok then Some (- 1, q)
      else
        let node = q_brk q; heap = AList.update node \<lparr>n_task = task, n_next = None\<rparr> (q_heap q);
            q1 = q\<lparr>q_heap := heap, q_brk := Suc (q_brk q)\<rparr>
        in
        if q_stopped q then Some (- 1, q1\<lparr>q_heap := AList.delete node heap\<rparr>)
        else
          case q_rear q of
            Some r \<Rightarrow>
              (case heap_at heap r of
                 None \<Rightarrow> None
               | Some rn \<Rightarrow>
                   Some (0, q1\<lparr>q_heap := AList.update r (rn\<lparr>n_next := Some node\<rparr>) heap,
                     q_rear := Some node, q_size := q_size q + 1\<rparr>))
          | None \<Rightarrow> Some (0, q1\<lparr>q_front := Some node, q_rear := Some node, q_size := q_size q + 1\<rparr>))"

text \<open>A pop waits, or finds the queue stopped and empty, or takes a task.\<close>

datatype pop_result = Waits | Stopped | Popped sync_task

definition task_queue_pop :: "task_queue \<Rightarrow> (pop_result \<times> task_queue) option" where
  "task_queue_pop q =
     (if q_size q = 0 \<and> \<not> q_stopped q then Some (Waits, q)
      else if q_size q = 0 \<and> q_stopped q then Some (Stopped, q)
      else case q_front q of
        None \<Rightarrow> None
      | Some a \<Rightarrow>
          (case heap_at (q_heap q) a of
             None \<Rightarrow> None
           | Some node \<Rightarrow>
               let rear = (if n_next node = None then None else q_rear q) in
               Some (Popped (n_task node),
                 q\<lparr>q_front := n_next node, q_rear := rear, q_size := q_size q - 1,
                   q_heap := AList.delete a (q_heap q)\<rparr>)))"

definition task_queue_stop :: "task_queue \<Rightarrow> task_queue" where
  "task_queue_stop q = q\<lparr>q_stopped := True\<rparr>"

text \<open>Freeing every node from \<open>p\<close> on.\<close>

function free_nodes :: "node_heap \<Rightarrow> nat option \<Rightarrow> node_heap option" where
  "free_nodes h None = Some h"
| "free_nodes h (Some a) =
     (case heap_at h a of
        None \<Rightarrow> None
      | Some node \<Rightarrow> free_nodes (AList.delete a h) (n_next node))"
  by pat_completeness auto
termination
proof (relation "measure (\<lambda>(h, p). length h)", goal_cases)
  case 1
  show ?case by simp
next
  case (2 h a node)
  then have "(a, node) \<in> set h" by (simp add: map_of_SomeD)
  then show ?case
    by (auto simp: AList.delete_eq intro!: length_filter_less)
qed

definition task_queue_destroy :: "task_queue \<Rightarrow> task_queue option" where
  "task_queue_destroy q =
     (case free_nodes (q_heap q) (q_front q) of
        None \<Rightarrow> None
      | Some h \<Rightarrow> Some (q\<lparr>q_heap := h, q_front := None, q_rear := None, q_size := 0\<rparr>))"

section \<open>The list behind the pointers\<close>

fun chain :: "node_heap \<Rightarrow> nat option \<Rightarrow> nat list \<Rightarrow> bool" where
  "chain h p [] = (p = None)"
| "chain h p (a # as) =
     (p = Some a \<and> (case heap_at h a of None \<Rightarrow> False | Some node \<Rightarrow> chain h (n_next node) as))"

definition node_task :: "node_heap \<Rightarrow> nat \<Rightarrow> sync_task" where
  "node_task h a = n_task (the (heap_at h a))"

text \<open>
  \<open>queue_repr B q as xs\<close>: the nodes \<open>as\<close> hold the tasks \<open>xs\<close>, the rear pointer is the last of
  them, and the heap holds these nodes and the \<open>B\<close> of others, and nothing else.
\<close>

definition queue_nodes :: "nat set \<Rightarrow> task_queue \<Rightarrow> nat list \<Rightarrow> sync_task list \<Rightarrow> bool" where
  "queue_nodes B q as xs \<longleftrightarrow> chain (q_heap q) (q_front q) as \<and> distinct as \<and>
     map (node_task (q_heap q)) as = xs \<and>
     q_rear q = (if as = [] then None else Some (last as)) \<and> q_size q = int (length xs) \<and>
     fst ` set (q_heap q) = set as \<union> B \<and> set as \<inter> B = {} \<and> (\<forall>a \<in> set as \<union> B. a < q_brk q)"

definition queue_repr :: "nat set \<Rightarrow> task_queue \<Rightarrow> sync_task list \<Rightarrow> bool" where
  "queue_repr B q xs \<longleftrightarrow> (\<exists>as. queue_nodes B q as xs)"

lemma chain_frame:
  "\<forall>a \<in> set as. heap_at h' a = heap_at h a \<Longrightarrow> chain h' p as = chain h p as"
  by (induction as arbitrary: p) (auto split: option.splits)

lemma node_task_frame:
  "\<forall>a \<in> set as. heap_at h' a = heap_at h a \<Longrightarrow> map (node_task h') as = map (node_task h) as"
  by (simp add: node_task_def)

lemma chain_allocated: "chain h p as \<Longrightarrow> a \<in> set as \<Longrightarrow> heap_at h a \<noteq> None"
  by (induction as arbitrary: p) (auto split: option.splits)

lemma chain_snoc:
  "chain h p (as @ [r]) \<Longrightarrow> distinct (as @ [r]) \<Longrightarrow> heap_at h r = Some rn \<Longrightarrow> z \<notin> set (as @ [r]) \<Longrightarrow>
   chain (AList.update r (rn\<lparr>n_next := Some z\<rparr>) (AList.update z \<lparr>n_task = t, n_next = None\<rparr> h)) p
     (as @ [r, z])"
  by (induction as arbitrary: p) (auto simp: update_conv' split: option.splits)

lemma heap_dom_update: "fst ` set (AList.update k v al) = insert k (fst ` set al)"
  using dom_update [of k v al] by simp

lemma heap_dom_delete: "fst ` set (AList.delete k al) = fst ` set al - {k}"
  using delete_keys [of k al] by (simp add: AList.delete_eq) (auto simp: image_iff)

section \<open>Each operation on the list\<close>

lemma init_repr: "fst ` set h = B \<Longrightarrow> \<forall>a \<in> B. a < b \<Longrightarrow> queue_repr B (task_queue_init h b) []"
  by (auto simp: queue_repr_def queue_nodes_def task_queue_init_def intro!: exI [of _ "[]"])

lemma push_repr:
  assumes "queue_repr B q xs"
  shows "\<exists>q'. task_queue_push ok q t = Some (if ok \<and> \<not> q_stopped q then 0 else - 1, q') \<and>
    q_stopped q' = q_stopped q \<and> queue_repr B q' (if ok \<and> \<not> q_stopped q then xs @ [t] else xs)"
proof (cases "ok \<and> \<not> q_stopped q")
  case False
  obtain as where as: "queue_nodes B q as xs" using assms by (auto simp: queue_repr_def)
  show ?thesis
  proof (cases ok)
    case True
    let ?h = "AList.delete (q_brk q) (AList.update (q_brk q) \<lparr>n_task = t, n_next = None\<rparr> (q_heap q))"
    have same: "\<forall>a \<in> set as. heap_at ?h a = heap_at (q_heap q) a"
      using as by (auto simp: queue_nodes_def update_conv' delete_conv')
    have "q_brk q \<notin> set as \<union> B" using as by (auto simp: queue_nodes_def)
    then have "queue_nodes B (q\<lparr>q_brk := Suc (q_brk q), q_heap := ?h\<rparr>) as xs"
      using as chain_frame [OF same] node_task_frame [OF same]
      by (auto simp: queue_nodes_def heap_dom_update heap_dom_delete less_Suc_eq)
    then show ?thesis using True False
      by (auto simp: task_queue_push_def Let_def queue_repr_def)
  qed (use assms in \<open>auto simp: task_queue_push_def\<close>)
next
  case True
  obtain as where as: "queue_nodes B q as xs" using assms by (auto simp: queue_repr_def)
  let ?z = "q_brk q"
  let ?h = "AList.update ?z \<lparr>n_task = t, n_next = None\<rparr> (q_heap q)"
  have z: "?z \<notin> set as" "?z \<notin> B" using as by (auto simp: queue_nodes_def)
  show ?thesis
  proof (cases as rule: rev_cases)
    case Nil
    then have "queue_nodes B (q\<lparr>q_heap := ?h, q_brk := Suc ?z, q_front := Some ?z, q_rear := Some ?z,
        q_size := q_size q + 1\<rparr>) [?z] (xs @ [t])"
      using as z by (auto simp: queue_nodes_def heap_dom_update node_task_def update_conv' less_Suc_eq)
    moreover have "q_rear q = None" using as Nil by (simp add: queue_nodes_def)
    ultimately show ?thesis using True
      by (auto simp: task_queue_push_def Let_def queue_repr_def)
  next
    case (snoc bs r)
    have ch: "chain (q_heap q) (q_front q) (bs @ [r])" and d: "distinct (bs @ [r])"
      and rear: "q_rear q = Some r"
      using as snoc by (auto simp: queue_nodes_def)
    obtain rn where rn: "heap_at (q_heap q) r = Some rn"
      using chain_allocated [OF ch, of r] by auto
    have zr: "?z \<noteq> r" using z snoc by auto
    then have rn': "heap_at ?h r = Some rn" using rn by (simp add: update_conv')
    let ?h2 = "AList.update r (rn\<lparr>n_next := Some ?z\<rparr>) ?h"
    have ch2: "chain ?h2 (q_front q) (as @ [?z])"
      using chain_snoc [OF ch d rn, of ?z t] z snoc by simp
    have nt: "\<forall>a \<in> set as. node_task ?h2 a = node_task (q_heap q) a" "node_task ?h2 ?z = t"
      using z zr rn by (auto simp: node_task_def update_conv')
    have dom: "fst ` set ?h2 = insert ?z (set as \<union> B)"
      using as snoc by (auto simp: queue_nodes_def heap_dom_update)
    have "map (node_task ?h2) (as @ [?z]) = xs @ [t]"
      using nt as by (auto simp: queue_nodes_def)
    moreover have "\<forall>a \<in> set as \<union> B. a < ?z" using as by (simp add: queue_nodes_def)
    ultimately have "queue_nodes B (q\<lparr>q_brk := Suc ?z, q_heap := ?h2, q_rear := Some ?z,
        q_size := q_size q + 1\<rparr>) (as @ [?z]) (xs @ [t])"
      using as z ch2 dom by (auto simp: queue_nodes_def less_Suc_eq)
    then show ?thesis using True rear rn'
      by (auto simp: task_queue_push_def Let_def queue_repr_def)
  qed
qed

lemma pop_repr:
  assumes "queue_repr B q xs"
  shows "\<exists>r q'. task_queue_pop q = Some (r, q') \<and> q_stopped q' = q_stopped q \<and>
    (case xs of
       [] \<Rightarrow> q' = q \<and> r = (if q_stopped q then Stopped else Waits)
     | x # ys \<Rightarrow> r = Popped x \<and> queue_repr B q' ys)"
proof -
  obtain as where as: "queue_nodes B q as xs" using assms by (auto simp: queue_repr_def)
  show ?thesis
  proof (cases as)
    case Nil
    then show ?thesis using as by (auto simp: queue_nodes_def task_queue_pop_def)
  next
    case (Cons a bs)
    have ch: "chain (q_heap q) (q_front q) (a # bs)" and d: "distinct (a # bs)"
      and sz: "q_size q = int (length xs)" and xs: "map (node_task (q_heap q)) (a # bs) = xs"
      using as Cons by (auto simp: queue_nodes_def)
    obtain node where node: "heap_at (q_heap q) a = Some node" "chain (q_heap q) (n_next node) bs"
      "q_front q = Some a"
      using ch by (auto split: option.splits)
    let ?h = "AList.delete a (q_heap q)"
    have same: "\<forall>b \<in> set bs. heap_at ?h b = heap_at (q_heap q) b"
      using d by (auto simp: delete_conv')
    have nn: "n_next node = None \<longleftrightarrow> bs = []" using node(2) by (cases bs) auto
    let ?q = "q\<lparr>q_front := n_next node, q_rear := (if n_next node = None then None else q_rear q),
        q_size := q_size q - 1, q_heap := ?h\<rparr>"
    obtain ys where ys: "xs = n_task node # ys" "ys = map (node_task (q_heap q)) bs"
      using xs node(1) by (auto simp: node_task_def)
    have "queue_nodes B ?q bs ys"
      using as Cons node d sz ys nn chain_frame [OF same] node_task_frame [OF same]
      by (auto simp: queue_nodes_def heap_dom_delete)
    moreover have "task_queue_pop q = Some (Popped (n_task node), ?q)"
      using sz ys node by (simp add: task_queue_pop_def Let_def)
    ultimately show ?thesis using ys by (auto simp: queue_repr_def)
  qed
qed

lemma stop_repr: "queue_repr B q xs \<Longrightarrow> queue_repr B (task_queue_stop q) xs"
  by (simp add: queue_repr_def queue_nodes_def task_queue_stop_def)

lemma free_nodes_chain:
  "chain h p as \<Longrightarrow> distinct as \<Longrightarrow> fst ` set h = set as \<union> B \<Longrightarrow> set as \<inter> B = {} \<Longrightarrow>
   \<exists>h'. free_nodes h p = Some h' \<and> fst ` set h' = B"
proof (induction as arbitrary: h p)
  case Nil
  then show ?case by simp
next
  case (Cons a as)
  then obtain node where node: "heap_at h a = Some node" "chain h (n_next node) as" "p = Some a"
    by (auto split: option.splits)
  have same: "\<forall>b \<in> set as. heap_at (AList.delete a h) b = heap_at h b"
    using Cons.prems(2) by (auto simp: delete_conv')
  have "\<exists>h'. free_nodes (AList.delete a h) (n_next node) = Some h' \<and> fst ` set h' = B"
    using Cons.prems node chain_frame [OF same]
    by (intro Cons.IH) (auto simp: heap_dom_delete)
  then show ?case using node by simp
qed

lemma destroy_repr:
  assumes "queue_repr B q xs"
  shows "\<exists>q'. task_queue_destroy q = Some q' \<and> queue_repr B q' [] \<and> fst ` set (q_heap q') = B"
proof -
  obtain as where as: "queue_nodes B q as xs" using assms by (auto simp: queue_repr_def)
  then obtain h where h: "free_nodes (q_heap q) (q_front q) = Some h" "fst ` set h = B"
    using free_nodes_chain [of "q_heap q" "q_front q" as B] by (auto simp: queue_nodes_def)
  let ?q = "q\<lparr>q_heap := h, q_front := None, q_rear := None, q_size := 0\<rparr>"
  have "queue_nodes B ?q [] []" using as h(2) by (auto simp: queue_nodes_def)
  then show ?thesis using h by (auto simp: task_queue_destroy_def queue_repr_def)
qed

end
