(* ===== verification/QueueLaws.thy ===== *)
theory QueueLaws
  imports TaskQueue Samples
begin

text \<open>
  The interface of the task queue: a state machine over a list of tasks and a stop flag.
  \<open>fifo_queue\<close> is what schedulers and workers rely on; the pointer structure of \<open>TaskQueue\<close>
  implements it.
\<close>

section \<open>The abstract queue\<close>

datatype queue_op = Push bool sync_task | Pop | Stop

datatype op_out = Pushed int | PopOut pop_result | Done

type_synonym fifo_state = "sync_task list \<times> bool"

fun fifo_step :: "queue_op \<Rightarrow> fifo_state \<Rightarrow> op_out \<times> fifo_state" where
  "fifo_step (Push ok t) (xs, st) =
     (if ok \<and> \<not> st then (Pushed 0, (xs @ [t], st)) else (Pushed (- 1), (xs, st)))"
| "fifo_step Pop (xs, st) =
     (case xs of
        [] \<Rightarrow> (PopOut (if st then Stopped else Waits), (xs, st))
      | x # ys \<Rightarrow> (PopOut (Popped x), (ys, st)))"
| "fifo_step Stop (xs, st) = (Done, (xs, True))"

fun fifo_run :: "queue_op list \<Rightarrow> fifo_state \<Rightarrow> op_out list \<times> fifo_state" where
  "fifo_run [] s = ([], s)"
| "fifo_run (op # ops) s =
     (let (out, s1) = fifo_step op s; (outs, s2) = fifo_run ops s1 in (out # outs, s2))"

text \<open>A run of an implementation; \<open>None\<close> is a bad memory access.\<close>

fun run_ops :: "(queue_op \<Rightarrow> 'q \<Rightarrow> (op_out \<times> 'q) option) \<Rightarrow> queue_op list \<Rightarrow> 'q \<Rightarrow> (op_out list \<times> 'q) option" where
  "run_ops step [] q = Some ([], q)"
| "run_ops step (op # ops) q =
     (case step op q of
        None \<Rightarrow> None
      | Some (out, q1) \<Rightarrow>
          (case run_ops step ops q1 of None \<Rightarrow> None | Some (outs, q2) \<Rightarrow> Some (out # outs, q2)))"

text \<open>The tasks that were accepted and the tasks that were handed out.\<close>

fun accepted :: "queue_op list \<Rightarrow> op_out list \<Rightarrow> sync_task list" where
  "accepted (Push ok t # ops) (Pushed r # outs) = (if r = 0 then [t] else []) @ accepted ops outs"
| "accepted (op # ops) (out # outs) = accepted ops outs"
| "accepted _ _ = []"

fun handed_out :: "op_out list \<Rightarrow> sync_task list" where
  "handed_out (PopOut (Popped t) # outs) = t # handed_out outs"
| "handed_out (out # outs) = handed_out outs"
| "handed_out [] = []"

lemma fifo_order:
  "fifo_run ops (xs, st) = (outs, (ys, st')) \<Longrightarrow> handed_out outs @ ys = xs @ accepted ops outs"
proof (induction ops arbitrary: xs st outs)
  case Nil
  then show ?case by auto
next
  case (Cons op ops)
  obtain out s1 outs1 where s: "fifo_step op (xs, st) = (out, s1)" "fifo_run ops s1 = (outs1, (ys, st'))"
    "outs = out # outs1"
    using Cons.prems by (auto split: prod.splits)
  show ?case
  proof (cases op)
    case (Push ok t)
    then show ?thesis using s Cons.IH by (auto split: if_splits)
  next
    case Pop
    then show ?thesis using s Cons.IH by (cases xs) (auto split: if_splits)
  next
    case Stop
    then show ?thesis using s Cons.IH by auto
  qed
qed

locale fifo_queue =
  fixes step :: "queue_op \<Rightarrow> 'q \<Rightarrow> (op_out \<times> 'q) option" and rep :: "'q \<Rightarrow> fifo_state \<Rightarrow> bool"
  assumes step_refines: "rep q s \<Longrightarrow> fifo_step op s = (out, s') \<Longrightarrow> \<exists>q'. step op q = Some (out, q') \<and> rep q' s'"
begin

lemma run_refines:
  "rep q s \<Longrightarrow> fifo_run ops s = (outs, s') \<Longrightarrow> \<exists>q'. run_ops step ops q = Some (outs, q') \<and> rep q' s'"
proof (induction ops arbitrary: q s outs)
  case Nil
  then show ?case by simp
next
  case (Cons op ops)
  obtain out s1 outs1 where s: "fifo_step op s = (out, s1)" "fifo_run ops s1 = (outs1, s')"
    "outs = out # outs1"
    using Cons.prems(2) by (auto split: prod.splits)
  obtain q1 where q1: "step op q = Some (out, q1)" "rep q1 s1"
    using step_refines [OF Cons.prems(1) s(1)] by blast
  obtain q2 where "run_ops step ops q1 = Some (outs1, q2)" "rep q2 s'"
    using Cons.IH [OF q1(2) s(2)] by blast
  then show ?case using q1 s by simp
qed

lemma run_order:
  assumes "rep q (xs, st)"
  shows "\<exists>outs q' ys st'. run_ops step ops q = Some (outs, q') \<and> rep q' (ys, st') \<and>
    handed_out outs @ ys = xs @ accepted ops outs"
proof -
  obtain outs ys st' where "fifo_run ops (xs, st) = (outs, (ys, st'))" by (metis prod.collapse)
  with run_refines [OF assms this] fifo_order [OF this] show ?thesis by blast
qed

end

section \<open>The implementation\<close>

fun queue_step :: "queue_op \<Rightarrow> task_queue \<Rightarrow> (op_out \<times> task_queue) option" where
  "queue_step (Push ok t) q = map_option (map_prod Pushed id) (task_queue_push ok q t)"
| "queue_step Pop q = map_option (map_prod PopOut id) (task_queue_pop q)"
| "queue_step Stop q = Some (Done, task_queue_stop q)"

definition queue_rep :: "nat set \<Rightarrow> task_queue \<Rightarrow> fifo_state \<Rightarrow> bool" where
  "queue_rep B q s \<longleftrightarrow> queue_repr B q (fst s) \<and> q_stopped q = snd s"

interpretation tq: fifo_queue queue_step "queue_rep B" for B
proof
  fix q s op out s'
  assume r: "queue_rep B q s" and st: "fifo_step op s = (out, s')"
  obtain xs b where s: "s = (xs, b)" by fastforce
  have q: "queue_repr B q xs" "q_stopped q = b" using r s by (simp_all add: queue_rep_def)
  show "\<exists>q'. queue_step op q = Some (out, q') \<and> queue_rep B q' s'"
  proof (cases op)
    case (Push ok t)
    show ?thesis
      using push_repr [OF q(1), of ok t] q(2) st s Push
      by (auto simp: queue_rep_def split: if_splits)
  next
    case Pop
    show ?thesis
    proof (cases xs)
      case Nil
      then show ?thesis using pop_repr [OF q(1)] q st s Pop
        by (auto simp: queue_rep_def split: if_splits)
    next
      case (Cons x ys)
      then show ?thesis using pop_repr [OF q(1)] q st s Pop by (auto simp: queue_rep_def)
    qed
  next
    case Stop
    then show ?thesis using stop_repr [OF q(1)] q st s
      by (auto simp: queue_rep_def task_queue_stop_def)
  qed
qed

lemma queue_rep_init: "queue_rep {} (task_queue_init [] b) ([], False)"
  using init_repr [of "[]" "{}" b] by (simp add: queue_rep_def task_queue_init_def)

section \<open>Properties\<close>

text \<open>C19: The linked list of the task queue behaves as a list of tasks with a stop flag: any
  sequence of pushes, pops and stops of a fresh queue follows no dangling pointer and gives the
  results of the abstract first-in-first-out queue.\<close>

theorem task_queue_refines_fifo:
  "\<exists>q'. run_ops queue_step ops (task_queue_init [] b) = Some (fst (fifo_run ops ([], False)), q') \<and>
     queue_repr {} q' (fst (snd (fifo_run ops ([], False)))) \<and>
     q_stopped q' = snd (snd (fifo_run ops ([], False)))"
  using tq.run_refines [OF queue_rep_init, of ops] by (metis prod.collapse queue_rep_def)

text \<open>C20: No task is lost, duplicated or reordered: what has been handed out, followed by what is
  still in the queue, is what has been accepted, in the order of the pushes.\<close>

theorem task_queue_in_order:
  "\<exists>outs q' ys. run_ops queue_step ops (task_queue_init [] b) = Some (outs, q') \<and>
     queue_repr {} q' ys \<and> handed_out outs @ ys = accepted ops outs"
  using tq.run_order [OF queue_rep_init, of ops] by (auto simp: queue_rep_def)

text \<open>C34: Destroying the queue after any use frees every node exactly once: the walk follows no
  freed pointer and no node of the queue is left allocated.\<close>

theorem task_queue_destroy_frees_all:
  "\<exists>outs q1 q2. run_ops queue_step ops (task_queue_init [] b) = Some (outs, q1) \<and>
     task_queue_destroy q1 = Some q2 \<and> q_heap q2 = [] \<and> q_front q2 = None"
proof -
  obtain outs q1 ys where r: "run_ops queue_step ops (task_queue_init [] b) = Some (outs, q1)"
    "queue_repr {} q1 ys"
    using tq.run_order [OF queue_rep_init [of b], of ops] unfolding queue_rep_def fst_conv by blast
  from destroy_repr [OF r(2)] show ?thesis
    using r(1) by (auto simp: task_queue_destroy_def split: option.splits)
qed

end
