(* ===== verification/Logger.thy ===== *)
theory Logger
  imports NetLaws FileUtils
begin

text \<open>
  \<^verbatim>\<open>src/logger.c\<close>: log records travel through a pipe as fixed-size structs; the logger
  process turns each into a line of the log file and of the standard output. The lines are
  collected in \<open>w_log\<close> of the world, apart from the file tree.
\<close>

section \<open>Records\<close>

record log_msg =
  lm_pid :: "32 word"
  lm_level :: "32 word"
  lm_message :: string

abbreviation LOG_INFO :: "32 word" where "LOG_INFO \<equiv> 1"
abbreviation LOG_WARN :: "32 word" where "LOG_WARN \<equiv> 2"
abbreviation LOG_ERROR :: "32 word" where "LOG_ERROR \<equiv> 3"
abbreviation LOG_DEBUG :: "32 word" where "LOG_DEBUG \<equiv> 4"
abbreviation LOG_EXIT :: "32 word" where "LOG_EXIT \<equiv> 99"
abbreviation MAX_LOG_LEN :: nat where "MAX_LOG_LEN \<equiv> 1024"

definition log_size :: nat where "log_size = 1032"

definition log_bytes :: "log_msg \<Rightarrow> bytes" where
  "log_bytes m = u32_bytes (lm_pid m) @ u32_bytes (lm_level m) @ char_array MAX_LOG_LEN (lm_message m)"

definition log_of :: "bytes \<Rightarrow> log_msg" where
  "log_of b = \<lparr>lm_pid = u32_at 0 b, lm_level = u32_at 4 b, lm_message = cstr (take MAX_LOG_LEN (drop 8 b))\<rparr>"

definition log_fits :: "log_msg \<Rightarrow> bool" where
  "log_fits m \<longleftrightarrow> is_cstr (lm_message m) \<and> length (lm_message m) < MAX_LOG_LEN"

lemma length_log_bytes [simp]: "length (log_bytes m) = log_size"
  by (simp add: log_bytes_def log_size_def)

lemma log_of_bytes: "log_fits m \<Longrightarrow> log_of (log_bytes m) = m"
  by (cases m) (simp add: log_of_def log_bytes_def log_fits_def cstr_char_array)

interpretation lc: fixed_codec log_bytes log_of log_size log_fits
  by unfold_locales (simp_all add: log_size_def log_of_bytes)

definition log_level_to_string :: "32 word \<Rightarrow> string" where
  "log_level_to_string level =
     (if level = LOG_INFO then ''INFO''
      else if level = LOG_WARN then ''WARN''
      else if level = LOG_ERROR then ''ERROR''
      else if level = LOG_DEBUG then ''DEBUG''
      else if level = LOG_EXIT then ''EXIT''
      else ''UNKNOWN'')"

section \<open>Sending\<close>

text \<open>
  The variable arguments are formatted by the caller; \<open>message\<close> is the formatted text, of which
  \<^verbatim>\<open>vsnprintf\<close> keeps 1023 characters.
\<close>

definition get_pid :: "32 word prog" where
  "get_pid = State (\<lambda>w. (word_of_int (w_pid w), w))"

definition log_message_v :: "int \<Rightarrow> 32 word \<Rightarrow> string \<Rightarrow> unit prog" where
  "log_message_v log_fd level message =
     (if log_fd < 0 then ret ()
      else do {
        pid \<leftarrow> get_pid;
        let msg = \<lparr>lm_pid = pid, lm_level = level, lm_message = fst (snprintf_s MAX_LOG_LEN message)\<rparr>;
        _ \<leftarrow> write_full log_fd (log_bytes msg);
        ret ()
      })"

definition log_message :: "int \<Rightarrow> 32 word \<Rightarrow> string \<Rightarrow> unit prog" where
  "log_message log_fd level message = log_message_v log_fd level message"

lemma log_message_talks: "state_io_rel (talks fd) (log_message fd level m)"
proof -
  have "state_io_rel (talks fd) get_pid"
    by (rule state_io_relI) (auto simp: get_pid_def tkr.refl)
  then show ?thesis
    unfolding log_message_def log_message_v_def Let_def
    by (intro tkr.rules write_full_talks)
qed

section \<open>The logger process\<close>

abbreviation stdout :: path where "stdout \<equiv> ''<stdout>''"

definition time_text :: "tm \<Rightarrow> string" where
  "time_text t = dec (tm_year t) @ ''-'' @ pad2 (tm_mon t) @ ''-'' @ pad2 (tm_mday t) @ '' '' @
     pad2 (tm_hour t) @ '':'' @ pad2 (tm_min t) @ '':'' @ pad2 (tm_sec t)"

text \<open>\<^verbatim>\<open>strftime\<close> stores nothing when the text does not fit.\<close>

definition format_time :: "nat \<Rightarrow> string prog" where
  "format_time out_size = do {
     t \<leftarrow> get_localtime;
     ret (if length (time_text t) < out_size then time_text t else [])
   }"

definition log_line :: "string \<Rightarrow> log_msg \<Rightarrow> string" where
  "log_line ts m = ''['' @ ts @ ''] ['' @ log_level_to_string (lm_level m) @ ''] [pid='' @
     show_int (sint (lm_pid m)) @ ''] '' @ lm_message m @ [CHR 0x0A]"

definition sys_append :: "path \<Rightarrow> string \<Rightarrow> (errno + unit) prog" where
  "sys_append p line = syscall (\<lambda>w. (Inr (), w\<lparr>w_log := w_log w @ [(p, line)]\<rparr>))"

definition write_log_record :: "path \<Rightarrow> log_msg \<Rightarrow> int prog" where
  "write_log_record fp msg = do {
     ts \<leftarrow> format_time 32;
     r \<leftarrow> sys_append fp (log_line ts msg);
     ret (case r of Inl _ \<Rightarrow> - 1 | Inr _ \<Rightarrow> 0)
   }"

definition write_both :: "path \<Rightarrow> log_msg \<Rightarrow> unit prog" where
  "write_both fp msg = do {
     _ \<leftarrow> write_log_record fp msg;
     if fp \<noteq> stdout then do { _ \<leftarrow> write_log_record stdout msg; ret () } else ret ()
   }"

text \<open>Only the log and the script change while a record is written.\<close>

definition logs_only :: "world \<Rightarrow> world \<Rightarrow> bool" where
  "logs_only w w' \<longleftrightarrow> w_fs w' = w_fs w \<and> w_cwd w' = w_cwd w \<and> w_rx w' = w_rx w \<and> w_tx w' = w_tx w \<and>
     w_time w' = w_time w \<and> w_localtime w' = w_localtime w \<and> prefix (w_log w) (w_log w') \<and>
     (\<exists>j. w_script w' = drop j (w_script w))"

lemma logs_only_refl: "w_script w' = w_script w \<Longrightarrow> w_fs w' = w_fs w \<Longrightarrow> w_cwd w' = w_cwd w \<Longrightarrow>
   w_rx w' = w_rx w \<Longrightarrow> w_tx w' = w_tx w \<Longrightarrow> w_time w' = w_time w \<Longrightarrow>
   w_localtime w' = w_localtime w \<Longrightarrow> prefix (w_log w) (w_log w') \<Longrightarrow> logs_only w w'"
  unfolding logs_only_def by (auto intro: exI [of _ 0])

lemma logs_only_trans: "logs_only u v \<Longrightarrow> logs_only v w \<Longrightarrow> logs_only u w"
  unfolding logs_only_def by (metis drop_drop prefix_order.trans)

interpretation lgr: world_relation logs_only
proof
  show "logs_only w w" for w by (rule logs_only_refl) simp_all
  show "logs_only w (rest_script w)" for w
    unfolding logs_only_def by (auto simp: drop_Suc intro: exI [of _ 1])
qed (rule logs_only_trans)

lemma write_log_record_logs: "state_io_rel logs_only (write_log_record fp m)"
  unfolding write_log_record_def format_time_def sys_append_def
  by (intro lgr.rules lgr.calls lgr.syscall) (simp add: logs_only_refl)

lemma write_both_logs: "state_io_rel logs_only (write_both fp m)"
  unfolding write_both_def by (intro lgr.rules write_log_record_logs)

text \<open>
  The loop ends at the end of the stream, at a broken or failing read, and after an EXIT record.
  (A broken record at the end of the stream is read again when an old \<^verbatim>\<open>EINTR\<close> is still in
  \<^verbatim>\<open>errno\<close>; the second read finds the end and the loop stops as well.)
\<close>

lemma readn_takes:
  assumes "run_state (readn fd n) w = (r, w1)"
  shows "length (w_rx w1 fd) + length (snd r) = length (w_rx w fd)"
    and "fst r = int n \<Longrightarrow> length (snd r) = n"
proof -
  obtain s d where r: "r = (s, d)" by fastforce
  with assms have "readn_loop fd n [] w = ((s, d), w1)" by (simp add: readn_def)
  from readn_loop_result [OF this]
  have *: "w_rx w fd = d @ w_rx w1 fd" "s = - 1 \<or> s = int (length d)" by auto
  then show "length (w_rx w1 fd) + length (snd r) = length (w_rx w fd)" using r by simp
  show "fst r = int n \<Longrightarrow> length (snd r) = n" using * r by auto
qed

function logger_loop :: "int \<Rightarrow> path \<Rightarrow> world \<Rightarrow> unit \<times> world" where
  "logger_loop fd fp w =
     (case run_state (readn fd log_size) w of (n, w1) \<Rightarrow>
        if fst n \<noteq> int log_size then ((), w1)
        else if lm_level (log_of (snd n)) = LOG_EXIT
          then ((), snd (run_state (write_both fp (log_of (snd n))) w1))
          else logger_loop fd fp (snd (run_state (write_both fp (log_of (snd n))) w1)))"
  by pat_completeness auto
termination
proof (relation "measure (\<lambda>(fd, fp, w). length (w_rx w fd))", goal_cases)
  case 1
  show ?case by simp
next
  case (2 fd fp w n w1)
  then have r: "run_state (readn fd log_size) w = (n, w1)" and f: "fst n = int log_size" by simp_all
  have "logs_only w1 (snd (run_state (write_both fp m) w1))" for m
    using write_both_logs [of fp m] by (simp add: state_io_rel_def)
  then show ?case
    using readn_takes [OF r] f by (simp add: logs_only_def log_size_def)
qed

declare logger_loop.simps [simp del]

definition logger_process :: "int \<Rightarrow> path \<Rightarrow> unit prog" where
  "logger_process log_read_fd log_path = do {
     r \<leftarrow> syscall (\<lambda>w. (Inr () :: errno + unit, w));
     State (logger_loop log_read_fd (case r of Inl _ \<Rightarrow> stdout | Inr _ \<Rightarrow> log_path))
   }"

section \<open>What the log holds\<close>

definition stamp_now :: "world \<Rightarrow> string" where
  "stamp_now w = (let t = time_text (w_localtime w (w_time w)) in if length t < 32 then t else [])"

definition lines_of :: "world \<Rightarrow> path \<Rightarrow> log_msg \<Rightarrow> (path \<times> string) list" where
  "lines_of w fp m = (fp, log_line (stamp_now w) m) #
     (if fp \<noteq> stdout then [(stdout, log_line (stamp_now w) m)] else [])"

lemma write_both_run:
  "w_script w = [] \<Longrightarrow> run_state (write_both fp m) w = ((), w\<lparr>w_log := w_log w @ lines_of w fp m\<rparr>)"
  by (simp add: write_both_def write_log_record_def format_time_def get_localtime_def sys_append_def
      run_syscall lines_of_def stamp_now_def Let_def)

lemma readn_exact:
  assumes "w_script w = []" and "w_rx w fd = b @ rest" and "length b = n"
  shows "\<exists>w1. run_state (readn fd n) w = ((int n, b), w1) \<and> w_rx w1 fd = rest \<and>
    talks fd w w1 \<and> w_tx w1 = w_tx w"
proof -
  obtain s d w1 where l: "readn_loop fd n [] w = ((s, d), w1)" by (metis prod.collapse)
  note R = readn_loop_result [OF l]
  have rx: "w_rx w fd = d @ w_rx w1 fd" and len: "length d \<le> n"
    and s: "s = int (length d) \<and> (length d < n \<longrightarrow> w_rx w1 fd = [])"
    using R benign_Nil [OF assms(1)] by auto
  have "\<not> length d < n" using rx s assms(2,3) by auto
  then have "d = b" "w_rx w1 fd = rest" using rx assms(2,3) len by auto
  moreover have "w_tx w1 = w_tx w"
  proof
    fix f show "w_tx w1 f = w_tx w f" using R talks_simps(9) [of fd w w1 f] by (cases "f = fd") auto
  qed
  ultimately show ?thesis using l R s assms(3) by (auto simp: readn_def)
qed

lemma logger_step:
  assumes "w_script w = []" and "w_rx w fd = log_bytes m @ rest" and "log_fits m"
  shows "\<exists>w2. w_script w2 = [] \<and> w_rx w2 fd = rest \<and> w_log w2 = w_log w @ lines_of w fp m \<and>
    stamp_now w2 = stamp_now w \<and>
    logger_loop fd fp w = (if lm_level m = LOG_EXIT then ((), w2) else logger_loop fd fp w2)"
proof -
  obtain w1 where r: "run_state (readn fd log_size) w = ((int log_size, log_bytes m), w1)"
    and w1: "w_rx w1 fd = rest" "talks fd w w1"
    using readn_exact [OF assms(1,2)] by auto
  have s: "w_script w1 = []" "w_log w1 = w_log w" "stamp_now w1 = stamp_now w"
    using talks_simps [OF w1(2)] assms(1) by (simp_all add: stamp_now_def)
  let ?w2 = "w1\<lparr>w_log := w_log w1 @ lines_of w1 fp m\<rparr>"
  have "logger_loop fd fp w = (if lm_level m = LOG_EXIT then ((), ?w2) else logger_loop fd fp ?w2)"
    using assms(3) by (subst logger_loop.simps) (simp add: r log_of_bytes Let_def write_both_run s(1))
  then show ?thesis
    using s w1(1) by (intro exI [of _ ?w2]) (simp add: lines_of_def stamp_now_def)
qed

lemma logger_loop_until_exit:
  assumes "w_script w = []" and "w_rx w fd = concat (map log_bytes (ms @ [x])) @ rest"
    and "\<forall>m \<in> set ms. log_fits m \<and> lm_level m \<noteq> LOG_EXIT" and "log_fits x" and "lm_level x = LOG_EXIT"
  shows "w_log (snd (logger_loop fd fp w)) = w_log w @ concat (map (lines_of w fp) (ms @ [x])) \<and>
    w_rx (snd (logger_loop fd fp w)) fd = rest"
  using assms
proof (induction ms arbitrary: w)
  case Nil
  then obtain w2 where "w_rx w2 fd = rest" "w_log w2 = w_log w @ lines_of w fp x"
    "logger_loop fd fp w = ((), w2)"
    using logger_step [of w fd x rest fp] by auto
  then show ?case by simp
next
  case (Cons m ms)
  let ?rest = "concat (map log_bytes (ms @ [x])) @ rest"
  have rx: "w_rx w fd = log_bytes m @ ?rest" using Cons.prems(2) by simp
  obtain w2 where w2: "w_script w2 = []" "w_rx w2 fd = ?rest" "w_log w2 = w_log w @ lines_of w fp m"
    "stamp_now w2 = stamp_now w" "logger_loop fd fp w = logger_loop fd fp w2"
    using logger_step [OF Cons.prems(1) rx, of fp] Cons.prems(3) by auto
  have "lines_of w2 fp = lines_of w fp" using w2(4) by (simp add: lines_of_def fun_eq_iff)
  then show ?case using Cons.IH [OF w2(1,2)] Cons.prems(3-5) w2(3,5) by simp
qed

text \<open>A sent message arrives as the record it is, cut to what the buffer holds.\<close>

definition log_record :: "world \<Rightarrow> 32 word \<Rightarrow> string \<Rightarrow> log_msg" where
  "log_record w level message =
     \<lparr>lm_pid = word_of_int (w_pid w), lm_level = level, lm_message = take 1023 message\<rparr>"

lemma is_cstr_take [simp]: "is_cstr s \<Longrightarrow> is_cstr (take n s)"
  by (auto simp: is_cstr_def dest: in_set_takeD)

lemma log_record_fits: "is_cstr m \<Longrightarrow> log_fits (log_record w l m)"
  by (simp add: log_fits_def log_record_def)

lemma log_message_sends:
  assumes "retryable w" and "0 \<le> fd"
  shows "w_tx (snd (run_state (log_message fd l m) w)) fd = w_tx w fd @ log_bytes (log_record w l m)"
proof -
  obtain r w' where wr: "run_state (write_full fd (log_bytes (log_record w l m))) w = (r, w')" by fastforce
  then have "run_state (log_message fd l m) w = ((), w')"
    using assms(2) by (simp add: log_message_def log_message_v_def get_pid_def log_record_def
        snprintf_s_def Let_def)
  then show ?thesis using write_full_result(4) [OF wr assms(1)] by simp
qed

end
