(* ===== verification/Sockets.thy ===== *)
theory Sockets
  imports NetLaws
begin

text \<open>
  The sockets of \<^verbatim>\<open>src/net_utils.c\<close>. Descriptors are given by the kernel: \<open>sock\<close> is the one that
  \<^verbatim>\<open>socket\<close> returns. Every call may fail by the script of the world; a port is cut to 16 bits, as
  \<^verbatim>\<open>htons((uint16_t)port)\<close> does.
\<close>

text \<open>What \<^verbatim>\<open>inet_pton(AF_INET, ...)\<close> accepts: four decimal bytes without leading zeros.\<close>

definition octet_ok :: "string \<Rightarrow> bool" where
  "octet_ok s \<longleftrightarrow> s \<noteq> [] \<and> length s \<le> 3 \<and> list_all is_digit s \<and> dec_val s \<le> 255 \<and>
     (hd s = CHR ''0'' \<longrightarrow> length s = 1)"

definition inet_pton_ok :: "string \<Rightarrow> bool" where
  "inet_pton_ok ip \<longleftrightarrow> length (split_on (CHR ''.'') ip) = 4 \<and> list_all octet_ok (split_on (CHR ''.'') ip)"

definition sys_socket :: "(errno + unit) prog" where
  "sys_socket = syscall (\<lambda>w. (Inr (), w))"

definition sys_connect :: "string \<Rightarrow> 16 word \<Rightarrow> (errno + unit) prog" where
  "sys_connect ip port = syscall (\<lambda>w. (Inr (), w))"

definition sys_reuse_address :: "(errno + unit) prog" where
  "sys_reuse_address = syscall (\<lambda>w. (Inr (), w))"

definition sys_bind :: "16 word \<Rightarrow> (errno + unit) prog" where
  "sys_bind port = syscall (\<lambda>w. (Inr (), w))"

definition sys_listen :: "int \<Rightarrow> (errno + unit) prog" where
  "sys_listen backlog = syscall (\<lambda>w. (Inr (), w))"

definition create_client_socket :: "int \<Rightarrow> string \<Rightarrow> int \<Rightarrow> int prog" where
  "create_client_socket sock server_ip port = do {
     s \<leftarrow> sys_socket;
     (case s of
        Inl _ \<Rightarrow> ret (- 1)
      | Inr _ \<Rightarrow>
          if \<not> inet_pton_ok server_ip then ret (- 1)
          else do {
            c \<leftarrow> sys_connect server_ip (word_of_int port);
            ret (case c of Inl _ \<Rightarrow> - 1 | Inr _ \<Rightarrow> sock)
          })
   }"

text \<open>The error number of the call that failed is what the caller finds in \<^verbatim>\<open>errno\<close>.\<close>

definition create_server_socket :: "int \<Rightarrow> int \<Rightarrow> int \<Rightarrow> (errno + int) prog" where
  "create_server_socket sock port backlog = do {
     s \<leftarrow> sys_socket;
     (case s of
        Inl e \<Rightarrow> ret (Inl e)
      | Inr _ \<Rightarrow> do {
          o' \<leftarrow> sys_reuse_address;
          (case o' of
             Inl e \<Rightarrow> ret (Inl e)
           | Inr _ \<Rightarrow> do {
               b \<leftarrow> sys_bind (word_of_int port);
               (case b of
                  Inl e \<Rightarrow> ret (Inl e)
                | Inr _ \<Rightarrow> do {
                    l \<leftarrow> sys_listen backlog;
                    ret (case l of Inl e \<Rightarrow> Inl e | Inr _ \<Rightarrow> Inr sock)
                  })
             })
        })
   }"

section \<open>Texts of errors\<close>

text \<open>\<^verbatim>\<open>strerror\<close> in the C locale; \<open>EOTHER n\<close> is a number without a text of its own.\<close>

fun strerror :: "errno \<Rightarrow> string" where
  "strerror EINTR = ''Interrupted system call''"
| "strerror EAGAIN = ''Resource temporarily unavailable''"
| "strerror ENOENT = ''No such file or directory''"
| "strerror EEXIST = ''File exists''"
| "strerror ENOTDIR = ''Not a directory''"
| "strerror EISDIR = ''Is a directory''"
| "strerror ENOTEMPTY = ''Directory not empty''"
| "strerror EXDEV = ''Invalid cross-device link''"
| "strerror EINVAL = ''Invalid argument''"
| "strerror EBUSY = ''Device or resource busy''"
| "strerror EACCES = ''Permission denied''"
| "strerror EIO = ''Input/output error''"
| "strerror ENOSPC = ''No space left on device''"
| "strerror EPIPE = ''Broken pipe''"
| "strerror EBADF = ''Bad file descriptor''"
| "strerror ENOMEM = ''Cannot allocate memory''"
| "strerror (EOTHER n) = ''Unknown error '' @ dec n"

end
