(* ===== verification/Scheduler.thy ===== *)
theory Scheduler
  imports Slots QueueLaws Logger Sockets
begin

text \<open>
  The scheduler thread of \<^verbatim>\<open>src/transfer.c\<close>: the table of pending tasks that debounces events,
  and the loop that reads tasks from the event pipe and hands them to the queue. The queue is
  the abstract first-in-first-out queue that \<open>QueueLaws\<close> refines.
\<close>

section \<open>The pending table\<close>

record pending_task =
  p_used :: bool
  p_task :: sync_task
  p_last_update_ms :: int

definition empty_pending :: pending_task where
  "empty_pending = \<lparr>p_used = False, p_task = init_sync_task, p_last_update_ms = 0\<rparr>"

abbreviation MAX_PENDING_TASKS :: nat where "MAX_PENDING_TASKS \<equiv> 4096"

type_synonym pending_table = "pending_task list"

abbreviation pending_key :: "pending_task \<Rightarrow> string" where "pending_key p \<equiv> t_rel_path (p_task p)"

definition pending_find :: "pending_table \<Rightarrow> string \<Rightarrow> nat option" where
  "pending_find table rel_path = index_of (\<lambda>p. p_used p \<and> pending_key p = rel_path) table"

definition pending_remove :: "pending_table \<Rightarrow> string \<Rightarrow> pending_table" where
  "pending_remove table rel_path =
     (case pending_find table rel_path of Some i \<Rightarrow> table[i := empty_pending] | None \<Rightarrow> table)"

text \<open>\<^verbatim>\<open>current_time_ms\<close> is called only when there is a slot.\<close>

definition pending_update_or_insert :: "pending_table \<Rightarrow> sync_task \<Rightarrow> pending_table prog" where
  "pending_update_or_insert table task =
     (let idx = (case pending_find table (t_rel_path task) of
                   Some i \<Rightarrow> Some i
                 | None \<Rightarrow> index_of (\<lambda>p. \<not> p_used p) table)
      in case idx of
           None \<Rightarrow> ret table
         | Some i \<Rightarrow> do {
             now \<leftarrow> current_time_ms;
             ret (table[i := \<lparr>p_used = True, p_task = task, p_last_update_ms = now\<rparr>])
           })"

text \<open>One push; the node may not be allocated, and the result is not looked at.\<close>

definition push_task :: "fifo_state \<Rightarrow> sync_task \<Rightarrow> fifo_state prog" where
  "push_task q t = do {
     m \<leftarrow> sys_malloc 1584;
     ret (snd (fifo_step (Push (\<not> isl m) t) q))
   }"

fun flush_slots :: "(pending_task \<Rightarrow> bool) \<Rightarrow> pending_table \<Rightarrow> fifo_state \<Rightarrow> (pending_table \<times> fifo_state) prog" where
  "flush_slots due [] q = ret ([], q)"
| "flush_slots due (p # ps) q =
     (if p_used p \<and> due p then do {
        q1 \<leftarrow> push_task q (p_task p);
        r \<leftarrow> flush_slots due ps q1;
        ret (empty_pending # fst r, snd r)
      }
      else do {
        r \<leftarrow> flush_slots due ps q;
        ret (p # fst r, snd r)
      })"

definition pending_flush_stable_tasks ::
  "pending_table \<Rightarrow> fifo_state \<Rightarrow> int \<Rightarrow> (pending_table \<times> fifo_state) prog" where
  "pending_flush_stable_tasks table queue debounce_ms = do {
     now \<leftarrow> current_time_ms;
     flush_slots (\<lambda>p. now - p_last_update_ms p \<ge> debounce_ms) table queue
   }"

definition pending_flush_all :: "pending_table \<Rightarrow> fifo_state \<Rightarrow> (pending_table \<times> fifo_state) prog" where
  "pending_flush_all table queue = flush_slots (\<lambda>_. True) table queue"

interpretation pt: slot_table p_used pending_key empty_pending
  by unfold_locales (simp add: empty_pending_def)

definition pending_lookup :: "pending_table \<Rightarrow> string \<Rightarrow> pending_task option" where
  "pending_lookup = slot_lookup p_used pending_key"

section \<open>The scheduler thread\<close>

record transfer_ctx =
  c_config :: client_config
  c_event_read_fd :: int
  c_log_fd :: int
  c_queue :: fifo_state
  c_pending :: pending_table
  c_stop :: bool

definition should_debounce :: "sync_task \<Rightarrow> bool" where
  "should_debounce task \<longleftrightarrow> t_event_type task = EVENT_MODIFY \<or> t_event_type task = EVENT_CREATE \<or>
     t_event_type task = EVENT_FULLSCAN"

text \<open>
  \<^verbatim>\<open>select\<close> on one descriptor with a timeout: a scripted short call is a timeout, otherwise the
  descriptor is readable (there is input, or it is at its end).
\<close>

definition sys_select :: "int \<Rightarrow> int \<Rightarrow> (errno + bool) prog" where
  "sys_select fd timeout_ms = State (\<lambda>w.
     run_state (syscall (\<lambda>w1.
       (case w_script w of
          Short k # _ \<Rightarrow>
            (let t = snd (w_mono w1) + timeout_ms * 1000000 in
             (Inr False, w1\<lparr>w_mono := (fst (w_mono w1) + t div 1000000000, t mod 1000000000)\<rparr>))
        | _ \<Rightarrow> (Inr True, w1)))) w)"

text \<open>What the scheduler does with a task from the pipe; \<open>False\<close> leaves the loop.\<close>

definition schedule_task :: "transfer_ctx \<Rightarrow> sync_task \<Rightarrow> (bool \<times> transfer_ctx) prog" where
  "schedule_task ctx task =
     (if t_event_type task = EVENT_EXIT then do {
        _ \<leftarrow> log_message (c_log_fd ctx) LOG_INFO ''scheduler: received EXIT'';
        ret (False, ctx)
      }
      else if t_event_type task = EVENT_DELETE \<or> t_event_type task = EVENT_RENAME then do {
        let p1 = pending_remove (c_pending ctx) (t_rel_path task);
        let p2 = (if t_old_rel_path task \<noteq> [] then pending_remove p1 (t_old_rel_path task) else p1);
        q \<leftarrow> push_task (c_queue ctx) task;
        _ \<leftarrow> log_message (c_log_fd ctx) LOG_DEBUG (''scheduler: enqueue immediate '' @
              event_type_to_string (t_event_type task) @ '' '' @ t_rel_path task);
        ret (True, ctx\<lparr>c_pending := p2, c_queue := q\<rparr>)
      }
      else if should_debounce task then do {
        p \<leftarrow> pending_update_or_insert (c_pending ctx) task;
        _ \<leftarrow> log_message (c_log_fd ctx) LOG_DEBUG (''scheduler: debounce update '' @
              event_type_to_string (t_event_type task) @ '' '' @ t_rel_path task);
        ret (True, ctx\<lparr>c_pending := p\<rparr>)
      }
      else do {
        q \<leftarrow> push_task (c_queue ctx) task;
        ret (True, ctx\<lparr>c_queue := q\<rparr>)
      })"

definition flush_stable :: "transfer_ctx \<Rightarrow> (bool \<times> transfer_ctx) prog" where
  "flush_stable ctx = do {
     r \<leftarrow> pending_flush_stable_tasks (c_pending ctx) (c_queue ctx) (cc_debounce_ms (c_config ctx));
     ret (True, ctx\<lparr>c_pending := fst r, c_queue := snd r\<rparr>)
   }"

text \<open>One round of the loop; \<open>False\<close> when it leaves the loop.\<close>

definition scheduler_round :: "transfer_ctx \<Rightarrow> (bool \<times> transfer_ctx) prog" where
  "scheduler_round ctx = do {
     ready \<leftarrow> sys_select (c_event_read_fd ctx) 100;
     (case ready of
        Inl e \<Rightarrow>
          if e = EINTR then ret (True, ctx)
          else do {
            _ \<leftarrow> log_message (c_log_fd ctx) LOG_ERROR (''scheduler: select failed: '' @ strerror e);
            ret (False, ctx)
          }
      | Inr r \<Rightarrow>
          if r then do {
            n \<leftarrow> read_full (c_event_read_fd ctx) task_size;
            (case n of
               None \<Rightarrow> do {
                 _ \<leftarrow> log_message (c_log_fd ctx) LOG_WARN ''scheduler: event pipe closed or partial read'';
                 ret (False, ctx)
               }
             | Some b \<Rightarrow> do {
                 s \<leftarrow> schedule_task ctx (task_of b);
                 if fst s then flush_stable (snd s) else ret s
               })
          }
          else flush_stable ctx)
   }"

lemma clock_quiet: "state_io_rel quiet current_time_ms"
  unfolding current_time_ms_def sys_clock_def
  by (intro qr.rules qr.syscall) (simp add: quiet_refl)

lemma push_task_quiet: "state_io_rel quiet (push_task q t)"
  unfolding push_task_def by (intro qr.rules qr.calls)

lemma flush_slots_quiet: "state_io_rel quiet (flush_slots due ps q)"
  by (induction due ps q rule: flush_slots.induct)
    (auto intro!: qr.rules push_task_quiet)

lemma flush_stable_quiet: "state_io_rel quiet (flush_stable ctx)"
  unfolding flush_stable_def pending_flush_stable_tasks_def
  by (intro qr.rules clock_quiet flush_slots_quiet)

lemma update_or_insert_quiet: "state_io_rel quiet (pending_update_or_insert table task)"
  unfolding pending_update_or_insert_def Let_def
  by (intro qr.rules clock_quiet)

lemma schedule_task_shrinks: "state_io_rel shrinks (schedule_task ctx task)"
  unfolding schedule_task_def Let_def
  by (intro skr.rules talks_shrinks_io [OF log_message_talks] skr.quiet_io [OF push_task_quiet]
      skr.quiet_io [OF update_or_insert_quiet])

lemma sys_select_cases:
  assumes "run_state (sys_select fd ms) w = (x, w1)"
  shows "shrinks w w1" and "x \<noteq> Inr True \<Longrightarrow> length (w_script w1) < length (w_script w)"
    and "w_fs w1 = w_fs w"
proof -
  let ?f = "\<lambda>w1. (case w_script w of
          Short k # _ \<Rightarrow>
            (let t = snd (w_mono w1) + ms * 1000000 in
             (Inr False, w1\<lparr>w_mono := (fst (w_mono w1) + t div 1000000000, t mod 1000000000)\<rparr>))
        | _ \<Rightarrow> (Inr True, w1))"
  have run: "run_state (syscall ?f) w = (x, w1)" using assms by (simp add: sys_select_def)
  have "shrinks w w1 \<and> w_fs w1 = w_fs w \<and> (x \<noteq> Inr True \<longrightarrow> length (w_script w1) < length (w_script w))"
    using syscall_cases [of ?f w]
  proof
    assume "run_state (syscall ?f) w = ?f (rest_script w)"
    then have "?f (rest_script w) = (x, w1)" using run by simp
    then show ?thesis
      by (auto simp: shrinks_def Let_def split: list.splits outcome.splits)
  next
    assume "\<exists>e xs. w_script w = Fail e # xs \<and> run_state (syscall ?f) w = (Inl e, rest_script w)"
    then obtain e xs where "w_script w = Fail e # xs" "w1 = rest_script w" using run by auto
    then show ?thesis by (simp add: shrinks_def)
  qed
  then show "shrinks w w1" "x \<noteq> Inr True \<Longrightarrow> length (w_script w1) < length (w_script w)"
    "w_fs w1 = w_fs w" by blast+
qed

lemma schedule_task_ctx:
  "run_state (schedule_task ctx task) w = ((go, ctx'), w') \<Longrightarrow>
   c_event_read_fd ctx' = c_event_read_fd ctx \<and> c_config ctx' = c_config ctx \<and>
   c_log_fd ctx' = c_log_fd ctx \<and> c_stop ctx' = c_stop ctx"
  by (auto simp: schedule_task_def Let_def split: if_splits prod.splits)

lemma flush_stable_ctx:
  "run_state (flush_stable ctx) w = ((go, ctx'), w') \<Longrightarrow>
   go \<and> c_event_read_fd ctx' = c_event_read_fd ctx \<and> c_config ctx' = c_config ctx \<and>
   c_log_fd ctx' = c_log_fd ctx \<and> c_stop ctx' = c_stop ctx"
  by (auto simp: flush_stable_def split: prod.splits)

lemma flush_stable_shrinks: "run_state (flush_stable ctx) w = (r, w') \<Longrightarrow> shrinks w w'"
  by (rule skr.runD [OF skr.quiet_io [OF flush_stable_quiet]])

lemma scheduler_round_progress:
  assumes "run_state (scheduler_round ctx) w = ((go, ctx'), w')"
  shows "c_event_read_fd ctx' = c_event_read_fd ctx \<and> c_config ctx' = c_config ctx \<and>
    c_log_fd ctx' = c_log_fd ctx \<and> c_stop ctx' = c_stop ctx"
    and "go \<Longrightarrow> length (w_script w') + length (w_rx w' (c_event_read_fd ctx)) <
      length (w_script w) + length (w_rx w (c_event_read_fd ctx))"
proof -
  let ?fd = "c_event_read_fd ctx"
  let ?same = "c_event_read_fd ctx' = c_event_read_fd ctx \<and> c_config ctx' = c_config ctx \<and>
    c_log_fd ctx' = c_log_fd ctx \<and> c_stop ctx' = c_stop ctx"
  let ?less = "go \<longrightarrow> length (w_script w') + length (w_rx w' ?fd) < length (w_script w) + length (w_rx w ?fd)"
  obtain x w1 where sel: "run_state (sys_select ?fd 100) w = (x, w1)" by fastforce
  note sc = sys_select_cases [OF sel]
  have "?same \<and> ?less"
  proof (cases "x = Inr True")
    case True
    obtain n w2 where rd: "run_state (read_full ?fd task_size) w1 = (n, w2)" by fastforce
    show ?thesis
    proof (cases n)
      case None
      then show ?thesis using assms sel True rd
        by (auto simp: scheduler_round_def split: prod.splits)
    next
      case (Some b)
      obtain go1 ctx1 w3 where s: "run_state (schedule_task ctx (task_of b)) w2 = ((go1, ctx1), w3)"
        by (metis prod.collapse)
      have len: "length (w_rx w2 ?fd) + task_size = length (w_rx w1 ?fd)"
        using read_full_result(2) [OF rd Some] by simp
      have sh: "shrinks w1 w2" "shrinks w2 w3"
        using skr.runD [OF talks_shrinks_io [OF read_full_talks] rd]
          skr.runD [OF schedule_task_shrinks s] by blast+
      show ?thesis
      proof (cases go1)
        case False
        then show ?thesis using assms sel True rd Some s schedule_task_ctx [OF s]
          by (auto simp: scheduler_round_def)
      next
        case go1: True
        then have f: "run_state (flush_stable ctx1) w3 = ((go, ctx'), w')"
          using assms sel True rd Some s by (auto simp: scheduler_round_def)
        have "shrinks w w'" "shrinks w2 w'"
          using sc(1) sh flush_stable_shrinks [OF f] skr.trans by blast+
        then have "length (w_script w') \<le> length (w_script w)"
          and "length (w_rx w' ?fd) \<le> length (w_rx w2 ?fd)" by (simp_all add: shrinks_def)
        moreover have "length (w_rx w1 ?fd) \<le> length (w_rx w ?fd)" using sc(1) by (simp add: shrinks_def)
        ultimately have ?less using len by (simp add: task_size_def)
        then show ?thesis using schedule_task_ctx [OF s] flush_stable_ctx [OF f] by simp
      qed
    qed
  next
    case False
    then have less: "length (w_script w1) < length (w_script w)" by (rule sc(2))
    have le: "length (w_rx w1 ?fd) \<le> length (w_rx w ?fd)" using sc(1) by (simp add: shrinks_def)
    show ?thesis
    proof (cases x)
      case (Inl e)
      then show ?thesis using assms sel less le
        by (auto simp: scheduler_round_def split: if_splits prod.splits)
    next
      case (Inr r)
      then have f: "run_state (flush_stable ctx) w1 = ((go, ctx'), w')"
        using assms sel False by (auto simp: scheduler_round_def)
      have "shrinks w1 w'" by (rule flush_stable_shrinks [OF f])
      then have "length (w_script w') \<le> length (w_script w1)"
        and "length (w_rx w' ?fd) \<le> length (w_rx w1 ?fd)" by (simp_all add: shrinks_def)
      then have ?less using less le by linarith
      then show ?thesis using flush_stable_ctx [OF f] by simp
    qed
  qed
  then show ?same and "go \<Longrightarrow> length (w_script w') + length (w_rx w' ?fd) <
      length (w_script w) + length (w_rx w ?fd)" by blast+
qed

function scheduler_loop :: "transfer_ctx \<Rightarrow> world \<Rightarrow> transfer_ctx \<times> world" where
  "scheduler_loop ctx w =
     (if c_stop ctx then (ctx, w)
      else case run_state (scheduler_round ctx) w of ((go, ctx1), w1) \<Rightarrow>
        if go then scheduler_loop ctx1 w1 else (ctx1, w1))"
  by pat_completeness auto
termination
proof (relation "measure (\<lambda>(ctx, w). length (w_script w) + length (w_rx w (c_event_read_fd ctx)))",
    goal_cases)
  case 1
  show ?case by simp
next
  case (2 ctx w x w1 go ctx1)
  then have r: "run_state (scheduler_round ctx) w = ((go, ctx1), w1)" and go by simp_all
  from scheduler_round_progress [OF r] \<open>go\<close> show ?case by simp
qed

declare scheduler_loop.simps [simp del]

text \<open>The thread: the loop, then everything that is pending is pushed and the queue is stopped.\<close>

definition scheduler_thread_main :: "transfer_ctx \<Rightarrow> transfer_ctx prog" where
  "scheduler_thread_main ctx = do {
     c \<leftarrow> State (scheduler_loop ctx);
     r \<leftarrow> pending_flush_all (c_pending c) (c_queue c);
     ret (c\<lparr>c_pending := fst r, c_queue := snd (fifo_step Stop (snd r)), c_stop := True\<rparr>)
   }"

end
