(* ===== verification/SchedulerLaws.thy ===== *)
theory SchedulerLaws
  imports Scheduler
begin

text \<open>
  Debouncing loses no update: what the scheduler pushed, together with what is pending, covers
  every event that was read and not overtaken by a later one for the same path.
\<close>

section \<open>The table operations as map updates\<close>

lemma find_is_slot: "pending_find table r = index_of (\<lambda>p. p_used p \<and> pending_key p = r) table"
  by (simp add: pending_find_def)

lemma pending_remove_spec:
  assumes "pt.unique table"
  shows "pt.unique (pending_remove table r) \<and> length (pending_remove table r) = length table \<and>
    pending_lookup (pending_remove table r) = (pending_lookup table)(r := None)"
proof (cases "pending_find table r")
  case None
  then have "pending_lookup table r = None"
    by (auto simp: find_is_slot index_of_None pending_lookup_def pt.lookup_None)
  then show ?thesis using None assms by (auto simp: pending_remove_def)
next
  case (Some i)
  then have i: "i < length table" "p_used (table ! i)" "pending_key (table ! i) = r"
    using index_of_Some unfolding find_is_slot by fastforce+
  show ?thesis
    using pt.clear [OF assms i(1,2)] i(3) Some by (simp add: pending_remove_def pending_lookup_def)
qed

lemma update_or_insert_spec:
  assumes "pt.unique table" and "run_state (pending_update_or_insert table t) w = (table', w')"
  shows "pt.unique table' \<and> length table' = length table \<and>
    (if \<forall>p \<in> set table. p_used p \<and> pending_key p \<noteq> t_rel_path t then table' = table
     else \<exists>now. pending_lookup table' = (pending_lookup table)
       (t_rel_path t \<mapsto> \<lparr>p_used = True, p_task = t, p_last_update_ms = now\<rparr>))"
proof (cases "slot_for p_used pending_key table (t_rel_path t)")
  case None
  then have "table' = table"
    using assms(2) by (auto simp: pending_update_or_insert_def slot_for_def find_is_slot Let_def
        split: option.splits)
  then show ?thesis using None assms(1) unfolding pt.full by simp
next
  case (Some i)
  then have "\<exists>now. table' = table[i := \<lparr>p_used = True, p_task = t, p_last_update_ms = now\<rparr>]"
    using assms(2) by (auto simp: pending_update_or_insert_def slot_for_def find_is_slot Let_def
        split: option.splits prod.splits)
  then obtain now where t': "table' = table[i := \<lparr>p_used = True, p_task = t, p_last_update_ms = now\<rparr>]"
    by blast
  let ?p = "\<lparr>p_used = True, p_task = t, p_last_update_ms = now\<rparr>"
  have s: "slot_for p_used pending_key table (pending_key ?p) = Some i" using Some by simp
  have nf: "\<not> (\<forall>p \<in> set table. p_used p \<and> pending_key p \<noteq> t_rel_path t)"
    using Some pt.full [of table "t_rel_path t"] by (metis option.distinct(1))
  show ?thesis
    using pt.store [OF assms(1) s] t' unfolding if_not_P [OF nf] pending_lookup_def by auto
qed

section \<open>Flushing\<close>

lemma push_task_run:
  "no_failure w \<Longrightarrow> run_state (push_task (xs, False) t) w = ((xs @ [t], False), rest_script w)"
  by (simp add: push_task_def sys_malloc_def syscall_no_failure)

lemma flush_slots_spec:
  "no_failure w \<Longrightarrow> run_state (flush_slots due ps (xs, False)) w = ((ps', q'), w') \<Longrightarrow>
   ps' = map (\<lambda>p. if p_used p \<and> due p then empty_pending else p) ps \<and>
   q' = (xs @ map p_task (filter (\<lambda>p. p_used p \<and> due p) ps), False)"
proof (induction ps arbitrary: xs w ps')
  case Nil
  then show ?case by simp
next
  case (Cons p ps)
  show ?case
  proof (cases "p_used p \<and> due p")
    case True
    obtain r where "run_state (flush_slots due ps (xs @ [p_task p], False)) (rest_script w) = ((r, q'), w')"
      "ps' = empty_pending # r"
      using Cons.prems True by (auto simp: push_task_run split: prod.splits)
    from Cons.IH [OF no_failure_rest [OF Cons.prems(1)] this(1)] this(2) True show ?thesis by simp
  next
    case False
    obtain r where "run_state (flush_slots due ps (xs, False)) w = ((r, q'), w')" "ps' = p # r"
      using Cons.prems False by (auto split: prod.splits)
    from Cons.IH [OF Cons.prems(1) this(1)] this(2) False show ?thesis by auto
  qed
qed

lemma flush_lookup:
  fixes due :: "pending_task \<Rightarrow> bool"
  assumes "pt.unique ps"
  defines "ps' \<equiv> map (\<lambda>p. if p_used p \<and> due p then empty_pending else p) ps"
  shows "pt.unique ps'" and "length ps' = length ps"
    and "pending_lookup ps' k = (case pending_lookup ps k of
      Some p \<Rightarrow> if due p then None else Some p | None \<Rightarrow> None)"
proof -
  show u: "pt.unique ps'"
    using assms by (auto simp: pt.unique_def ps'_def empty_pending_def split: if_splits)
  show "length ps' = length ps" by (simp add: ps'_def)
  have e: "pending_lookup ps' k = Some p \<longleftrightarrow> pending_lookup ps k = Some p \<and> \<not> due p" for p
  proof -
    have "(i < length ps' \<and> ps' ! i = p \<and> p_used p \<and> pending_key p = k) =
      (i < length ps \<and> ps ! i = p \<and> p_used p \<and> pending_key p = k \<and> \<not> due p)" for i
      by (cases "p_used (ps ! i) \<and> due (ps ! i)") (auto simp: ps'_def empty_pending_def)
    then show ?thesis
      unfolding pending_lookup_def pt.lookup_iff [OF u] pt.lookup_iff [OF assms(1)] by blast
  qed
  show "pending_lookup ps' k = (case pending_lookup ps k of
      Some p \<Rightarrow> if due p then None else Some p | None \<Rightarrow> None)"
  proof (cases "pending_lookup ps' k")
    case None
    have "due p" if "pending_lookup ps k = Some p" for p using e [of p] None that by simp
    then show ?thesis using None by (auto split: option.split)
  next
    case (Some p)
    then show ?thesis using e [of p] by simp
  qed
qed

lemma flushed_tasks:
  assumes "pt.unique ps"
  shows "t \<in> set (map p_task (filter (\<lambda>p. p_used p \<and> due p) ps)) \<longleftrightarrow>
    (\<exists>p. pending_lookup ps (t_rel_path t) = Some p \<and> p_task p = t \<and> due p)"
proof -
  have "t \<in> set (map p_task (filter (\<lambda>p. p_used p \<and> due p) ps)) \<longleftrightarrow>
    (\<exists>p \<in> set ps. p_used p \<and> due p \<and> p_task p = t)" by auto
  also have "\<dots> \<longleftrightarrow> (\<exists>i < length ps. p_used (ps ! i) \<and> due (ps ! i) \<and> p_task (ps ! i) = t)"
    by (metis in_set_conv_nth)
  also have "\<dots> \<longleftrightarrow> (\<exists>p. pending_lookup ps (t_rel_path t) = Some p \<and> p_task p = t \<and> due p)"
    unfolding pending_lookup_def pt.lookup_iff [OF assms] by blast
  finally show ?thesis .
qed

section \<open>Covering the events\<close>

definition overtakes :: "sync_task \<Rightarrow> sync_task \<Rightarrow> bool" where
  "overtakes e' e \<longleftrightarrow> t_rel_path e' = t_rel_path e \<or>
     (t_event_type e' = EVENT_DELETE \<or> t_event_type e' = EVENT_RENAME) \<and>
     t_old_rel_path e' \<noteq> [] \<and> t_old_rel_path e' = t_rel_path e"

definition overtaken :: "sync_task list \<Rightarrow> nat \<Rightarrow> bool" where
  "overtaken es i \<longleftrightarrow> (\<exists>j < length es. i < j \<and> overtakes (es ! j) (es ! i))"

text \<open>A debounced event that came when \<open>n\<close> other paths had been named before: the table of \<open>n\<close> slots
  may have been full of them.\<close>

definition crowded :: "nat \<Rightarrow> sync_task list \<Rightarrow> nat \<Rightarrow> bool" where
  "crowded n es i \<longleftrightarrow> should_debounce (es ! i) \<and>
     n \<le> card (t_rel_path ` set (take i es) - {t_rel_path (es ! i)})"

text \<open>Events read so far, tasks pushed, and the table of pending ones.\<close>

definition covers :: "sync_task list \<Rightarrow> transfer_ctx \<Rightarrow> bool" where
  "covers es ctx \<longleftrightarrow>
     pt.unique (c_pending ctx) \<and> \<not> snd (c_queue ctx) \<and> set (fst (c_queue ctx)) \<subseteq> set es \<and>
     (\<forall>k p. pending_lookup (c_pending ctx) k = Some p \<longrightarrow> p_task p \<in> set es) \<and>
     (\<forall>i < length es. es ! i \<in> set (fst (c_queue ctx)) \<or> overtaken es i \<or>
        crowded (length (c_pending ctx)) es i \<or>
        (\<exists>p. pending_lookup (c_pending ctx) (t_rel_path (es ! i)) = Some p \<and> p_task p = es ! i))"

lemma overtaken_snoc: "i < length es \<Longrightarrow> overtaken es i \<Longrightarrow> overtaken (es @ [t]) i"
  unfolding overtaken_def by (metis length_append_singleton less_Suc_eq nth_append less_trans)

lemma overtaken_last:
  "i < length es \<Longrightarrow> overtakes t (es ! i) \<Longrightarrow> overtaken (es @ [t]) i"
  unfolding overtaken_def by (intro exI [of _ "length es"]) (simp add: nth_append)

lemma crowded_snoc: "i < length es \<Longrightarrow> crowded n es i \<Longrightarrow> crowded n (es @ [t]) i"
  by (simp add: crowded_def nth_append)

lemma crowded_bound:
  assumes "crowded n es i" and "i < length es"
  shows "n < length es"
proof -
  have "card (t_rel_path ` set (take i es) - {t_rel_path (es ! i)}) \<le> card (t_rel_path ` set (take i es))"
    by (intro card_mono) auto
  also have "\<dots> \<le> length (take i es)" by (metis card_image_le card_length finite_set le_trans)
  finally show ?thesis using assms by (simp add: crowded_def)
qed

lemma covers_full:
  assumes "covers es ctx" and full: "\<forall>p \<in> set (c_pending ctx). p_used p \<and> pending_key p \<noteq> k"
  shows "length (c_pending ctx) \<le> card (t_rel_path ` set es - {k})"
proof -
  let ?ps = "c_pending ctx"
  have u: "pt.unique ?ps" using assms(1) by (simp add: covers_def)
  have "distinct (map pending_key ?ps)"
    using u full by (auto simp: distinct_conv_nth pt.unique_def)
  then have c: "card (pending_key ` set ?ps) = length ?ps"
    using distinct_card by fastforce
  have "pending_key ` set ?ps \<subseteq> t_rel_path ` set es - {k}"
  proof
    fix r assume "r \<in> pending_key ` set ?ps"
    then obtain i where i: "i < length ?ps" "r = pending_key (?ps ! i)"
      by (auto simp: in_set_conv_nth)
    then have "pending_lookup ?ps r = Some (?ps ! i)"
      using pt.lookup_nth [OF u i(1)] full by (simp add: pending_lookup_def)
    then have "p_task (?ps ! i) \<in> set es" using assms(1) unfolding covers_def by blast
    then show "r \<in> t_rel_path ` set es - {k}" using i full by auto
  qed
  then show ?thesis unfolding c [symmetric] by (intro card_mono) simp_all
qed

section \<open>One round\<close>

lemma covers_flush:
  assumes cov: "covers es ctx" and nf: "no_failure w" and q: "c_queue ctx = (xs, False)"
    and r: "run_state (flush_slots due (c_pending ctx) (c_queue ctx)) w = ((ps', q'), w')"
  shows "covers es (ctx\<lparr>c_pending := ps', c_queue := q'\<rparr>) \<and> length ps' = length (c_pending ctx)"
proof -
  let ?ps = "c_pending ctx"
  have u: "pt.unique ?ps" using cov by (simp add: covers_def)
  have sp: "ps' = map (\<lambda>p. if p_used p \<and> due p then empty_pending else p) ?ps"
    "q' = (xs @ map p_task (filter (\<lambda>p. p_used p \<and> due p) ?ps), False)"
    using flush_slots_spec [OF nf] r q by auto
  note fl = flush_lookup [OF u, of due, folded sp(1)] and ft = flushed_tasks [OF u, of _ due]
  have "t \<in> set (fst q') \<longleftrightarrow> t \<in> set xs \<or>
      (\<exists>p. pending_lookup ?ps (t_rel_path t) = Some p \<and> p_task p = t \<and> due p)" for t
    using ft [of t] sp(2) by auto
  then have pushed: "set (fst q') = set xs \<union>
      {t. \<exists>p. pending_lookup ?ps (t_rel_path t) = Some p \<and> p_task p = t \<and> due p}" by blast
  have sq: "\<not> snd q'" using sp(2) by simp
  show ?thesis
    using cov fl(1,2) q sq unfolding covers_def
    by (auto simp: pushed fl(3) split: option.splits if_splits)
qed

lemma covers_schedule:
  assumes cov: "covers es ctx" and nf: "no_failure w"
    and ev: "t_event_type t \<noteq> EVENT_EXIT"
    and r: "run_state (schedule_task ctx t) w = ((go, ctx'), w')"
  shows "go \<and> covers (es @ [t]) ctx' \<and> length (c_pending ctx') = length (c_pending ctx)"
proof -
  obtain xs where q: "c_queue ctx = (xs, False)" using cov by (cases "c_queue ctx") (auto simp: covers_def)
  have u: "pt.unique (c_pending ctx)" using cov by (simp add: covers_def)
  consider (now) "t_event_type t = EVENT_DELETE \<or> t_event_type t = EVENT_RENAME"
    | (later) "\<not> (t_event_type t = EVENT_DELETE \<or> t_event_type t = EVENT_RENAME)" "should_debounce t"
    | (other) "\<not> (t_event_type t = EVENT_DELETE \<or> t_event_type t = EVENT_RENAME)" "\<not> should_debounce t"
    by blast
  then show ?thesis
  proof cases
    case now
    let ?p1 = "pending_remove (c_pending ctx) (t_rel_path t)"
    let ?p2 = "if t_old_rel_path t \<noteq> [] then pending_remove ?p1 (t_old_rel_path t) else ?p1"
    have c: "go" "ctx' = ctx\<lparr>c_pending := ?p2, c_queue := (xs @ [t], False)\<rparr>"
      using r now ev q push_task_run [OF nf, of xs t]
      by (auto simp: schedule_task_def Let_def split: prod.splits)
    note s1 = pending_remove_spec [OF u, of "t_rel_path t"]
    have s2: "pt.unique ?p2 \<and> length ?p2 = length (c_pending ctx) \<and>
      pending_lookup ?p2 = (\<lambda>k. if k = t_rel_path t \<or> t_old_rel_path t \<noteq> [] \<and> k = t_old_rel_path t
        then None else pending_lookup (c_pending ctx) k)"
      using s1 pending_remove_spec [of ?p1 "t_old_rel_path t"] by (auto simp: fun_eq_iff)
    have "(es @ [t]) ! i \<in> set (xs @ [t]) \<or> overtaken (es @ [t]) i \<or>
        crowded (length (c_pending ctx)) (es @ [t]) i \<or>
        (\<exists>p. pending_lookup ?p2 (t_rel_path ((es @ [t]) ! i)) = Some p \<and> p_task p = (es @ [t]) ! i)"
      if "i < length (es @ [t])" for i
    proof (cases "i < length es")
      case True
      show ?thesis
      proof (cases "overtakes t (es ! i)")
        case True
        then show ?thesis using overtaken_last \<open>i < length es\<close> by blast
      next
        case False
        then have "pending_lookup ?p2 (t_rel_path (es ! i)) = pending_lookup (c_pending ctx) (t_rel_path (es ! i))"
          using s2 now by (auto simp: overtakes_def)
        then show ?thesis using cov True overtaken_snoc crowded_snoc q
          by (auto simp: covers_def nth_append)
      qed
    qed (use that in \<open>auto simp: nth_append less_Suc_eq\<close>)
    then show ?thesis using c s2 cov q by (auto simp: covers_def split: if_splits)
  next
    case later
    obtain ps' w1 where up: "run_state (pending_update_or_insert (c_pending ctx) t) w = (ps', w1)"
      by fastforce
    have c: "go" "ctx' = ctx\<lparr>c_pending := ps'\<rparr>"
      using r later ev up by (auto simp: schedule_task_def Let_def split: prod.splits)
    let ?full = "\<forall>p \<in> set (c_pending ctx). p_used p \<and> pending_key p \<noteq> t_rel_path t"
    note spec = update_or_insert_spec [OF u up]
    have ps': "pt.unique ps'" "length ps' = length (c_pending ctx)" using spec by blast+
    have at: "(es @ [t]) ! i \<in> set xs \<or> overtaken (es @ [t]) i \<or> crowded (length ps') (es @ [t]) i \<or>
        (\<exists>p. pending_lookup ps' (t_rel_path ((es @ [t]) ! i)) = Some p \<and> p_task p = (es @ [t]) ! i)"
      if i: "i < length (es @ [t])" for i
    proof (cases "i < length es")
      case True
      show ?thesis
      proof (cases "t_rel_path t = t_rel_path (es ! i)")
        case True
        then have "overtakes t (es ! i)" by (simp add: overtakes_def)
        then show ?thesis using overtaken_last \<open>i < length es\<close> by blast
      next
        case False
        then have "pending_lookup ps' (t_rel_path (es ! i)) = pending_lookup (c_pending ctx) (t_rel_path (es ! i))"
          using spec by (auto split: if_splits)
        then show ?thesis using cov True overtaken_snoc crowded_snoc q ps'(2)
          by (auto simp: covers_def nth_append)
      qed
    next
      case False
      then have "i = length es" using i by simp
      then show ?thesis
        using spec ps'(2) later(2) covers_full [OF cov, of "t_rel_path t"]
        by (cases ?full) (auto simp: crowded_def nth_append)
    qed
    have old: "p_task p \<in> set (es @ [t])" if "pending_lookup ps' k = Some p" for k p
      using that spec cov by (cases ?full) (auto simp: covers_def split: if_splits)
    have "set xs \<subseteq> set (es @ [t])" using cov q by (auto simp: covers_def)
    then show ?thesis using c ps' q at old by (simp add: covers_def)
  next
    case other
    have c: "go" "ctx' = ctx\<lparr>c_queue := (xs @ [t], False)\<rparr>"
      using r other ev q push_task_run [OF nf, of xs t]
      by (auto simp: schedule_task_def Let_def split: prod.splits)
    have "(es @ [t]) ! i \<in> set (xs @ [t]) \<or> overtaken (es @ [t]) i \<or>
        crowded (length (c_pending ctx)) (es @ [t]) i \<or>
        (\<exists>p. pending_lookup (c_pending ctx) (t_rel_path ((es @ [t]) ! i)) = Some p \<and> p_task p = (es @ [t]) ! i)"
      if "i < length (es @ [t])" for i
      using that cov overtaken_snoc crowded_snoc q by (cases "i < length es") (auto simp: covers_def nth_append less_Suc_eq)
    then show ?thesis using c cov q by (auto simp: covers_def)
  qed
qed

section \<open>The whole thread\<close>

lemma log_message_rx: "w_rx (snd (run_state (log_message lfd l m) w)) = w_rx w"
proof
  fix fd
  have t: "talks lfd w (snd (run_state (log_message lfd l m) w))"
    using log_message_talks by (auto simp: state_io_rel_def)
  have "w_rx (snd (run_state (log_message lfd l m) w)) lfd = w_rx w lfd"
  proof (cases "lfd < 0")
    case False
    obtain r w' where wr: "run_state (write_full lfd (log_bytes (log_record w l m))) w = (r, w')" by fastforce
    then have "snd (run_state (log_message lfd l m) w) = w'"
      using False by (simp add: log_message_def log_message_v_def get_pid_def log_record_def
          snprintf_s_def Let_def)
    then show ?thesis using write_full_result(1) [OF wr] by simp
  qed (simp add: log_message_def log_message_v_def)
  then show "w_rx (snd (run_state (log_message lfd l m) w)) fd = w_rx w fd"
    using talks_simps(8) [OF t] by (cases "fd = lfd") simp_all
qed

text \<open>The input is untouched and no failure is added to the script.\<close>

definition calm_input :: "world \<Rightarrow> world \<Rightarrow> bool" where
  "calm_input w w' \<longleftrightarrow> w_rx w' = w_rx w \<and> (no_failure w \<longrightarrow> no_failure w')"

interpretation cir: world_relation calm_input
  by unfold_locales (auto simp: calm_input_def no_failure_rest)

lemma quiet_calm_input: "state_io_rel quiet m \<Longrightarrow> state_io_rel calm_input m"
  by (rule cir.quiet_io)

lemma log_message_calm_input: "state_io_rel calm_input (log_message fd l m)"
proof (rule state_io_relI)
  fix a w w'
  assume r: "run_state (log_message fd l m) w = (a, w')"
  then show "calm_input w w'"
    using log_message_rx [of fd l m w] no_failure_talks tkr.runD [OF log_message_talks r]
    by (auto simp: calm_input_def)
qed

lemma schedule_task_calm_input: "state_io_rel calm_input (schedule_task ctx task)"
  unfolding schedule_task_def Let_def
  by (intro cir.rules log_message_calm_input quiet_calm_input push_task_quiet update_or_insert_quiet)

lemma sys_select_run:
  assumes "no_failure w" and "run_state (sys_select fd ms) w = (x, w1)"
  shows "(x = Inr True \<or> x = Inr False) \<and> calm_input w w1"
  using assms no_failure_rest [OF assms(1)]
  by (auto simp: sys_select_def syscall_no_failure calm_input_def Let_def no_failure_def
      split: list.splits outcome.splits)

lemma no_failure_upd_mono [simp]: "no_failure (w\<lparr>w_mono := m\<rparr>) = no_failure w"
  by (simp add: no_failure_def)

lemma flush_stable_covers:
  assumes "covers es ctx" and "no_failure w" and "run_state (flush_stable ctx) w = ((go, ctx'), w')"
  shows "covers es ctx' \<and> length (c_pending ctx') = length (c_pending ctx) \<and> go \<and> calm_input w w'"
proof -
  obtain xs where q: "c_queue ctx = (xs, False)" using assms(1) by (cases "c_queue ctx") (auto simp: covers_def)
  obtain now w1 where c: "run_state current_time_ms w = (now, w1)" by fastforce
  have nf: "no_failure w1" using no_failure_quiet [OF assms(2) qr.runD [OF clock_quiet c]] .
  obtain ps' q' where f: "run_state (flush_slots (\<lambda>p. now - p_last_update_ms p \<ge> cc_debounce_ms (c_config ctx))
      (c_pending ctx) (c_queue ctx)) w1 = ((ps', q'), w')"
    and ctx': "ctx' = ctx\<lparr>c_pending := ps', c_queue := q'\<rparr>" and go
    using assms(3) c by (auto simp: flush_stable_def pending_flush_stable_tasks_def split: prod.splits)
  show ?thesis
    using covers_flush [OF assms(1) nf q f] ctx' \<open>go\<close>
      cir.runD [OF quiet_calm_input [OF flush_stable_quiet] assms(3)] by simp
qed

lemma round_covers:
  assumes cov: "covers es1 ctx" and nf: "no_failure w"
    and rx: "w_rx w (c_event_read_fd ctx) = task_bytes t @ rest" and fits: "task_fits t"
    and ev: "t_event_type t \<noteq> EVENT_EXIT"
    and r: "run_state (scheduler_round ctx) w = ((go, ctx'), w')"
  shows "go \<and> length (c_pending ctx') = length (c_pending ctx) \<and> no_failure w' \<and>
    (covers es1 ctx' \<and> w_rx w' (c_event_read_fd ctx) = w_rx w (c_event_read_fd ctx) \<or>
     covers (es1 @ [t]) ctx' \<and> w_rx w' (c_event_read_fd ctx) = rest)"
proof -
  let ?fd = "c_event_read_fd ctx"
  obtain x w1 where sel: "run_state (sys_select ?fd 100) w = (x, w1)" by fastforce
  have x: "x = Inr True \<or> x = Inr False" and c1: "calm_input w w1"
    using sys_select_run [OF nf sel] by simp_all
  have nf1: "no_failure w1" and rx1: "w_rx w1 ?fd = task_bytes t @ rest"
    using c1 nf rx by (simp_all add: calm_input_def)
  show ?thesis
  proof (cases "x = Inr True")
    case False
    then have f: "run_state (flush_stable ctx) w1 = ((go, ctx'), w')"
      using x sel r by (auto simp: scheduler_round_def)
    show ?thesis using flush_stable_covers [OF cov nf1 f] c1 nf by (simp add: calm_input_def)
  next
    case True
    obtain n w2 where rd: "run_state (read_full ?fd task_size) w1 = (n, w2)" by fastforce
    have n: "n = Some (task_bytes t)" and rx2: "w_rx w2 ?fd = rest"
      using read_full_result(3) [OF rd no_failure_benign [OF nf1]] rx1 by auto
    have nf2: "no_failure w2" using no_failure_talks [OF nf1 tkr.runD [OF read_full_talks rd]] .
    obtain go1 ctx1 w3 where s: "run_state (schedule_task ctx t) w2 = ((go1, ctx1), w3)"
      by (metis prod.collapse)
    have cs: "go1" "covers (es1 @ [t]) ctx1" "length (c_pending ctx1) = length (c_pending ctx)"
      using covers_schedule [OF cov nf2 ev s] by simp_all
    have c3: "calm_input w2 w3" by (rule cir.runD [OF schedule_task_calm_input s])
    then have nf3: "no_failure w3" using nf2 by (simp add: calm_input_def)
    have f: "run_state (flush_stable ctx1) w3 = ((go, ctx'), w')"
      using r sel True rd n s cs(1) fits by (simp add: scheduler_round_def task_of_bytes)
    show ?thesis using flush_stable_covers [OF cs(2) nf3 f] cs(3) c3 nf3 rx2 by (simp add: calm_input_def)
  qed
qed

lemma round_exit:
  assumes cov: "covers es ctx" and nf: "no_failure w"
    and rx: "w_rx w (c_event_read_fd ctx) = task_bytes t @ rest" and fits: "task_fits t"
    and ev: "t_event_type t = EVENT_EXIT"
    and r: "run_state (scheduler_round ctx) w = ((go, ctx'), w')"
  shows "covers es ctx' \<and> no_failure w' \<and> length (c_pending ctx') = length (c_pending ctx) \<and>
    (go \<longrightarrow> w_rx w' (c_event_read_fd ctx) = w_rx w (c_event_read_fd ctx))"
proof -
  let ?fd = "c_event_read_fd ctx"
  obtain x w1 where sel: "run_state (sys_select ?fd 100) w = (x, w1)" by fastforce
  have x: "x = Inr True \<or> x = Inr False" and c1: "calm_input w w1"
    using sys_select_run [OF nf sel] by simp_all
  have nf1: "no_failure w1" and rx1: "w_rx w1 ?fd = task_bytes t @ rest"
    using c1 nf rx by (simp_all add: calm_input_def)
  show ?thesis
  proof (cases "x = Inr True")
    case False
    then have f: "run_state (flush_stable ctx) w1 = ((go, ctx'), w')"
      using x sel r by (auto simp: scheduler_round_def)
    show ?thesis using flush_stable_covers [OF cov nf1 f] c1 nf by (simp add: calm_input_def)
  next
    case True
    obtain n w2 where rd: "run_state (read_full ?fd task_size) w1 = (n, w2)" by fastforce
    have n: "n = Some (task_bytes t)"
      using read_full_result(3) [OF rd no_failure_benign [OF nf1]] rx1 by auto
    have nf2: "no_failure w2" using no_failure_talks [OF nf1 tkr.runD [OF read_full_talks rd]] .
    obtain u w3 where l: "run_state (log_message (c_log_fd ctx) LOG_INFO ''scheduler: received EXIT'') w2 = (u, w3)"
      by (rule prod.exhaust)
    have "\<not> go" "ctx' = ctx" "w' = w3"
      using r sel True rd n fits ev l by (auto simp: scheduler_round_def schedule_task_def task_of_bytes)
    moreover have "no_failure w3"
      using no_failure_talks [OF nf2 tkr.runD [OF log_message_talks l]] .
    ultimately show ?thesis using cov by simp
  qed
qed

lemma loop_covers:
  "scheduler_loop ctx w = (ctx', w') \<Longrightarrow> \<not> c_stop ctx \<Longrightarrow> no_failure w \<Longrightarrow> covers es1 ctx \<Longrightarrow>
   w_rx w (c_event_read_fd ctx) = concat (map task_bytes (es2 @ [x])) @ rest \<Longrightarrow>
   \<forall>t \<in> set (es2 @ [x]). task_fits t \<Longrightarrow> \<forall>t \<in> set es2. t_event_type t \<noteq> EVENT_EXIT \<Longrightarrow>
   t_event_type x = EVENT_EXIT \<Longrightarrow>
   covers (es1 @ es2) ctx' \<and> length (c_pending ctx') = length (c_pending ctx) \<and> no_failure w'"
proof (induction ctx w arbitrary: es1 es2 rule: scheduler_loop.induct)
  case (1 ctx w)
  let ?fd = "c_event_read_fd ctx"
  obtain go ctx1 w1 where r: "run_state (scheduler_round ctx) w = ((go, ctx1), w1)"
    by (metis prod.collapse)
  have same: "c_event_read_fd ctx1 = ?fd" "c_stop ctx1 = c_stop ctx"
    using scheduler_round_progress(1) [OF r] by simp_all
  have loop: "(if go then scheduler_loop ctx1 w1 else (ctx1, w1)) = (ctx', w')"
    using "1.prems"(1,2) r by (subst (asm) scheduler_loop.simps) simp
  note IH = "1.IH" [OF "1.prems"(2) r [symmetric] refl, unfolded same(1)]
  show ?case
  proof (cases es2)
    case Nil
    have rx: "w_rx w ?fd = task_bytes x @ rest" using "1.prems"(5) Nil by simp
    note e = round_exit [OF "1.prems"(4,3) rx _ "1.prems"(8) r]
    show ?thesis
    proof (cases go)
      case False
      then show ?thesis using e loop "1.prems"(6) Nil by simp
    next
      case True
      have len: "length (c_pending ctx1) = length (c_pending ctx)" using e "1.prems"(6) by simp
      show ?thesis
        using IH [of es1 es2] True loop e "1.prems" Nil same len by simp
    qed
  next
    case (Cons t es)
    let ?rest = "concat (map task_bytes (es @ [x])) @ rest"
    have rx: "w_rx w ?fd = task_bytes t @ ?rest" using "1.prems"(5) Cons by simp
    have t: "task_fits t" "t_event_type t \<noteq> EVENT_EXIT" using "1.prems"(6,7) Cons by simp_all
    note R = round_covers [OF "1.prems"(4,3) rx t r]
    then have go: "go" and loop': "scheduler_loop ctx1 w1 = (ctx', w')" using loop by simp_all
    from R have "covers es1 ctx1 \<and> w_rx w1 ?fd = w_rx w ?fd \<or>
      covers (es1 @ [t]) ctx1 \<and> w_rx w1 ?fd = ?rest" by simp
    then show ?thesis
    proof
      assume "covers es1 ctx1 \<and> w_rx w1 ?fd = w_rx w ?fd"
      then show ?thesis
        using IH [of es1 es2] go loop' R "1.prems" same by simp
    next
      assume "covers (es1 @ [t]) ctx1 \<and> w_rx w1 ?fd = ?rest"
      then show ?thesis
        using IH [of "es1 @ [t]" es] go loop' R "1.prems" same Cons by simp
    qed
  qed
qed

lemma final_flush_covers:
  assumes "covers es c" and "no_failure w"
    and "run_state (pending_flush_all (c_pending c) (c_queue c)) w = ((ps, q), w')"
  shows "(\<forall>i < length es. es ! i \<in> set (fst q) \<or> overtaken es i \<or> crowded (length (c_pending c)) es i) \<and>
    set (fst q) \<subseteq> set es \<and> (\<forall>p \<in> set ps. \<not> p_used p)"
proof -
  obtain xs where q: "c_queue c = (xs, False)" using assms(1) by (cases "c_queue c") (auto simp: covers_def)
  have r: "run_state (flush_slots (\<lambda>_. True) (c_pending c) (c_queue c)) w = ((ps, q), w')"
    using assms(3) by (simp add: pending_flush_all_def)
  have sp: "ps = map (\<lambda>p. if p_used p \<and> True then empty_pending else p) (c_pending c)"
    using flush_slots_spec [OF assms(2) r [unfolded q]] by simp
  have un: "\<forall>p \<in> set ps. \<not> p_used p" by (auto simp: sp empty_pending_def)
  have cov: "covers es (c\<lparr>c_pending := ps, c_queue := q\<rparr>)" "length ps = length (c_pending c)"
    using covers_flush [OF assms(1,2) q r] by simp_all
  have "pending_lookup ps k = None" for k
    unfolding pending_lookup_def pt.lookup_None using un by blast
  then show ?thesis using cov un by (auto simp: covers_def)
qed

lemma covers_init:
  assumes "c_queue ctx = ([], False)" and "c_pending ctx = replicate n empty_pending"
  shows "covers [] ctx"
proof -
  have "pending_lookup (c_pending ctx) k = None" for k
    unfolding pending_lookup_def pt.lookup_None assms(2) by (auto simp: empty_pending_def)
  then show ?thesis using assms pt.unique_replicate by (simp add: covers_def)
qed

section \<open>Properties\<close>

text \<open>C11: The scheduler loses no update as long as its table is not full. Whatever the timeouts, short
  reads and debounce time, for any number of events before the EXIT task, when no call fails: at the
  end every event has been pushed to the queue, or a later event named its path, or it is a debounced
  event before which \<open>MAX_PENDING_TASKS\<close> other paths had been named (such an event is dropped when all
  slots are taken); only events that were read are pushed, and the queue is stopped.\<close>

theorem scheduler_loses_no_update:
  assumes "run_state (scheduler_thread_main ctx) w = (ctx', w')" and "\<not> c_stop ctx"
    and "c_queue ctx = ([], False)" and "c_pending ctx = replicate MAX_PENDING_TASKS empty_pending"
    and "no_failure w"
    and "w_rx w (c_event_read_fd ctx) = concat (map task_bytes (es @ [x])) @ rest"
    and "\<forall>t \<in> set (es @ [x]). task_fits t" and "\<forall>t \<in> set es. t_event_type t \<noteq> EVENT_EXIT"
    and "t_event_type x = EVENT_EXIT"
  shows "(\<forall>i < length es. es ! i \<in> set (fst (c_queue ctx')) \<or> overtaken es i \<or> crowded MAX_PENDING_TASKS es i) \<and>
    set (fst (c_queue ctx')) \<subseteq> set es \<and> snd (c_queue ctx') \<and> c_stop ctx'"
proof -
  obtain c w1 where l: "scheduler_loop ctx w = (c, w1)" by (rule prod.exhaust)
  obtain ps q where f: "run_state (pending_flush_all (c_pending c) (c_queue c)) w1 = ((ps, q), w')"
    and ctx': "ctx' = c\<lparr>c_pending := ps, c_queue := snd (fifo_step Stop q), c_stop := True\<rparr>"
    using assms(1) l by (auto simp: scheduler_thread_main_def split: prod.splits)
  have C: "covers ([] @ es) c \<and> length (c_pending c) = length (c_pending ctx) \<and> no_failure w1"
    by (rule loop_covers [OF l assms(2,5) covers_init [OF assms(3,4)] assms(6-9)])
  have "length (c_pending c) = MAX_PENDING_TASKS" using C assms(4) by simp
  then have "(\<forall>i < length es. es ! i \<in> set (fst q) \<or> overtaken es i \<or> crowded MAX_PENDING_TASKS es i) \<and>
      set (fst q) \<subseteq> set es"
    using final_flush_covers [OF _ _ f] C by simp
  then show ?thesis using ctx' by (cases q) simp
qed

definition sample_task :: "32 word \<Rightarrow> string \<Rightarrow> sync_task" where
  "sample_task ev rel = init_sync_task\<lparr>t_event_type := ev, t_rel_path := rel, t_src_path := ''s/'' @ rel\<rparr>"

definition sample_config :: client_config where
  "sample_config = \<lparr>cc_mode = 1, cc_src_root = ''s'', cc_dst_root = ''b'', cc_server_ip = ''127.0.0.1'',
     cc_port = 9000, cc_thread_count = 4, cc_block_size = 4096, cc_debounce_ms = 1500,
     cc_hash_threshold = 10485760, cc_log_path = ''log''\<rparr>"

definition sample_ctx :: transfer_ctx where
  "sample_ctx = \<lparr>c_config = sample_config, c_event_read_fd = 5, c_log_fd = 6, c_queue = ([], False),
     c_pending = replicate MAX_PENDING_TASKS empty_pending, c_stop = False\<rparr>"

definition sample_events :: "sync_task list" where
  "sample_events = [sample_task EVENT_CREATE ''d/g'', sample_task EVENT_MODIFY ''d/g'',
     sample_task EVENT_DELETE ''d/f'']"

lemma scheduler_loses_no_update_witness:
  "\<exists>ctx' w'. run_state (scheduler_thread_main sample_ctx) (sample_world\<lparr>w_script := [Short 1, Go, Short 9],
      w_rx := (\<lambda>_. concat (map task_bytes (sample_events @ [sample_task EVENT_EXIT []])) @ [])\<rparr>) = (ctx', w') \<and>
    (\<forall>i < length sample_events. sample_events ! i \<in> set (fst (c_queue ctx')) \<or> overtaken sample_events i) \<and>
    set (fst (c_queue ctx')) \<subseteq> set sample_events \<and> snd (c_queue ctx') \<and> c_stop ctx'"
proof -
  let ?w = "sample_world\<lparr>w_script := [Short 1, Go, Short 9],
      w_rx := (\<lambda>_. concat (map task_bytes (sample_events @ [sample_task EVENT_EXIT []])) @ [])\<rparr>"
  obtain ctx' w' where run: "run_state (scheduler_thread_main sample_ctx) ?w = (ctx', w')"
    by (rule prod.exhaust)
  have "\<not> c_stop sample_ctx" "c_queue sample_ctx = ([], False)"
    "c_pending sample_ctx = replicate MAX_PENDING_TASKS empty_pending"
    by (simp_all add: sample_ctx_def)
  moreover have "no_failure ?w" by (simp add: no_failure_def)
  moreover have "\<forall>t \<in> set (sample_events @ [sample_task EVENT_EXIT []]). task_fits t"
    "\<forall>t \<in> set sample_events. t_event_type t \<noteq> EVENT_EXIT" "length sample_events \<le> MAX_PENDING_TASKS"
    "t_event_type (sample_task EVENT_EXIT []) = EVENT_EXIT"
    by code_simp+
  ultimately show ?thesis
    using scheduler_loses_no_update [OF run, of sample_events "sample_task EVENT_EXIT []" "[]"] run
      crowded_bound [of MAX_PENDING_TASKS sample_events]
    by (intro exI [of _ ctx'] exI [of _ w']) (auto simp del: One_nat_def)
qed

text \<open>C32: One slot per path: storing a task makes it the pending task of its path and leaves all
  other paths as they are, and clearing a path removes exactly its entry; only in a table full of
  other paths is the new task dropped, without a sign.\<close>

theorem pending_table_is_a_map:
  assumes "pt.unique table" and "run_state (pending_update_or_insert table t) w = (table', w')"
  shows "pt.unique table' \<and> length table' = length table \<and>
    (if \<forall>p \<in> set table. p_used p \<and> pending_key p \<noteq> t_rel_path t then table' = table
     else \<exists>now. pending_lookup table' = (pending_lookup table)
       (t_rel_path t \<mapsto> \<lparr>p_used = True, p_task = t, p_last_update_ms = now\<rparr>)) \<and>
    pending_lookup (pending_remove table r) = (pending_lookup table)(r := None)"
  using update_or_insert_spec [OF assms] pending_remove_spec [OF assms(1)] by blast

lemma pending_table_is_a_map_witness:
  "let table = [empty_pending, \<lparr>p_used = True, p_task = sample_task EVENT_MODIFY ''x'', p_last_update_ms = 3\<rparr>];
     t = sample_task EVENT_CREATE ''y'';
     table' = fst (run_state (pending_update_or_insert table t) sample_world) in
   pt.unique table' \<and> length table' = length table \<and>
    (if \<forall>p \<in> set table. p_used p \<and> pending_key p \<noteq> t_rel_path t then table' = table
     else \<exists>now. pending_lookup table' = (pending_lookup table)
       (t_rel_path t \<mapsto> \<lparr>p_used = True, p_task = t, p_last_update_ms = now\<rparr>)) \<and>
    pending_lookup (pending_remove table ''x'') = (pending_lookup table)(''x'' := None)"
proof -
  let ?t = "[empty_pending, \<lparr>p_used = True, p_task = sample_task EVENT_MODIFY ''x'', p_last_update_ms = 3\<rparr>]"
  have "pt.unique ?t" by (auto simp: pt.unique_def empty_pending_def nth_Cons split: nat.splits)
  then show ?thesis
    unfolding Let_def by (rule pending_table_is_a_map) (rule surjective_pairing)
qed

end
