(* ===== verification/TransferLocal.thy ===== *)
theory TransferLocal
  imports BackupLaws DirLaws Logger Tasks
begin

text \<open>
  The local mode of \<^verbatim>\<open>src/transfer.c\<close>: the layout of a backup root and what a worker does
  with a task when the target is a directory of this machine.
\<close>

section \<open>Definitions\<close>

definition ensure_backup_layout :: "path \<Rightarrow> int prog" where
  "ensure_backup_layout root =
     (case join_path MAX_PATH_LEN root ''current'' of
        None \<Rightarrow> ret (- 1)
      | Some current \<Rightarrow>
     (case join_path MAX_PATH_LEN root ''.versions'' of
        None \<Rightarrow> ret (- 1)
      | Some versions \<Rightarrow>
     (case join_path MAX_PATH_LEN root ''.trash'' of
        None \<Rightarrow> ret (- 1)
      | Some trash \<Rightarrow> do {
          a \<leftarrow> ensure_dir_exists current;
          if a \<noteq> 0 then ret (- 1)
          else do {
            b \<leftarrow> ensure_dir_exists versions;
            if b \<noteq> 0 then ret (- 1)
            else do {
              c \<leftarrow> ensure_dir_exists trash;
              ret (if c = 0 then 0 else - 1)
            }
          }
        })))"

definition local_target_path :: "nat \<Rightarrow> path \<Rightarrow> string \<Rightarrow> path option" where
  "local_target_path out_size backup_root rel_path =
     (if sanitize_rel_path rel_path < 0 then None
      else case join_path MAX_PATH_LEN backup_root ''current'' of
        None \<Rightarrow> None
      | Some current \<Rightarrow> join_path out_size current rel_path)"

definition worker_text :: "int \<Rightarrow> string \<Rightarrow> string" where
  "worker_text worker_id rest = ''worker-'' @ show_int worker_id @ '': '' @ rest"

definition sync_local_file :: "client_config \<Rightarrow> sync_task \<Rightarrow> int \<Rightarrow> int \<Rightarrow> int prog" where
  "sync_local_file config task log_fd worker_id = do {
     reg \<leftarrow> is_regular_file (t_src_path task);
     if \<not> reg then do {
       _ \<leftarrow> log_message log_fd LOG_WARN (worker_text worker_id (''source disappeared '' @ t_rel_path task));
       ret 0
     }
     else do {
       fd \<leftarrow> sys_open_rd (t_src_path task);
       (case fd of
          Inl _ \<Rightarrow> ret (- 1)
        | Inr _ \<Rightarrow> do {
            l \<leftarrow> try_read_lock (t_src_path task);
            if l < 0 then do {
              _ \<leftarrow> log_message log_fd LOG_WARN (worker_text worker_id (''file busy, delay '' @ t_rel_path task));
              ret (- 1)
            }
            else do {
              _ \<leftarrow> unlock_file (t_src_path task);
              (case local_target_path MAX_PATH_LEN (cc_dst_root config) (t_rel_path task) of
                 None \<Rightarrow> ret (- 1)
               | Some dst \<Rightarrow> do {
                   b \<leftarrow> backup_old_version (cc_dst_root config) (t_rel_path task);
                   if b < 0 then ret (- 1)
                   else do {
                     before \<leftarrow> hash_file_fnv1a (t_src_path task);
                     c \<leftarrow> copy_file_atomic (t_src_path task) dst;
                     if c < 0 then ret (- 1)
                     else do {
                       after \<leftarrow> hash_file_fnv1a dst;
                       if before \<noteq> after then ret (- 1)
                       else do {
                         _ \<leftarrow> set_file_metadata dst (t_mode task) (sint (t_mtime task));
                         _ \<leftarrow> log_message log_fd LOG_INFO (worker_text worker_id
                           (''local sync success '' @ t_rel_path task @ '' strategy='' @
                            (if sint (t_file_size task) > cc_hash_threshold config
                             then ''large-file'' else ''small-file'') @ '' hash='' @ hex16 after));
                         ret 0
                       }
                     }
                   }
                 })
            }
          })
     }
   }"

text \<open>The four calls of a rename; all of them have to succeed.\<close>

definition local_rename :: "path \<Rightarrow> string \<Rightarrow> string \<Rightarrow> bool prog" where
  "local_rename root old_rel rel =
     (case local_target_path MAX_PATH_LEN root old_rel of
        None \<Rightarrow> ret False
      | Some old_path \<Rightarrow>
     (case local_target_path MAX_PATH_LEN root rel of
        None \<Rightarrow> ret False
      | Some new_path \<Rightarrow> do {
          p \<leftarrow> ensure_parent_dir_exists new_path;
          if p \<noteq> 0 then ret False
          else do {
            r \<leftarrow> safe_rename_or_copy_unlink old_path new_path;
            ret (r = 0)
          }
        }))"

definition sync_task_rest :: "client_config \<Rightarrow> sync_task \<Rightarrow> int \<Rightarrow> int \<Rightarrow> int prog" where
  "sync_task_rest config task log_fd worker_id =
     (if t_is_dir task \<noteq> 0 then
        (case local_target_path MAX_PATH_LEN (cc_dst_root config) (t_rel_path task) of
           None \<Rightarrow> ret (- 1)
         | Some dst \<Rightarrow> do {
             r \<leftarrow> ensure_dir_exists dst;
             if r = 0 then do {
               _ \<leftarrow> log_message log_fd LOG_INFO (worker_text worker_id (''local mkdir '' @ t_rel_path task));
               ret 0
             }
             else ret (- 1)
           })
      else sync_local_file config task log_fd worker_id)"

definition sync_task_local :: "client_config \<Rightarrow> sync_task \<Rightarrow> int \<Rightarrow> int \<Rightarrow> int prog" where
  "sync_task_local config task log_fd worker_id =
     (if sanitize_rel_path (t_rel_path task) < 0 then ret (- 1)
      else if t_event_type task = EVENT_DELETE then do {
        r \<leftarrow> move_to_trash (cc_dst_root config) (t_rel_path task);
        if r = 0 then do {
          _ \<leftarrow> log_message log_fd LOG_INFO (worker_text worker_id (''local trash '' @ t_rel_path task));
          ret 0
        }
        else ret (- 1)
      }
      else if t_event_type task = EVENT_RENAME \<and> t_old_rel_path task \<noteq> [] then do {
        ok \<leftarrow> local_rename (cc_dst_root config) (t_old_rel_path task) (t_rel_path task);
        if ok then do {
          _ \<leftarrow> log_message log_fd LOG_INFO (worker_text worker_id
            (''local rename '' @ t_old_rel_path task @ '' -> '' @ t_rel_path task));
          ret 0
        }
        else do {
          _ \<leftarrow> log_message log_fd LOG_WARN (worker_text worker_id
            (''rename fallback sync new path '' @ t_rel_path task));
          sync_task_rest config task log_fd worker_id
        }
      }
      else sync_task_rest config task log_fd worker_id)"

section \<open>Relations kept\<close>

lemma local_target_Some:
  "local_target_path n root rel = Some q \<Longrightarrow>
     sanitize_rel_path rel = 0 \<and> q = current_file root rel \<and> length q < n"
  by (auto simp: local_target_path_def sanitize_iff dest!: join_path_Some split: option.splits if_splits)

text \<open>A relation that also is kept by talking on a descriptor is kept by whole tasks.\<close>

locale worker_relation = file_relation R fine for R fine +
  assumes talk: "talks fd w w' \<Longrightarrow> R w w'"
begin

lemma log: "state_io_rel R (log_message fd l m)"
  by (rule state_io_relI) (rule talk [OF tkr.runD [OF log_message_talks]])

lemma local_file:
  assumes area: "\<And>q. local_target_path MAX_PATH_LEN root rel = Some q \<Longrightarrow> fine q \<and> fine (q @ ''.syncing'')"
    and ver: "\<And>t q. join4 root ''.versions'' (stamp_text t) rel = Some q \<Longrightarrow> fine q \<and> fine (q @ ''.syncing'')"
    and "cc_dst_root config = root" and "t_rel_path task = rel"
  shows "state_io_rel R (sync_local_file config task lfd wid)"
  unfolding sync_local_file_def assms(3,4)
  by (intro rules looking calls log backup_version copy_atomic set_metadata)
    (auto dest: area ver)

lemma rename_task:
  assumes "\<And>r q. local_target_path MAX_PATH_LEN root r = Some q \<Longrightarrow> fine q"
  shows "state_io_rel R (local_rename root old rel)"
  unfolding local_rename_def
  by (intro rules ensure_parent safe_rename) (auto dest: assms)

lemma local_task:
  assumes cur: "\<And>r q. local_target_path MAX_PATH_LEN root r = Some q \<Longrightarrow> fine q \<and> fine (q @ ''.syncing'')"
    and ver: "\<And>t r q. sanitize_rel_path r = 0 \<Longrightarrow> join4 root ''.versions'' (stamp_text t) r = Some q \<Longrightarrow>
      fine q \<and> fine (q @ ''.syncing'')"
    and tr: "\<And>t r q. sanitize_rel_path r = 0 \<Longrightarrow> join4 root ''.trash'' (stamp_text t) r = Some q \<Longrightarrow> fine q"
    and cr: "\<And>r q. sanitize_rel_path r = 0 \<Longrightarrow> join3 root ''current'' r = Some q \<Longrightarrow> fine q"
    and root: "cc_dst_root config = root"
  shows "state_io_rel R (sync_task_local config task lfd wid)"
proof (cases "sanitize_rel_path (t_rel_path task) = 0")
  case True
  have rest: "state_io_rel R (sync_task_rest config task lfd wid)"
    unfolding sync_task_rest_def root
    by (intro rules ensure_dir log local_file [OF _ _ root HOL.refl]) (auto dest: cur ver [OF True])
  show ?thesis
    unfolding sync_task_local_def root
    by (intro rules to_trash log rename_task rest) (auto dest: cur tr [OF True] cr [OF True])
next
  case False
  then show ?thesis by (simp add: sync_task_local_def sanitize_iff return)
qed

end

interpretation wcf: worker_relation "fs_confined c S" "\<lambda>p. \<forall>z. path_key c p @ z \<in> S" for c S
  by unfold_locales (simp add: fs_confined_def talks_simps)

interpretation wwf: worker_relation fs_wf_kept "\<lambda>_. True"
  by unfold_locales (simp add: fs_wf_kept_def talks_simps)

lemma local_task_confined:
  "state_io_rel (fs_confined c (backup_area c (cc_dst_root config))) (sync_task_local config task lfd wid)"
proof (rule wcf.local_task [OF _ _ _ _ refl])
  let ?root = "cc_dst_root config"
  show "(\<forall>z. path_key c q @ z \<in> backup_area c ?root) \<and>
      (\<forall>z. path_key c (q @ ''.syncing'') @ z \<in> backup_area c ?root)"
    if "local_target_path MAX_PATH_LEN ?root r = Some q" for r q
  proof -
    from that have "sanitize_rel_path r = 0" "join3 ?root ''current'' r = Some q"
      by (auto simp: local_target_path_def join3_def sanitize_iff split: option.splits if_splits)
    then show ?thesis using join3_area by blast
  qed
  show "(\<forall>z. path_key c q @ z \<in> backup_area c ?root) \<and>
      (\<forall>z. path_key c (q @ ''.syncing'') @ z \<in> backup_area c ?root)"
    if "sanitize_rel_path r = 0" "join4 ?root ''.versions'' (stamp_text t) r = Some q" for t r q
    using join4_area [OF that(1) _ that(2)] by blast
  show "\<forall>z. path_key c q @ z \<in> backup_area c ?root"
    if "sanitize_rel_path r = 0" "join4 ?root ''.trash'' (stamp_text t) r = Some q" for t r q
    using join4_area [OF that(1) _ that(2)] by blast
  show "\<forall>z. path_key c q @ z \<in> backup_area c ?root"
    if "sanitize_rel_path r = 0" "join3 ?root ''current'' r = Some q" for r q
    using join3_area [OF that] by blast
qed

lemma local_task_wf: "state_io_rel fs_wf_kept (sync_task_local config task lfd wid)"
  by (rule wwf.local_task) simp_all

end
