(* ===== verification/LocalLaws.thy ===== *)
theory LocalLaws
  imports TransferLocal
begin

text \<open>
  What a local task does to the backup: a file task that returned 0 has put the content of the
  source into the backup, with its metadata, and kept the old content among the versions; a
  failing one leaves the old content or the new one, never a mixture.
\<close>

lemma try_read_lock_quiet: "state_io_rel quiet (try_read_lock p)"
  unfolding try_read_lock_def by (intro qr.rules qr.calls)
lemma unlock_file_quiet: "state_io_rel quiet (unlock_file p)"
  unfolding unlock_file_def by (intro qr.rules qr.calls)
lemma is_regular_file_quiet: "state_io_rel quiet (is_regular_file p)"
  unfolding is_regular_file_def by (intro qr.rules qr.calls)

text \<open>The calls of a file task that returned 0, with the worlds between them.\<close>

lemma sync_local_file_steps:
  assumes run: "run_state (sync_local_file cfg task lfd wid) w = (0, w')"
  shows "(\<exists>w1. run_state (is_regular_file (t_src_path task)) w = (False, w1) \<and> talks lfd w1 w') \<or>
    (\<exists>w1. run_state (is_regular_file (t_src_path task)) w = (True, w1)) \<and>
    (\<exists>dst wa b wb h wc wd we m wf. quiet w wa \<and>
      local_target_path MAX_PATH_LEN (cc_dst_root cfg) (t_rel_path task) = Some dst \<and>
      run_state (backup_old_version (cc_dst_root cfg) (t_rel_path task)) wa = (b, wb) \<and> \<not> b < 0 \<and>
      run_state (hash_file_fnv1a (t_src_path task)) wb = (h, wc) \<and>
      run_state (copy_file_atomic (t_src_path task) dst) wc = (0, wd) \<and>
      run_state (hash_file_fnv1a dst) wd = (h, we) \<and>
      run_state (set_file_metadata dst (t_mode task) (sint (t_mtime task))) we = (m, wf) \<and>
      talks lfd wf w')"
proof -
  obtain r w1 where r: "run_state (is_regular_file (t_src_path task)) w = (r, w1)" by (rule prod.exhaust)
  show ?thesis
  proof (cases r)
    case False
    then have "run_state (log_message lfd LOG_WARN (worker_text wid (''source disappeared '' @ t_rel_path task))) w1 = ((), w')"
      using run r by (auto simp: sync_local_file_def split: prod.splits)
    from tkr.runD [OF log_message_talks this] r False show ?thesis by auto
  next
    case True
    obtain x w2 where o: "run_state (sys_open_rd (t_src_path task)) w1 = (x, w2)" by (rule prod.exhaust)
    obtain l w3 where l: "run_state (try_read_lock (t_src_path task)) w2 = (l, w3)" by (rule prod.exhaust)
    obtain u wa where u: "run_state (unlock_file (t_src_path task)) w3 = (u, wa)" by (rule prod.exhaust)
    have q: "quiet w wa"
      using qr.runD [OF is_regular_file_quiet r] qr.runD [OF qr.calls(3) o]
        qr.runD [OF try_read_lock_quiet l] qr.runD [OF unlock_file_quiet u] quiet_trans by blast
    have r1: "run_state (is_regular_file (t_src_path task)) w = (True, w1)" using r True by simp
    obtain y where y: "x = Inr y" using run by (cases x) (simp_all add: sync_local_file_def r1 o)
    have ln: "\<not> l < 0"
      using run by (cases "l < 0") (simp_all add: sync_local_file_def r1 o y l split: prod.splits)
    note eqs = sync_local_file_def r1 o y l ln u
    obtain dst where dst: "local_target_path MAX_PATH_LEN (cc_dst_root cfg) (t_rel_path task) = Some dst"
      using run by (cases "local_target_path MAX_PATH_LEN (cc_dst_root cfg) (t_rel_path task)") (simp_all add: eqs)
    obtain b wb where b: "run_state (backup_old_version (cc_dst_root cfg) (t_rel_path task)) wa = (b, wb)" by (rule prod.exhaust)
    obtain h wc where h: "run_state (hash_file_fnv1a (t_src_path task)) wb = (h, wc)" by (rule prod.exhaust)
    obtain c wd where c: "run_state (copy_file_atomic (t_src_path task) dst) wc = (c, wd)" by (rule prod.exhaust)
    obtain h' we where h': "run_state (hash_file_fnv1a dst) wd = (h', we)" by (rule prod.exhaust)
    obtain m wf where m: "run_state (set_file_metadata dst (t_mode task) (sint (t_mtime task))) we = (m, wf)"
      by (rule prod.exhaust)
    have bn: "\<not> b < 0" using run by (cases "b < 0") (simp_all add: eqs dst b)
    have cn: "\<not> c < 0" using run by (cases "c < 0") (simp_all add: eqs dst b bn h c)
    have hn: "h = h'" using run by (cases "h = h'") (simp_all add: eqs dst b bn h c cn h')
    have c0: "c = 0" using cn copy_atomic_values [OF c] by auto
    have "run_state (log_message lfd LOG_INFO (worker_text wid
         (''local sync success '' @ t_rel_path task @ '' strategy='' @
          (if sint (t_file_size task) > cc_hash_threshold cfg then ''large-file'' else ''small-file'') @
          '' hash='' @ hex16 h'))) wf = ((), w')"
      using run by (auto simp: eqs dst b bn h c cn h' hn m split: prod.splits)
    from tkr.runD [OF log_message_talks this] q dst b bn h c c0 h' hn m r1 show ?thesis by blast
  qed
qed
section \<open>Metadata\<close>

lemma no_failure_used: "no_failure w \<Longrightarrow> script_used w w' \<Longrightarrow> no_failure w'"
  unfolding no_failure_def using script_used_no_fail by blast

lemma touch_run:
  "no_failure w \<Longrightarrow> fs_find w p = Inr n \<Longrightarrow>
   run_state (syscall (do_touch f p)) w =
     (Inr (), (rest_script w)\<lparr>w_fs := fs_put (pkey w p) (f n) (w_fs w)\<rparr>)"
  by (simp add: syscall_no_failure do_touch_def)

lemma metadata_set:
  assumes "no_failure w" and "fs_find w p = Inr (Reg b m t)"
    and run: "run_state (set_file_metadata p mode mtime) w = (r, w')"
  shows "r = 0 \<and> fs_get (w_fs w') (pkey w p) = Some (Reg b (mode AND 0xFFF) mtime)"
proof -
  let ?w1 = "(rest_script w)\<lparr>w_fs := fs_put (pkey w p) (Reg b (mode AND 0xFFF) t) (w_fs w)\<rparr>"
  have key: "pkey ?w1 p = pkey w p" by (simp add: pkey_def)
  have "fs_find ?w1 p = Inr (Reg b (mode AND 0xFFF) t)"
    using assms(2) key by (auto simp: fs_find_def split: option.splits if_splits)
  moreover have "no_failure ?w1" using no_failure_rest [OF assms(1)] by (simp add: no_failure_def)
  ultimately show ?thesis
    using run touch_run [OF assms(1,2), of "set_mode (mode AND 0xFFF)"]
      touch_run [of ?w1 p "Reg b (mode AND 0xFFF) t" "set_mtime mtime"] key
    by (auto simp: set_file_metadata_def sys_chmod_def sys_utime_def and.assoc split: prod.splits)
qed

text \<open>Metadata never changes content.\<close>

lemma touch_content:
  assumes "run_state (syscall (do_touch f p)) w = (x, w')"
    and "fs_get (w_fs w) k = Some (Reg b m t)" and "\<And>m t. \<exists>m' t'. f (Reg b m t) = Reg b m' t'"
  shows "\<exists>m t. fs_get (w_fs w') k = Some (Reg b m t)"
  using syscall_cases [of "do_touch f p" w]
proof
  assume "run_state (syscall (do_touch f p)) w = do_touch f p (rest_script w)"
  then show ?thesis using assms
    by (auto simp: do_touch_def fs_find_def split: sum.splits option.splits if_splits)
next
  assume "\<exists>e xs. w_script w = Fail e # xs \<and> run_state (syscall (do_touch f p)) w = (Inl e, rest_script w)"
  then show ?thesis using assms by auto
qed

lemma metadata_content:
  assumes "run_state (set_file_metadata p mode mtime) w = (r, w')"
    and "fs_get (w_fs w) k = Some (Reg b m t)"
  shows "\<exists>m t. fs_get (w_fs w') k = Some (Reg b m t)"
proof -
  obtain x w1 y where c: "run_state (sys_chmod p (mode AND 0xFFF)) w = (x, w1)"
    "run_state (sys_utime p mtime) w1 = (y, w')"
    using assms(1) by (auto simp: set_file_metadata_def split: prod.splits)
  from touch_content [OF c(1) [unfolded sys_chmod_def] assms(2)] obtain m1 t1
    where "fs_get (w_fs w1) k = Some (Reg b m1 t1)" by auto
  from touch_content [OF c(2) [unfolded sys_utime_def] this] show ?thesis by auto
qed

section \<open>A copied file can be found\<close>

lemma rename_target_plain:
  assumes "run_state (sys_rename p q) w = (Inr u, w')" and "fs_get (w_fs w) (pkey w p) = Some (Reg b m t)"
  shows "q \<noteq> [] \<and> \<not> wants_dir q"
  using syscall_cases [of "do_rename p q" w] assms
  by (auto simp: sys_rename_def do_rename_def Let_def wants_dir_def split: if_splits)

lemma copy_atomic_findable:
  assumes run: "run_state (copy_file_atomic src dst) w = (0, w')"
    and ne: "pkey w src \<noteq> pkey w (dst @ ''.syncing'')" and nx: "Fail EXDEV \<notin> set (w_script w)"
  shows "dst \<noteq> [] \<and> \<not> wants_dir dst"
proof -
  let ?tmp = "dst @ ''.syncing''"
  have len: "length ?tmp < MAX_PATH_LEN"
    using run by (auto simp: copy_file_atomic_def snprintf_s_def split: if_splits)
  obtain c w1 where c: "run_state (copy_file_plain src ?tmp) w = (c, w1)" by (rule prod.exhaust)
  have c0: "c = 0"
    using run c copy_plain_values [OF c] len
    by (auto simp: copy_file_atomic_def snprintf_s_fits [OF len] split: prod.splits)
  obtain r w2 where r: "run_state (safe_rename_or_copy_unlink ?tmp dst) w1 = (r, w2)" by (rule prod.exhaust)
  have r0: "r = 0"
    using run c c0 r safe_rename_values [OF r] len
    by (auto simp: copy_file_atomic_def snprintf_s_fits [OF len] split: prod.splits)
  obtain b m t where tmp: "fs_get (w_fs w1) (pkey w ?tmp) = Some (Reg b m t)"
    using copy_plain_success [OF c [unfolded c0] ne] by blast
  have nx1: "Fail EXDEV \<notin> set (w_script w1)"
    using script_used_no_fail [OF sur.runD [OF suf.copy_plain c] nx] by simp
  obtain p w3 where p: "run_state (ensure_parent_dir_exists dst) w1 = (p, w3)" by (rule prod.exhaust)
  have nx3: "Fail EXDEV \<notin> set (w_script w3)"
    using script_used_no_fail [OF sur.runD [OF suf.ensure_parent [OF TrueI] p] nx1] .
  obtain x w4 where x: "run_state (sys_rename ?tmp dst) w3 = (x, w4)" by (rule prod.exhaust)
  have "\<exists>u. x = Inr u"
    using r r0 p x sys_rename_Inl nx3
    by (cases x) (auto simp: safe_rename_or_copy_unlink_def split: prod.splits if_splits)
  moreover have "fs_get (w_fs w3) (pkey w3 ?tmp) = Some (Reg b m t)"
    using confined_keeps [OF ensure_parent_confined [OF p]] tmp
      confined_pkey [OF ensure_parent_confined [OF p]] confined_pkey [OF copy_plain_confined [OF c]]
    by simp
  ultimately show ?thesis using rename_target_plain x by blast
qed

section \<open>A file task\<close>

lemma is_regular_exact:
  "no_failure w \<Longrightarrow> fs_find w p = Inr n \<Longrightarrow>
   run_state (is_regular_file p) w = (is_reg_node (Some n), rest_script w)"
  by (simp add: is_regular_file_def sys_stat_def syscall_no_failure S_ISREG_node)

lemma no_failure_unscripted: "no_failure w \<Longrightarrow> unscripted w"
  by (auto simp: no_failure_def unscripted_def split: list.splits outcome.splits)

lemma backup_values: "run_state (backup_old_version root rel) w = (r, w') \<Longrightarrow> r = 0 \<or> r = - 1"
  by (auto simp: backup_old_version_def dest: ensure_dir_values copy_atomic_values
      split: prod.splits sum.splits if_splits option.splits)

lemma quiet_pkey: "quiet w w' \<Longrightarrow> pkey w' p = pkey w p"
  by (rule quiet_simps(10))

lemma quiet_find: "quiet w w' \<Longrightarrow> fs_find w' p = fs_find w p"
  by (simp add: fs_find_def quiet_simps)

lemma quiet_unused: "quiet w w' \<Longrightarrow> script_used w w'"
  by (auto simp: quiet_def script_used_def)

lemma copy_atomic_confined:
  "run_state (copy_file_atomic src dst) w = (r, w') \<Longrightarrow>
   fs_confined (w_cwd w) (below (pkey w dst) \<union> below (pkey w (dst @ ''.syncing''))) w w'"
  by (rule fcr.runD [OF fcf.copy_atomic]) (auto simp: pkey_def)

lemma metadata_confined:
  "run_state (set_file_metadata p m t) w = (r, w') \<Longrightarrow> fs_confined (w_cwd w) (below (pkey w p)) w w'"
  by (rule fcr.runD [OF fcf.set_metadata]) (auto simp: pkey_def)

lemma metadata_same:
  assumes "run_state (set_file_metadata p m t) w = (r, w')"
  shows "fs_same (w_cwd w) {pkey w p} w w'"
proof -
  have touch: "fs_same (w_cwd w) {pkey w p} v v'" if "run_state (syscall (do_touch f p)) v = (x, v')" for f v v' x
    using syscall_cases [of "do_touch f p" v] that
    by (auto simp: fs_same_def do_touch_def pkey_def split: sum.splits)
  show ?thesis
    using assms touch fsr.trans by (fastforce simp: set_file_metadata_def sys_chmod_def sys_utime_def split: prod.splits)
qed

lemma stamped_not_below_current:
  assumes "root \<noteq> []" and "sanitize_rel_path rel = 0" and "sanitize_rel_path rel' = 0"
  shows "pkey w (stamped_file ''.versions'' v root rel) \<notin> below (pkey w (current_file root rel'))"
proof -
  have "''..'' \<notin> set (split_on slash rel)" using assms(2) by (rule sanitize_no_dotdot)
  then obtain ks where "path_key (w_cwd w) (stamped_file ''.versions'' v root rel) =
      path_key (w_cwd w) root @ ''.versions'' # ks"
    using key_stamped [OF assms(1), of "''.versions''" rel "w_cwd w" v] by auto
  then show ?thesis
    using key_current [OF assms(1,3), of "w_cwd w"] by (simp add: pkey_def)
qed

lemma current_syncing:
  assumes "sanitize_rel_path rel = 0"
  shows "current_file root rel @ ''.syncing'' = current_file root (rel @ ''.syncing'')"
  using assms by (simp add: joined_suffix sanitize_iff)

lemma stamped_not_below_syncing:
  assumes "root \<noteq> []" and "sanitize_rel_path rel = 0"
  shows "pkey w (stamped_file ''.versions'' v root rel) \<notin> below (pkey w (current_file root rel @ ''.syncing''))"
proof -
  have nd: "''..'' \<notin> set (split_on slash rel)" using assms(2) by (rule sanitize_no_dotdot)
  obtain ks where v: "path_key (w_cwd w) (stamped_file ''.versions'' v root rel) =
      path_key (w_cwd w) root @ ''.versions'' # ks"
    using key_stamped [OF assms(1) _ nd, of "''.versions''" "w_cwd w" v] by auto
  have "path_key (w_cwd w) (current_file root (rel @ ''.syncing'')) =
      path_key (w_cwd w) (joined root ''current'') @ plain (rel @ ''.syncing'')"
    using joined_sub_nonempty [of "''current''" root] dotdot_suffix [OF nd]
    by (intro path_key_joined) auto
  also have "\<dots> = path_key (w_cwd w) root @ ''current'' # plain (rel @ ''.syncing'')"
    using assms(1) by (simp add: key_sub)
  finally show ?thesis unfolding current_syncing [OF assms(2)] using v by (simp add: pkey_def)
qed

text \<open>The content arrives whatever failed on the way, as long as the first call, which looks for the
  source, did not fail.\<close>

lemma is_regular_blind:
  "\<not> unscripted w \<Longrightarrow> run_state (is_regular_file p) w = (False, rest_script w)"
  by (auto simp: is_regular_file_def sys_stat_def syscall_def unscripted_def rest_script_def
      split: list.splits outcome.splits)

lemma is_regular_seen:
  "unscripted w \<Longrightarrow> fs_find w p = Inr (Reg s m t) \<Longrightarrow> run_state (is_regular_file p) w = (True, rest_script w)"
  by (auto simp: is_regular_file_def sys_stat_def syscall_def unscripted_def rest_script_def
      fs_find_def pkey_def S_ISREG_node simp del: node_stat.simps split: list.splits outcome.splits if_splits option.splits)

lemma local_file_content:
  assumes run: "run_state (sync_local_file cfg task lfd wid) w = (0, w')"
    and wf: "fs_wf (w_fs w)" and root: "cc_dst_root cfg \<noteq> []"
    and src: "fs_find w (t_src_path task) = Inr (Reg s ms ts)"
    and out: "pkey w (t_src_path task) \<notin> backup_area (w_cwd w) (cc_dst_root cfg)"
  shows "if unscripted w
    then \<exists>m t. fs_get (w_fs w') (pkey w (current_file (cc_dst_root cfg) (t_rel_path task))) = Some (Reg s m t)
    else w_fs w' = w_fs w"
proof (cases "unscripted w")
  case False
  let ?src = "t_src_path task"
  have "run_state (is_regular_file ?src) w = (False, rest_script w)" by (rule is_regular_blind [OF False])
  then have "talks lfd (rest_script w) w'" using sync_local_file_steps [OF run] by auto
  then show ?thesis using False talks_simps(1) by fastforce
next
  case True
  let ?root = "cc_dst_root cfg" and ?rel = "t_rel_path task" and ?src = "t_src_path task"
  have "run_state (is_regular_file ?src) w = (True, rest_script w)" by (rule is_regular_seen [OF True src])
  then obtain dst wa b wb h wc wd we m wf' where S: "quiet w wa"
    "local_target_path MAX_PATH_LEN ?root ?rel = Some dst"
    "run_state (backup_old_version ?root ?rel) wa = (b, wb)"
    "run_state (hash_file_fnv1a ?src) wb = (h, wc)" "run_state (copy_file_atomic ?src dst) wc = (0, wd)"
    "run_state (hash_file_fnv1a dst) wd = (h, we)"
    "run_state (set_file_metadata dst (t_mode task) (sint (t_mtime task))) we = (m, wf')" "talks lfd wf' w'"
    using sync_local_file_steps [OF run] by auto
  have dst: "dst = current_file ?root ?rel" "sanitize_rel_path ?rel = 0" using local_target_Some [OF S(2)] by simp_all
  note qa = quiet_simps [OF S(1)] and qc = quiet_simps [OF hash_file_world [OF S(4)]]
    and qe = quiet_simps [OF hash_file_world [OF S(6)]]
  have confb: "fs_confined (w_cwd wa) (backup_area (w_cwd w) ?root) wa wb"
    using fcr.runD [OF backup_version_confined S(3)] qa(2) by simp
  have pk: "pkey wb p = pkey w p" for p using confined_pkey [OF confb] qa(10) by simp
  have join: "join3 ?root ''current'' ?rel = Some dst"
    using S(2) by (auto simp: local_target_path_def join3_def split: option.splits if_splits)
  have area: "pkey w (dst @ ''.syncing'') \<in> backup_area (w_cwd w) ?root"
    using join3_area [OF dst(2) join, of "w_cwd w" "[]"] by (simp add: pkey_def)
  have srcb: "fs_get (w_fs wb) (pkey w ?src) = Some (Reg s ms ts)"
    using confined_keeps [OF confb out] fs_find_Inr [OF src] qa(1) by simp
  have wfc: "fs_wf (w_fs wc)"
    using wfr.runD [OF wff.backup_version S(3)] wf qa(1) qc(1) by (simp add: fs_wf_kept_def)
  have nec: "pkey wc ?src \<noteq> pkey wc (dst @ ''.syncing'')" using out area qc(10) pk by metis
  have "dst \<noteq> []" using dst joined_nonempty joined_sub_nonempty by simp
  from copy_atomic_success [OF S(5) wfc nec this] srcb qc(1) qc(10) pk
  obtain m1 t1 where "fs_get (w_fs we) (pkey w dst) = Some (Reg s m1 t1)" using qe(1) by auto
  from metadata_content [OF S(7) this] show ?thesis using True dst(1) talks_simps(1) [OF S(8)] by simp
qed

lemma local_file_success:
  assumes run: "run_state (sync_local_file cfg task lfd wid) w = (0, w')"
    and wf: "fs_wf (w_fs w)" and root: "cc_dst_root cfg \<noteq> []" and nf: "no_failure w"
    and src: "fs_find w (t_src_path task) = Inr (Reg s ms ts)"
    and out: "pkey w (t_src_path task) \<notin> backup_area (w_cwd w) (cc_dst_root cfg)"
  defines "cur \<equiv> current_file (cc_dst_root cfg) (t_rel_path task)"
  shows "fs_get (w_fs w') (pkey w cur) = Some (Reg s (t_mode task AND 0xFFF) (sint (t_mtime task)))"
    and "fs_find w cur = Inr (Reg old mo to) \<Longrightarrow> \<exists>m t. fs_get (w_fs w')
      (pkey w (stamped_file ''.versions'' w (cc_dst_root cfg) (t_rel_path task))) = Some (Reg old m t)"
    and "fs_get (w_fs w') (pkey w (current_file (cc_dst_root cfg) (t_rel_path task @ ''.syncing''))) = None"
proof -
  let ?root = "cc_dst_root cfg" and ?rel = "t_rel_path task" and ?src = "t_src_path task"
  let ?A = "backup_area (w_cwd w) ?root"
  have "run_state (is_regular_file ?src) w = (True, rest_script w)"
    using is_regular_exact [OF nf src] by simp
  then obtain dst wa b wb h wc wd we m wf' where S: "quiet w wa"
    "local_target_path MAX_PATH_LEN ?root ?rel = Some dst"
    "run_state (backup_old_version ?root ?rel) wa = (b, wb)" "\<not> b < 0"
    "run_state (hash_file_fnv1a ?src) wb = (h, wc)" "run_state (copy_file_atomic ?src dst) wc = (0, wd)"
    "run_state (hash_file_fnv1a dst) wd = (h, we)"
    "run_state (set_file_metadata dst (t_mode task) (sint (t_mtime task))) we = (m, wf')" "talks lfd wf' w'"
    using sync_local_file_steps [OF run] by auto
  have dst: "dst = cur" "sanitize_rel_path ?rel = 0" using local_target_Some [OF S(2)] by (simp_all add: cur_def)
  note qa = quiet_simps [OF S(1)] and qc = quiet_simps [OF hash_file_world [OF S(5)]]
    and qe = quiet_simps [OF hash_file_world [OF S(7)]]
  have b0: "b = 0" using backup_values [OF S(3)] S(4) by auto
  have nfa: "no_failure wa" by (rule no_failure_quiet [OF nf S(1)])
  have confb: "fs_confined (w_cwd wa) ?A wa wb"
    using fcr.runD [OF backup_version_confined S(3)] qa(2) by simp
  have pk: "pkey wb p = pkey w p" for p using confined_pkey [OF confb] qa(10) by simp
  have join: "join3 ?root ''current'' ?rel = Some dst"
    using S(2) by (auto simp: local_target_path_def join3_def split: option.splits if_splits)
  have area: "pkey w dst \<in> ?A" "pkey w (dst @ ''.syncing'') \<in> ?A"
    using join3_area [OF dst(2) join, of "w_cwd w" "[]"] by (simp_all add: pkey_def)
  have srcb: "fs_get (w_fs wb) (pkey w ?src) = Some (Reg s ms ts)"
    using confined_keeps [OF confb out] fs_find_Inr [OF src] qa(1) by simp
  have wfb: "fs_wf (w_fs wb)"
    using wfr.runD [OF wff.backup_version S(3)] wf qa(1) by (simp add: fs_wf_kept_def)
  have nfb: "no_failure wb" using no_failure_used [OF nfa] sur.runD [OF suf.backup_version S(3)] by simp
  have nfc: "no_failure wc" by (rule no_failure_quiet [OF nfb hash_file_world [OF S(5)]])
  have wfc: "fs_wf (w_fs wc)" using wfb qc(1) by simp
  have nec: "pkey wc ?src \<noteq> pkey wc (dst @ ''.syncing'')" using out area qc(10) pk by metis
  have nxc: "Fail EXDEV \<notin> set (w_script wc)" using nfc by (simp add: no_failure_def)
  have fnd: "dst \<noteq> [] \<and> \<not> wants_dir dst" by (rule copy_atomic_findable [OF S(6) nec nxc])
  have confd: "fs_confined (w_cwd wc) (below (pkey wc dst) \<union> below (pkey wc (dst @ ''.syncing''))) wc wd"
    by (rule copy_atomic_confined [OF S(6)])
  obtain m1 t1 where dd: "fs_get (w_fs wd) (pkey w dst) = Some (Reg s m1 t1)"
    using copy_atomic_success [OF S(6) wfc nec] fnd srcb qc(1) qc(10) pk by auto
  have pke: "pkey we p = pkey w p" for p
    using qe(10) confined_pkey [OF confd] qc(10) pk by simp
  have nfd: "no_failure wd" using no_failure_used [OF nfc] sur.runD [OF suf.copy_atomic S(6)] by simp
  have nfe: "no_failure we" by (rule no_failure_quiet [OF nfd hash_file_world [OF S(7)]])
  have "fs_find we dst = Inr (Reg s m1 t1)" using fnd dd qe(1) pke by (simp add: fs_find_def)
  from metadata_set [OF nfe this S(8)] pke talks_simps(1) [OF S(9)]
  show "fs_get (w_fs w') (pkey w cur) = Some (Reg s (t_mode task AND 0xFFF) (sint (t_mtime task)))"
    using dst(1) by simp
  have "fs_get (w_fs wd) (pkey w (dst @ ''.syncing'')) = None"
    using copy_atomic_frees [OF S(6) wfc nec] fnd qc(10) pk by simp
  moreover have "pkey w (dst @ ''.syncing'') \<noteq> pkey w dst"
    using syncing_not_prefix [of dst "w_cwd w"] fnd by (auto simp: pkey_def)
  ultimately have "fs_get (w_fs wf') (pkey w (dst @ ''.syncing'')) = None"
    using metadata_same [OF S(8)] qe(1) pke by (auto simp: fs_same_def)
  then show "fs_get (w_fs w') (pkey w (current_file ?root (?rel @ ''.syncing''))) = None"
    using talks_simps(1) [OF S(9)] dst(1) by (simp add: cur_def current_syncing [OF dst(2)])
  show "\<exists>m t. fs_get (w_fs w') (pkey w (stamped_file ''.versions'' w ?root ?rel)) = Some (Reg old m t)"
    if old: "fs_find w cur = Inr (Reg old mo to)"
  proof -
    let ?v = "stamped_file ''.versions'' w ?root ?rel"
    have va: "stamped_file ''.versions'' wa ?root ?rel = ?v"
      using qa by (simp add: stamped_file_def)
    have "fs_find wa (current_file ?root ?rel) = Inr (Reg old mo to)"
      using old quiet_find [OF S(1)] by (simp add: cur_def)
    from backup_keeps_old [OF S(3) [unfolded b0] _ root no_failure_unscripted [OF nfa] this] wf qa(1,10)
    obtain mv tv where vb: "fs_get (w_fs wb) (pkey w ?v) = Some (Reg old mv tv)"
      unfolding va by auto
    have nb: "pkey w ?v \<notin> below (pkey w dst) \<union> below (pkey w (dst @ ''.syncing''))"
      using stamped_not_below_current [OF root dst(2,2)] stamped_not_below_syncing [OF root dst(2)]
      unfolding dst(1) cur_def by blast
    then have "fs_get (w_fs wd) (pkey w ?v) = Some (Reg old mv tv)"
      using confined_keeps [OF confd] vb qc(1) qc(10) pk by simp
    then have "fs_get (w_fs wf') (pkey w ?v) = Some (Reg old mv tv)"
      using confined_keeps [OF metadata_confined [OF S(8)]] nb qe(1) pke by simp
    then show ?thesis using talks_simps(1) [OF S(9)] by simp
  qed
qed

section \<open>Nothing between old and new\<close>

lemma sync_local_file_any:
  assumes run: "run_state (sync_local_file cfg task lfd wid) w = (r, w')"
  shows "(\<exists>w1. quiet w w1 \<and> talks lfd w1 w') \<or>
    (\<exists>dst wa b wb. quiet w wa \<and>
      local_target_path MAX_PATH_LEN (cc_dst_root cfg) (t_rel_path task) = Some dst \<and>
      run_state (backup_old_version (cc_dst_root cfg) (t_rel_path task)) wa = (b, wb) \<and>
      (w' = wb \<or> (\<exists>wc c wd. quiet wb wc \<and>
        run_state (copy_file_atomic (t_src_path task) dst) wc = (c, wd) \<and>
        (w' = wd \<and> r \<noteq> 0 \<or> c = 0 \<and> (\<exists>we. quiet wd we \<and> (w' = we \<or> (\<exists>m wf.
          run_state (set_file_metadata dst (t_mode task) (sint (t_mtime task))) we = (m, wf) \<and>
          talks lfd wf w')))))))"
proof -
  obtain x0 w1 where r: "run_state (is_regular_file (t_src_path task)) w = (x0, w1)" by (rule prod.exhaust)
  have q1: "quiet w w1" by (rule qr.runD [OF is_regular_file_quiet r])
  obtain x w2 where o: "run_state (sys_open_rd (t_src_path task)) w1 = (x, w2)" by (rule prod.exhaust)
  have q2: "quiet w w2" using q1 qr.runD [OF qr.calls(3) o] by (rule quiet_trans)
  obtain l w3 where l: "run_state (try_read_lock (t_src_path task)) w2 = (l, w3)" by (rule prod.exhaust)
  have q3: "quiet w w3" using q2 qr.runD [OF try_read_lock_quiet l] by (rule quiet_trans)
  obtain u wa where u: "run_state (unlock_file (t_src_path task)) w3 = (u, wa)" by (rule prod.exhaust)
  have qa: "quiet w wa" using q3 qr.runD [OF unlock_file_quiet u] by (rule quiet_trans)
  have logged: "run_state (log_message lfd lv t) v = (y, v') \<Longrightarrow> talks lfd v v'" for lv t v y v'
    by (rule tkr.runD [OF log_message_talks])
  note base = sync_local_file_def r o l u
  show ?thesis
  proof (cases "x0 \<and> (\<exists>y. x = Inr y) \<and> \<not> l < 0")
    case False
    have "\<exists>w1. quiet w w1 \<and> talks lfd w1 w'"
    proof (cases x0)
      case f: False
      then have "talks lfd w1 w'" using run by (auto simp: base dest: logged split: prod.splits)
      then show ?thesis using q1 by blast
    next
      case t: True
      show ?thesis
      proof (cases x)
        case (Inl e)
        then show ?thesis using run t r q2 tkr.refl by (auto simp: base)
      next
        case (Inr y)
        then have "talks lfd w3 w'" using run t False by (auto simp: base dest: logged split: prod.splits)
        then show ?thesis using q3 by blast
      qed
    qed
    then show ?thesis by blast
  next
    case True
    then obtain y where t: "x0 = True" "x = Inr y" "\<not> l < 0" by blast
    note eqs = base [unfolded t(1,2)] t(3)
    show ?thesis
    proof (cases "local_target_path MAX_PATH_LEN (cc_dst_root cfg) (t_rel_path task)")
      case None
      then have "w' = wa" using run by (simp add: eqs)
      then show ?thesis using qa tkr.refl by blast
    next
      case (Some dst)
      obtain b wb where b: "run_state (backup_old_version (cc_dst_root cfg) (t_rel_path task)) wa = (b, wb)" by (rule prod.exhaust)
      obtain h wc where h: "run_state (hash_file_fnv1a (t_src_path task)) wb = (h, wc)" by (rule prod.exhaust)
      obtain c wd where c: "run_state (copy_file_atomic (t_src_path task) dst) wc = (c, wd)" by (rule prod.exhaust)
      obtain h' we where h': "run_state (hash_file_fnv1a dst) wd = (h', we)" by (rule prod.exhaust)
      obtain m wf where m: "run_state (set_file_metadata dst (t_mode task) (sint (t_mtime task))) we = (m, wf)"
        by (rule prod.exhaust)
      have "w' = wb \<or> w' = wd \<and> r \<noteq> 0 \<or> c = 0 \<and> (w' = we \<or> talks lfd wf w')"
        using run copy_atomic_values [OF c]
        by (auto simp: eqs Some b h c h' m dest: logged split: prod.splits if_splits)
      then consider "w' = wb" | "w' = wd" "r \<noteq> 0" | "c = 0" "w' = we" | "c = 0" "talks lfd wf w'" by blast
      then show ?thesis
        using qa Some b hash_file_world [OF h] c hash_file_world [OF h'] m by cases blast+
    qed
  qed
qed

definition versions_area :: "fkey \<Rightarrow> path \<Rightarrow> fkey set" where
  "versions_area c root = below (path_key c (joined root ''.versions''))"

lemma backup_only_versions:
  assumes "run_state (backup_old_version root rel) w = (b, w')"
  shows "fs_confined (w_cwd w) (versions_area (w_cwd w) root) w w'"
proof (cases "sanitize_rel_path rel = 0")
  case True
  have nd: "''..'' \<notin> set (split_on slash rel)" using True by (rule sanitize_no_dotdot)
  have inv: "path_key c (joined (joined (joined root ''.versions'') (stamp_text t)) r) @ z \<in> versions_area c root"
    if "''..'' \<notin> set (split_on slash r)" for c t r z
    using that stamp_plain [of t] stamp_no_dots [of t] joined_sub_nonempty [of "''.versions''" root]
    by (simp add: path_key_joined split_on_single joined_nonempty versions_area_def)
  show ?thesis
  proof (rule fcr.runD [OF fcf.backup_version assms])
    fix t q
    assume "join4 root ''.versions'' (stamp_text t) rel = Some q"
    then have q: "q = joined (joined (joined root ''.versions'') (stamp_text t)) rel" by (rule join4_Some)
    moreover have "q @ ''.syncing'' = joined (joined (joined root ''.versions'') (stamp_text t)) (rel @ ''.syncing'')"
      using True q by (simp add: joined_suffix sanitize_iff)
    ultimately show "(\<forall>z. path_key (w_cwd w) q @ z \<in> versions_area (w_cwd w) root) \<and>
        (\<forall>z. path_key (w_cwd w) (q @ ''.syncing'') @ z \<in> versions_area (w_cwd w) root)"
      using inv [OF nd] inv [OF dotdot_suffix [OF nd]] by simp
  qed
next
  case False
  then show ?thesis using assms by (simp add: backup_old_version_def fcr.refl)
qed

lemma current_not_in_versions:
  assumes "root \<noteq> []" and "sanitize_rel_path rel = 0"
  shows "path_key c (current_file root rel) \<notin> versions_area c root"
  using assms by (simp add: versions_area_def key_current key_sub)

lemma local_file_old_or_new:
  assumes run: "run_state (sync_local_file cfg task lfd wid) w = (r, w')"
    and wf: "fs_wf (w_fs w)" and root: "cc_dst_root cfg \<noteq> []" and nx: "r = 0 \<or> Fail EXDEV \<notin> set (w_script w)"
    and san: "sanitize_rel_path (t_rel_path task) = 0"
    and src: "fs_get (w_fs w) (pkey w (t_src_path task)) = Some (Reg s ms ts)"
    and out: "pkey w (t_src_path task) \<notin> backup_area (w_cwd w) (cc_dst_root cfg)"
    and old: "fs_get (w_fs w) (pkey w (current_file (cc_dst_root cfg) (t_rel_path task))) = Some n"
  shows "fs_get (w_fs w') (pkey w (current_file (cc_dst_root cfg) (t_rel_path task))) = Some n \<or>
    (\<exists>m t. fs_get (w_fs w') (pkey w (current_file (cc_dst_root cfg) (t_rel_path task))) = Some (Reg s m t))"
  using sync_local_file_any [OF run]
proof
  assume "\<exists>w1. quiet w w1 \<and> talks lfd w1 w'"
  then obtain w1 where "quiet w w1" "talks lfd w1 w'" by blast
  then have "w_fs w' = w_fs w" by (simp add: quiet_simps(1) talks_simps(1))
  then show ?thesis using old by simp
next
  let ?root = "cc_dst_root cfg" and ?rel = "t_rel_path task" and ?src = "t_src_path task"
  let ?cur = "current_file ?root ?rel"
  assume "\<exists>dst wa b wb. quiet w wa \<and> local_target_path MAX_PATH_LEN ?root ?rel = Some dst \<and>
      run_state (backup_old_version ?root ?rel) wa = (b, wb) \<and>
      (w' = wb \<or> (\<exists>wc c wd. quiet wb wc \<and> run_state (copy_file_atomic ?src dst) wc = (c, wd) \<and>
        (w' = wd \<and> r \<noteq> 0 \<or> c = 0 \<and> (\<exists>we. quiet wd we \<and> (w' = we \<or> (\<exists>m wf.
          run_state (set_file_metadata dst (t_mode task) (sint (t_mtime task))) we = (m, wf) \<and>
          talks lfd wf w'))))))"
  then obtain dst wa b wb where S: "quiet w wa" "local_target_path MAX_PATH_LEN ?root ?rel = Some dst"
    "run_state (backup_old_version ?root ?rel) wa = (b, wb)"
    and rest: "w' = wb \<or> (\<exists>wc c wd. quiet wb wc \<and> run_state (copy_file_atomic ?src dst) wc = (c, wd) \<and>
        (w' = wd \<and> r \<noteq> 0 \<or> c = 0 \<and> (\<exists>we. quiet wd we \<and> (w' = we \<or> (\<exists>m wf.
          run_state (set_file_metadata dst (t_mode task) (sint (t_mtime task))) we = (m, wf) \<and>
          talks lfd wf w')))))" by blast
  have dst: "dst = ?cur" using local_target_Some [OF S(2)] by simp
  note qa = quiet_simps [OF S(1)]
  have confv: "fs_confined (w_cwd wa) (versions_area (w_cwd wa) ?root) wa wb"
    by (rule backup_only_versions [OF S(3)])
  have pkb: "pkey wb p = pkey w p" for p using confined_pkey [OF confv] qa(10) by simp
  have curb: "fs_get (w_fs wb) (pkey w ?cur) = Some n"
    using confined_keeps [OF confv] current_not_in_versions [OF root san, of "w_cwd wa"] old qa
    by (simp add: pkey_def)
  show ?thesis
  proof (cases "w' = wb")
    case True
    then show ?thesis using curb by simp
  next
    case False
    then obtain wc c wd where C: "quiet wb wc" "run_state (copy_file_atomic ?src dst) wc = (c, wd)"
      and rest': "w' = wd \<and> r \<noteq> 0 \<or> c = 0 \<and> (\<exists>we. quiet wd we \<and> (w' = we \<or> (\<exists>m wf.
          run_state (set_file_metadata dst (t_mode task) (sint (t_mtime task))) we = (m, wf) \<and>
          talks lfd wf w')))" using rest by blast
    note qc = quiet_simps [OF C(1)]
    have pkc: "pkey wc p = pkey w p" for p using qc(10) pkb by simp
    have nxc: "r \<noteq> 0 \<Longrightarrow> Fail EXDEV \<notin> set (w_script wc)"
      using nx script_used_no_fail [OF quiet_unused [OF S(1)]]
        script_used_no_fail [OF sur.runD [OF suf.backup_version S(3)]]
        script_used_no_fail [OF quiet_unused [OF C(1)]] by simp
    have join: "join3 ?root ''current'' ?rel = Some dst"
      using S(2) by (auto simp: local_target_path_def join3_def split: option.splits if_splits)
    have area: "pkey w (dst @ ''.syncing'') \<in> backup_area (w_cwd w) ?root"
      using join3_area [OF san join, of "w_cwd w" "[]"] by (simp_all add: pkey_def)
    have new: "\<exists>m t. fs_get (w_fs wd) (pkey w ?cur) = Some (Reg s m t)" if True: "c = 0"
    proof -
      have confA: "fs_confined (w_cwd w) (backup_area (w_cwd w) ?root) wa wb"
        using fcr.runD [OF backup_version_confined S(3)] .
      have srcc: "fs_get (w_fs wc) (pkey w ?src) = Some (Reg s ms ts)"
        using confined_keeps [of wa "backup_area (w_cwd w) ?root" wb] confA out src qa qc(1) by simp
      have "fs_wf (w_fs wc)"
        using wfr.runD [OF wff.backup_version S(3)] wf qa(1) qc(1) by (simp add: fs_wf_kept_def)
      moreover have "pkey wc ?src \<noteq> pkey wc (dst @ ''.syncing'')" using out area pkc by metis
      moreover have "dst \<noteq> []" using dst joined_nonempty joined_sub_nonempty by simp
      ultimately show ?thesis
        using copy_atomic_success [OF C(2) [unfolded True]] srcc pkc dst by auto
    qed
    have curd: "fs_get (w_fs wd) (pkey w ?cur) = Some n \<or>
      (\<exists>m t. fs_get (w_fs wd) (pkey w ?cur) = Some (Reg s m t))" if r: "r \<noteq> 0"
    proof (cases "c = 0")
      case True
      then show ?thesis using new by simp
    next
      case fail: False
      have "fs_confined (w_cwd wc) (below (pkey wc (dst @ ''.syncing''))) wc wd"
        by (rule copy_atomic_failure [OF C(2) fail nxc [OF r]])
      moreover have "pkey w ?cur \<notin> below (pkey wc (dst @ ''.syncing''))"
        using syncing_not_prefix [of ?cur "w_cwd w"] dst joined_nonempty joined_sub_nonempty
        by (simp add: pkc) (simp add: pkey_def)
      ultimately have "fs_get (w_fs wd) (pkey w ?cur) = Some n"
        using confined_keeps [of wc "below (pkey wc (dst @ ''.syncing''))" wd "pkey w ?cur" n] curb qc(1) by simp
      then show ?thesis by simp
    qed
    consider "w' = wd" "r \<noteq> 0" | we where "c = 0" "quiet wd we" "w' = we"
      | we m wf' where "c = 0" "quiet wd we" "talks lfd wf' w'"
        "run_state (set_file_metadata dst (t_mode task) (sint (t_mtime task))) we = (m, wf')"
      using rest' by blast
    then show ?thesis
    proof cases
      case 1
      then show ?thesis using curd by simp
    next
      case 2
      then show ?thesis using new [OF 2(1)] quiet_simps(1) [OF 2(2)] by simp
    next
      case 3
      obtain m1 t1 where "fs_get (w_fs we) (pkey w ?cur) = Some (Reg s m1 t1)"
        using new [OF 3(1)] quiet_simps(1) [OF 3(2)] by auto
      from metadata_content [OF 3(4) this] show ?thesis using talks_simps(1) [OF 3(3)] by simp
    qed
  qed
qed

end
