(* ===== verification/Success.thy ===== *)
theory Success
  imports LocalLaws
begin

text \<open>
  When the file utilities succeed: in a world in which no call fails, with the needed directories free
  and no directory at the place of a file, copies, renames and backups return 0.
\<close>

section \<open>Calm worlds\<close>

lemma calm_kept:
  assumes "calm w" and "fs_wf_kept w w'" and "script_used w w'" and "fs_confined (w_cwd w) S w w'"
    and "w_cwd w \<notin> S"
  shows "calm w'"
proof -
  have "is_dir_node (fs_get (w_fs w') (w_cwd w))"
    using assms(1,4,5) by (auto simp: calm_def fs_confined_def)
  then show ?thesis
    using assms confined_cwd [OF assms(4)] by (auto simp: calm_def fs_wf_kept_def script_used_def)
qed

lemma dir_not_below: "fs_wf fs \<Longrightarrow> \<not> is_dir_node (fs_get fs k) \<Longrightarrow> is_dir_node (fs_get fs k') \<Longrightarrow> k' \<notin> below k"
  by (auto simp: prefix_def) (metis append_Nil2 fs_wf_below_file is_dir_node_simps(1))

text \<open>A place where a file can be: nothing or a file is there.\<close>

definition file_place :: "world \<Rightarrow> path \<Rightarrow> bool" where
  "file_place w p \<longleftrightarrow> p \<noteq> [] \<and> \<not> wants_dir p \<and>
     (fs_get (w_fs w) (pkey w p) = None \<or> is_reg_node (fs_get (w_fs w) (pkey w p)))"

definition parents_there :: "world \<Rightarrow> path \<Rightarrow> bool" where
  "parents_there w p \<longleftrightarrow> list_all (\<lambda>q. is_dir_node (fs_get (w_fs w) (pkey w q))) (dir_prefixes p)"

definition parents_clear :: "world \<Rightarrow> path \<Rightarrow> bool" where
  "parents_clear w p \<longleftrightarrow> list_all (\<lambda>q. fs_get (w_fs w) (pkey w q) = None \<or>
     is_dir_node (fs_get (w_fs w) (pkey w q))) (dir_prefixes p)"

lemma file_place_not_dir: "file_place w p \<Longrightarrow> \<not> is_dir_node (fs_get (w_fs w) (pkey w p))"
  by (auto simp: file_place_def elim: is_reg_nodeE)

lemma plain_last:
  assumes "p \<noteq> []" and "\<not> wants_dir p"
  obtains t where "slash \<notin> set t" "t \<noteq> []" "t \<noteq> ''.''" "t \<noteq> ''..''" "p = t"
    | a t where "slash \<notin> set t" "t \<noteq> []" "t \<noteq> ''.''" "t \<noteq> ''..''" "p = a @ slash # t"
proof (cases "slash \<in> set p")
  case False
  with that(1) [of p] assms show thesis by (auto simp: wants_dir_def last_dotty_def split_on_single)
next
  case True
  then obtain a t where p: "p = a @ slash # t" "slash \<notin> set t" by (metis split_list_last)
  then have "t \<noteq> []" using assms by (auto simp: wants_dir_def)
  then show thesis using that(2) [of t a] p assms(2)
    by (auto simp: wants_dir_def last_dotty_def split_on_single split_on_append)
qed

lemma parent_dir:
  assumes "calm w" and "parents_there w p" and "p \<noteq> []" and "\<not> wants_dir p"
  shows "is_dir_node (fs_get (w_fs w) (butlast (pkey w p))) \<and> pkey w p \<noteq> []"
  using assms(3,4)
proof (cases rule: plain_last)
  case (1 t)
  then have "hd p \<noteq> slash" by (metis hd_in_set)
  then have "pkey w p = w_cwd w @ [p]"
    using 1 assms(3) by (simp add: pkey_def path_key_def split_on_single push_comp.simps)
  then show ?thesis using assms(1) by (simp add: calm_def)
next
  case (2 a t)
  show ?thesis
  proof (cases "a = []")
    case True
    then have "pkey w p = [t]" using 2
      by (simp add: pkey_def path_key_def Let_def split_on_single push_comp.simps)
    then show ?thesis using assms(1) by (simp add: calm_def fs_wf_root)
  next
    case False
    then have "pkey w p = pkey w a @ [t]" using 2
      by (simp add: pkey_def path_key_append_slash split_on_single push_comp.simps)
    moreover have "a \<in> set (dir_prefixes p)" using False 2 by (auto simp: dir_prefix_iff)
    ultimately show ?thesis using assms(2) by (simp add: parents_there_def list_all_iff)
  qed
qed

section \<open>Making the parent directories\<close>

lemma last_slash:
  assumes "strrchr p slash = Some i"
  obtains t where "p = take i p @ slash # t" "slash \<notin> set t"
  using strrchr_Some [OF assms] that [of "drop (Suc i) p"] by (metis id_take_nth_drop)

lemma ensure_root: "calm w \<Longrightarrow> run_state (ensure_dir_exists [slash]) w = (0, w)"
proof -
  assume c: "calm w"
  have "fs_get (w_fs w) (pkey w [slash]) \<noteq> None"
    using is_dir_node_exists [OF fs_wf_root] c
    by (auto simp: calm_def pkey_def path_key_def Let_def push_comp.simps)
  then show ?thesis using c mkdir_each_exist [of w "[[slash]]"]
    by (simp add: ensure_dir_exists_def snprintf_s_def strip_done dir_prefixes_def calm_def)
qed

lemma ensure_parent_succeeds:
  assumes "calm w" and "parents_clear w p" and "length p < MAX_PATH_LEN" and "p \<noteq> []"
  obtains w' where "run_state (ensure_parent_dir_exists p) w = (0, w')" "calm w'" "parents_there w' p"
    "fs_confined (w_cwd w) {} w w'" "fs_same (w_cwd w) (pkey w ` set (dir_prefixes p)) w w'"
proof (cases "strrchr p slash")
  case None
  then have "dir_prefixes p = []" by (simp add: dir_prefixes_none strrchr_None)
  with None assms that [of w] show thesis
    by (simp add: ensure_parent_dir_exists_def snprintf_s_def parents_there_def fcr.refl fsr.refl)
next
  case (Some i)
  then obtain t where p: "p = take i p @ slash # t" "slash \<notin> set t" by (rule last_slash)
  have i: "i < length p" using strrchr_Some [OF Some] by blast
  let ?b = "take i p"
  note dp = dir_prefixes_slash [OF p(2), of ?b, folded p(1)]
  show thesis
  proof (cases "i = 0")
    case True
    then have "dir_prefixes p = []" using dp by simp
    moreover have "take 1 p = [slash]" using p(1) True by (cases p) auto
    ultimately show thesis using assms True Some that [of w] ensure_root [OF assms(1)]
      by (simp add: ensure_parent_dir_exists_def snprintf_s_def parents_there_def fcr.refl fsr.refl)
  next
    case False
    then have b: "?b \<noteq> []" "length ?b < MAX_PATH_LEN" using i assms(3) by auto
    have ds: "dir_prefixes p = all_dirs ?b" using dp b(1) by simp
    then have "clear_way w ?b" using assms(2) by (simp add: parents_clear_def clear_way_def)
    from ensure_dir_succeeds [OF b assms(1) this] obtain w' where w':
      "run_state (ensure_dir_exists ?b) w = (0, w')" "calm w'" "fs_confined (w_cwd w) {} w w'"
      "\<forall>q \<in> set (all_dirs ?b). is_dir_node (fs_get (w_fs w') (pkey w q))"
      "fs_same (w_cwd w) (pkey w ` set (all_dirs ?b)) w w'" by blast
    have "parents_there w' p"
      using w'(4) confined_pkey [OF w'(3)] by (simp add: parents_there_def ds list_all_iff)
    moreover have "run_state (ensure_parent_dir_exists p) w = (0, w')"
      using w'(1) assms(3) False by (simp add: ensure_parent_dir_exists_def snprintf_s_def Some)
    ultimately show thesis using that w' ds by metis
  qed
qed

text \<open>When the directories are there nothing is done.\<close>

lemma ensure_parent_there:
  assumes "calm w" and "parents_there w p" and "length p < MAX_PATH_LEN" and "p \<noteq> []"
  shows "run_state (ensure_parent_dir_exists p) w = (0, w)"
proof (cases "strrchr p slash")
  case None
  then show ?thesis using assms by (simp add: ensure_parent_dir_exists_def snprintf_s_def)
next
  case (Some i)
  then obtain t where p: "p = take i p @ slash # t" "slash \<notin> set t" by (rule last_slash)
  have i: "i < length p" using strrchr_Some [OF Some] by blast
  let ?b = "take i p"
  show ?thesis
  proof (cases "i = 0")
    case True
    then have "take 1 p = [slash]" using p(1) by (cases p) auto
    then show ?thesis using assms True Some ensure_root [OF assms(1)]
      by (simp add: ensure_parent_dir_exists_def snprintf_s_def)
  next
    case False
    then have b: "?b \<noteq> []" "length ?b < MAX_PATH_LEN" using i assms(3) by auto
    have ds: "dir_prefixes p = all_dirs ?b" using dir_prefixes_slash [OF p(2), of ?b, folded p(1)] b(1) by simp
    have "d \<noteq> [] \<and> fs_get (w_fs w) (pkey w d) \<noteq> None" if d: "d \<in> set (all_dirs (strip_trailing ?b))" for d
    proof -
      have "d \<in> set (all_dirs ?b)" using d strip_all_dirs by blast
      then have "d \<in> set (dir_prefixes p)" unfolding ds .
      then have "is_dir_node (fs_get (w_fs w) (pkey w d))" and "d \<noteq> []"
        using assms(2) by (simp_all add: parents_there_def list_all_iff dir_prefix_iff)
      then show ?thesis by (auto dest: is_dir_node_exists)
    qed
    then have "run_state (mkdir_each (all_dirs (strip_trailing ?b))) w = (0, w)"
      using assms(1) by (intro mkdir_each_exist) (simp_all add: calm_def)
    then show ?thesis using False Some b assms(3)
      by (simp add: ensure_parent_dir_exists_def ensure_dir_exists_def snprintf_s_def all_dirs_def Let_def)
  qed
qed

section \<open>Copies and renames\<close>

lemma open_rd_run: "w_script w = [] \<Longrightarrow> fs_find w p = Inr (Reg b m t) \<Longrightarrow> run_state (sys_open_rd p) w = (Inr (), w)"
  by (simp add: sys_open_rd_def run_syscall)

lemma open_wr_run:
  assumes "calm w" and "parents_there w p" and "file_place w p"
  obtains w' where "run_state (sys_open_wr p tr m) w = (Inr (), w')"
proof -
  have p: "p \<noteq> []" "\<not> wants_dir p" using assms(3) by (simp_all add: file_place_def)
  have "parent_check w p = Inr ()"
    using parent_dir [OF assms(1,2) p] by (auto simp: parent_check_def elim: is_dir_nodeE)
  then show thesis
    using assms(1,3) that by (auto simp: sys_open_wr_def run_syscall calm_def do_open_wr_def file_place_def
        elim!: is_reg_nodeE)
qed

lemma calm_opened:
  assumes "calm w" and "file_place w p" and "run_state (sys_open_wr p tr m) w = (r, w')"
  shows "calm w'"
proof (rule calm_kept [OF assms(1)])
  show "fs_wf_kept w w'" by (rule wfr.runD [OF wff.open_wr [OF TrueI] assms(3)])
  show "script_used w w'" by (rule sur.runD [OF suf.open_wr [OF TrueI] assms(3)])
  show "fs_confined (w_cwd w) (below (pkey w p)) w w'"
    by (rule fcr.runD [OF fcf.open_wr assms(3)]) (auto simp: pkey_def)
  show "w_cwd w \<notin> below (pkey w p)"
    using assms(1) dir_not_below file_place_not_dir [OF assms(2)] by (auto simp: calm_def)
qed

lemma write_chunk_run:
  assumes "w_script w = []" and "is_reg_node (fs_get (w_fs w) (pkey w dst))"
    and "write_chunk dst pos d w = (ok, w')"
  shows "ok = 0 \<and> w_script w' = [] \<and> is_reg_node (fs_get (w_fs w') (pkey w dst))"
proof (cases "d = []")
  case True
  then show ?thesis using assms by simp
next
  case False
  have nf: "\<not> (\<exists>e xs. w_script w = Fail e # xs \<and> run_state (sys_fwrite dst pos d) w = (Inl e, rest_script w))"
    using assms(1) by simp
  then obtain w1 where w1: "run_state (sys_fwrite dst pos d) w = (Inr (length d), w1)" "w_script w1 = []"
    "is_reg_node (fs_get (w_fs w1) (pkey w dst))"
    using sys_fwrite_cases [of w dst pos d] assms(1,2) by (elim disjE exE conjE) auto
  then show ?thesis using assms(3) write_chunk_step [OF False w1(1)] by simp
qed

lemma copy_loop_run:
  "copy_loop src dst rpos wpos w = (ok, w') \<Longrightarrow> w_script w = [] \<Longrightarrow> pkey w src \<noteq> pkey w dst \<Longrightarrow>
   is_reg_node (fs_get (w_fs w) (pkey w src)) \<Longrightarrow> is_reg_node (fs_get (w_fs w) (pkey w dst)) \<Longrightarrow>
   ok = 0 \<and> w_script w' = []"
proof (induction src dst rpos wpos w rule: copy_loop.induct)
  case (1 src dst rpos wpos w)
  obtain x w1 where r: "run_state (sys_fread src rpos 8192) w = (x, w1)" by (rule prod.exhaust)
  have w1: "w1 = w" using sys_fread_world r "1.prems"(2) by (metis rest_script_Nil snd_conv)
  obtain d where x: "x = Inr d"
    using sys_fread_cases [of w src rpos 8192] r "1.prems"(2,4) by (elim disjE exE conjE) auto
  note eq = "1.prems"(1) [unfolded copy_loop_step [OF r] x]
  show ?case
  proof (cases "d = []")
    case True
    then show ?thesis using eq w1 "1.prems"(2) by simp
  next
    case False
    obtain k w2 where wr: "write_chunk dst wpos d w1 = (k, w2)" by (rule prod.exhaust)
    have k: "k = 0" "w_script w2 = []" "is_reg_node (fs_get (w_fs w2) (pkey w1 dst))"
      using write_chunk_run [OF _ _ wr] "1.prems"(2,5) w1 by simp_all
    note fr = write_chunk_frame [OF wr]
    have pk: "pkey w2 p = pkey w p" for p using fr w1 by (simp add: pkey_def)
    have dst: "is_reg_node (fs_get (w_fs w2) (pkey w2 dst))" using k(3) pk w1 by simp
    have "copy_loop src dst (rpos + length d) (wpos + length d) w2 = (ok, w')"
      using eq False wr k(1) pk "1.prems"(3) by simp
    then show ?thesis
      using "1.IH"(2) [OF r [symmetric] x False wr [symmetric]] k pk "1.prems"(3,4) fr w1 dst by simp
  qed
qed

lemma copy_loop_frame:
  "copy_loop src dst rpos wpos w = (ok, w') \<Longrightarrow> fs_same (w_cwd w) {pkey w dst} w w'"
proof (induction src dst rpos wpos w rule: copy_loop.induct)
  case (1 src dst rpos wpos w)
  obtain x w1 where r: "run_state (sys_fread src rpos 8192) w = (x, w1)" by (rule prod.exhaust)
  then have w1: "w1 = rest_script w" using sys_fread_world by (metis snd_conv)
  note eq = "1.prems" [unfolded copy_loop_step [OF r]]
  have s1: "fs_same (w_cwd w) {pkey w dst} w w1" using w1 by (simp add: fs_same_def)
  show ?case
  proof (cases x)
    case (Inl e)
    show ?thesis
    proof (cases "e = EINTR")
      case True
      with eq Inl have "copy_loop src dst rpos wpos w1 = (ok, w')" by simp
      from "1.IH"(1) [OF r [symmetric] Inl True this] have "fs_same (w_cwd w) {pkey w dst} w1 w'" using w1 by simp
      then show ?thesis by (rule fsr.trans [OF s1])
    qed (use eq Inl s1 in auto)
  next
    case (Inr d)
    obtain k w2 where wr: "write_chunk dst wpos d w1 = (k, w2)" by (rule prod.exhaust)
    have s2: "fs_same (w_cwd w) {pkey w dst} w w2"
      using write_chunk_frame [OF wr] w1 by (simp add: fs_same_def)
    have pk: "pkey w2 p = pkey w p" "w_cwd w2 = w_cwd w" for p
      using write_chunk_frame [OF wr] w1 by (simp_all add: pkey_def)
    show ?thesis
    proof (cases "d = [] \<or> k < 0 \<or> pkey w2 src = pkey w2 dst")
      case True
      then show ?thesis using eq Inr wr s1 s2 pk by (auto split: if_splits)
    next
      case False
      then have "copy_loop src dst (rpos + length d) (wpos + length d) w2 = (ok, w')"
        using eq Inr wr pk by simp
      from "1.IH"(2) [OF r [symmetric] Inr _ wr [symmetric] _ _ this] False pk
      have "fs_same (w_cwd w) {pkey w dst} w2 w'" by simp
      then show ?thesis by (rule fsr.trans [OF s2])
    qed
  qed
qed

text \<open>The paths of the directories made for a file, none of which is the place of the file.\<close>

abbreviation parent_keys :: "world \<Rightarrow> path \<Rightarrow> fkey set" where
  "parent_keys w p \<equiv> pkey w ` set (dir_prefixes p)"

lemma same_file_place:
  "file_place w p \<Longrightarrow> fs_same (w_cwd w) S w w' \<Longrightarrow> pkey w p \<notin> S \<Longrightarrow> file_place w' p"
  by (simp add: file_place_def fs_same_def pkey_def)

lemma copy_plain_succeeds:
  assumes "calm w" and "parents_clear w dst" and fp: "file_place w dst" and len: "length dst < MAX_PATH_LEN"
    and src: "fs_find w src = Inr (Reg s ms ts)" and ne: "pkey w src \<noteq> pkey w dst"
    and own: "pkey w dst \<notin> parent_keys w dst"
  obtains w' where "run_state (copy_file_plain src dst) w = (0, w')" "calm w'" "parents_there w' dst"
    "fs_same (w_cwd w) (insert (pkey w dst) (parent_keys w dst)) w w'"
proof -
  have sc: "w_script w = []" and wf: "fs_wf (w_fs w)" using assms(1) by (simp_all add: calm_def)
  have dst: "dst \<noteq> []" "\<not> is_dir_node (fs_get (w_fs w) (pkey w dst))"
    using fp file_place_not_dir [OF fp] by (simp_all add: file_place_def)
  from ensure_parent_succeeds [OF assms(1,2) len dst(1)] obtain w1 where w1:
    "run_state (ensure_parent_dir_exists dst) w = (0, w1)" "calm w1" "parents_there w1 dst"
    "fs_confined (w_cwd w) {} w w1" "fs_same (w_cwd w) (parent_keys w dst) w w1" by blast
  have k1: "pkey w1 p = pkey w p" "w_cwd w1 = w_cwd w" for p
    using confined_pkey [OF w1(4)] confined_cwd [OF w1(4)] by simp_all
  have fp1: "file_place w1 dst" by (rule same_file_place [OF fp w1(5) own])
  obtain w2 where w2: "run_state (sys_open_wr dst True 0x1A4) w1 = (Inr (), w2)"
    by (rule open_wr_run [OF w1(2,3) fp1])
  note o2 = open_wr_Inr [OF w2]
  have k2: "pkey w2 p = pkey w p" "w_cwd w2 = w_cwd w" for p using o2 k1 by (simp_all add: pkey_def)
  obtain ok w3 where c: "copy_loop src dst 0 0 w2 = (ok, w3)" by (rule prod.exhaust)
  have "fs_get (w_fs w1) (pkey w src) = Some (Reg s ms ts)"
    using confined_keeps [OF w1(4)] fs_find_Inr [OF src] by blast
  then have "is_reg_node (fs_get (w_fs w2) (pkey w2 src))" "is_reg_node (fs_get (w_fs w2) (pkey w2 dst))"
    using o2 ne k1 k2 by auto
  with copy_loop_run [OF c] calm_opened [OF w1(2) fp1 w2] ne k2
  have ok: "ok = 0" "w_script w3 = []" by (simp_all add: calm_def)
  then have run: "run_state (copy_file_plain src dst) w = (0, w3)"
    using sc open_rd_run [OF sc src] w1(1) w2 c by (simp add: copy_file_plain_def sys_fsync_def run_syscall)
  have "calm w3"
    by (rule calm_kept [OF assms(1) wfr.runD [OF wff.copy_plain run] sur.runD [OF suf.copy_plain run]
          copy_plain_confined [OF run]])
      (use assms(1) dir_not_below [OF wf dst(2)] in \<open>simp_all add: calm_def\<close>)
  moreover have s3: "fs_same (w_cwd w) {pkey w dst} w1 w3"
    using fsr.trans [of "w_cwd w" "{pkey w dst}" w1 w2 w3] copy_loop_frame [OF c] o2 k1 k2
    by (simp add: fs_same_def)
  have "parents_there w3 dst"
    using w1(3) s3 k1 file_place_not_dir [OF fp1] unfolding parents_there_def list_all_iff
    by (metis (no_types, lifting) fs_same_def pkey_def singletonD)
  moreover have "fs_same (w_cwd w) (insert (pkey w dst) (parent_keys w dst)) w w3"
    using w1(5) s3 k1 by (simp add: fs_same_def)
  ultimately show thesis using that run by blast
qed

lemma safe_rename_succeeds:
  assumes "calm w" and "parents_there w dst" and fp: "file_place w dst" and len: "length dst < MAX_PATH_LEN"
    and sp: "src \<noteq> []" "\<not> wants_dir src" and src: "fs_get (w_fs w) (pkey w src) = Some (Reg s m t)"
    and ne: "pkey w src \<noteq> pkey w dst"
  obtains w' where "run_state (safe_rename_or_copy_unlink src dst) w = (0, w')" "calm w'"
    "fs_same (w_cwd w) (below (pkey w src) \<union> below (pkey w dst)) w w'"
proof -
  let ?a = "pkey w src" and ?b = "pkey w dst"
  have sc: "w_script w = []" and wf: "fs_wf (w_fs w)" using assms(1) by (simp_all add: calm_def)
  have dst: "dst \<noteq> []" "\<not> wants_dir dst" using fp by (simp_all add: file_place_def)
  note pd = parent_dir [OF assms(1,2) dst]
  have nd: "\<not> is_dir_node (fs_get (w_fs w) ?a)" using src by simp
  have nab: "\<not> prefix ?a ?b"
  proof
    assume "prefix ?a ?b"
    then have "prefix ?a (butlast ?b)" using ne by (metis append_butlast_last_id pd prefix_snoc)
    then show False using dir_not_below [OF wf nd] pd by simp
  qed
  let ?w' = "w\<lparr>w_fs := fs_move ?a ?b (w_fs w)\<rparr>"
  have "parent_check w dst = Inr ()" using pd by (auto simp: parent_check_def elim: is_dir_nodeE)
  moreover have "fs_get (w_fs w) ?b = None \<or> (\<exists>c m t. fs_get (w_fs w) ?b = Some (Reg c m t))"
    using fp by (auto simp: file_place_def elim: is_reg_nodeE)
  ultimately have rn: "run_state (sys_rename src dst) w = (Inr (), ?w')"
    using sp dst src ne nab by (auto simp: sys_rename_def run_syscall sc do_rename_def Let_def wants_dir_def)
  then have run: "run_state (safe_rename_or_copy_unlink src dst) w = (0, ?w')"
    using ensure_parent_there [OF assms(1,2) len dst(1)] by (simp add: safe_rename_or_copy_unlink_def)
  have sm: "fs_same (w_cwd w) (below ?a \<union> below ?b) w ?w'"
    by (rule fsr.runD [OF fs_same_rename rn]) (auto simp: pkey_def)
  have "w_cwd w \<notin> below ?a \<union> below ?b"
    using dir_not_below [OF wf nd] dir_not_below [OF wf file_place_not_dir [OF fp]] assms(1) by (auto simp: calm_def)
  moreover have "fs_confined (w_cwd w) (below ?a \<union> below ?b) w ?w'"
    using sm by (auto simp: fs_same_def fs_confined_def)
  ultimately have "calm ?w'"
    using calm_kept [OF assms(1) wfr.runD [OF wff.rename [OF TrueI TrueI] rn]
        sur.runD [OF suf.rename [OF TrueI TrueI] rn]] by blast
  then show thesis using that run sm by blast
qed

section \<open>Replacing a file\<close>

text \<open>
  A path whose file can be replaced: it fits the buffers, it and the temporary path next to it are free
  for files, and only directories are, or are to be made, on the way.
\<close>

definition replaceable :: "world \<Rightarrow> path \<Rightarrow> bool" where
  "replaceable w p \<longleftrightarrow> length p + 8 < MAX_PATH_LEN \<and> ''..'' \<notin> set (split_on slash p) \<and> file_place w p \<and>
     file_place w (p @ ''.syncing'') \<and> parents_clear w p"

lemma dir_prefixes_suffix: "slash \<notin> set t \<Longrightarrow> dir_prefixes (p @ t) = dir_prefixes p"
proof -
  assume t: "slash \<notin> set t"
  have "filter (\<lambda>i. (p @ t) ! i = slash) [1..<length (p @ t)] = filter (\<lambda>i. p ! i = slash) [1..<length p]"
  proof (cases "p = []")
    case True
    then show ?thesis using t by (auto simp: filter_empty_conv in_set_conv_nth)
  next
    case False
    then have "[1..<length (p @ t)] = [1..<length p] @ [length p..<length (p @ t)]"
      by (metis One_nat_def Suc_leI le_add1 length_append length_greater_0_conv upt_add_eq_append)
    moreover have "filter (\<lambda>i. (p @ t) ! i = slash) [length p..<length (p @ t)] = []"
      using t by (auto simp: filter_empty_conv nth_append in_set_conv_nth)
    moreover have "filter (\<lambda>i. (p @ t) ! i = slash) [1..<length p] = filter (\<lambda>i. p ! i = slash) [1..<length p]"
      by (rule filter_cong) (auto simp: nth_append)
    ultimately show ?thesis by simp
  qed
  then show ?thesis by (auto simp: dir_prefixes_def)
qed

text \<open>Without \<open>..\<close> the key of a directory on the way is above the key of the path.\<close>

lemma not_own_parent:
  assumes "''..'' \<notin> set (split_on slash p)" and "p \<noteq> []" and "\<not> wants_dir p"
  shows "path_key c p \<notin> path_key c ` set (dir_prefixes p)"
  using assms(2,3)
proof (cases rule: plain_last)
  case (1 t)
  then show ?thesis by (simp add: dir_prefixes_none)
next
  case (2 a t)
  show ?thesis
  proof (cases "a = []")
    case True
    then show ?thesis using 2 dir_prefixes_slash [of t a] by simp
  next
    case False
    have dp: "dir_prefixes p = all_dirs a" using 2 False dir_prefixes_slash [of t a] by simp
    have k: "path_key c p = path_key c a @ [t]"
      using 2 False by (simp add: path_key_append_slash split_on_single push_comp.simps)
    have "''..'' \<notin> set (split_on slash a)" using assms(1) 2 by (auto simp: split_on_append)
    then have "prefix (path_key c q) (path_key c a)" if "q \<in> set (all_dirs a)" for q
      using that dir_prefix_above by (auto simp: all_dirs_def)
    then have "path_key c q \<noteq> path_key c a @ [t]" if "q \<in> set (all_dirs a)" for q
      using that prefix_length_le by fastforce
    then show ?thesis unfolding dp k by force
  qed
qed

lemma syncing_dir_prefixes [simp]: "dir_prefixes (p @ ''.syncing'') = dir_prefixes p"
  by (rule dir_prefixes_suffix) simp

lemma replaceable_own:
  assumes "replaceable w p"
  shows "pkey w p \<notin> parent_keys w p" and "pkey w (p @ ''.syncing'') \<notin> parent_keys w p"
proof -
  have p: "''..'' \<notin> set (split_on slash p)" "p \<noteq> []" "\<not> wants_dir p" "\<not> wants_dir (p @ ''.syncing'')"
    using assms by (auto simp: replaceable_def file_place_def)
  show "pkey w p \<notin> parent_keys w p" using not_own_parent [OF p(1-3), of "w_cwd w"] by (simp add: pkey_def)
  show "pkey w (p @ ''.syncing'') \<notin> parent_keys w p"
    using not_own_parent [OF dotdot_suffix [OF p(1)] _ p(4), of "w_cwd w"] by (simp add: pkey_def)
qed

lemma copy_atomic_succeeds:
  assumes "calm w" and "replaceable w dst" and src: "fs_find w src = Inr (Reg s ms ts)"
    and ne: "pkey w src \<noteq> pkey w (dst @ ''.syncing'')"
  obtains w' where "run_state (copy_file_atomic src dst) w = (0, w')" "calm w'"
    "fs_same (w_cwd w) (parent_keys w dst \<union> below (pkey w dst) \<union> below (pkey w (dst @ ''.syncing''))) w w'"
proof -
  let ?tmp = "dst @ ''.syncing''"
  have R: "length ?tmp < MAX_PATH_LEN" "file_place w dst" "file_place w ?tmp" "parents_clear w dst"
    using assms(2) by (simp_all add: replaceable_def)
  have dst: "dst \<noteq> []" "\<not> wants_dir dst" "\<not> wants_dir ?tmp" using R by (auto simp: file_place_def)
  note own = replaceable_own [OF assms(2)]
  have pc: "parents_clear w ?tmp" using R(4) by (simp add: parents_clear_def)
  from copy_plain_succeeds [OF assms(1) pc R(3) R(1) src ne] own obtain w1 where w1:
    "run_state (copy_file_plain src ?tmp) w = (0, w1)" "calm w1" "parents_there w1 ?tmp"
    "fs_same (w_cwd w) (insert (pkey w ?tmp) (parent_keys w dst)) w w1" by auto
  have k1: "pkey w1 p = pkey w p" "w_cwd w1 = w_cwd w" for p
    using w1(4) by (simp_all add: fs_same_def pkey_def)
  have nep: "pkey w ?tmp \<noteq> pkey w dst" using syncing_not_prefix [OF dst(1), of "w_cwd w"] by (auto simp: pkey_def)
  obtain m t where tmp: "fs_get (w_fs w1) (pkey w ?tmp) = Some (Reg s m t)"
    using copy_plain_success [OF w1(1) ne] fs_find_Inr [OF src] by auto
  have fp: "file_place w1 dst" by (rule same_file_place [OF R(2) w1(4)]) (use own nep in auto)
  have pt: "parents_there w1 dst" using w1(3) by (simp add: parents_there_def)
  obtain w2 where w2: "run_state (safe_rename_or_copy_unlink ?tmp dst) w1 = (0, w2)" "calm w2"
    "fs_same (w_cwd w1) (below (pkey w1 ?tmp) \<union> below (pkey w1 dst)) w1 w2"
    by (rule safe_rename_succeeds [OF w1(2) pt fp _ _ dst(3)]) (use R(1) tmp k1 nep in auto)
  have "fs_same (w_cwd w) (parent_keys w dst \<union> below (pkey w dst) \<union> below (pkey w ?tmp)) w w2"
    using w1(4) w2(3) k1 by (auto simp: fs_same_def)
  moreover have "run_state (copy_file_atomic src dst) w = (0, w2)"
    using w1(1) w2(1) R(1) by (simp add: copy_file_atomic_def snprintf_s_def)
  ultimately show thesis using that w2(2) by blast
qed

end
