(* ===== verification/LocalSuccess.thy ===== *)
theory LocalSuccess
  imports Success
begin

text \<open>
  A worker in local mode succeeds: in a calm world with room below the backup root, a task for a
  file is done, and not only done right when it says so.
\<close>

section \<open>Joined paths\<close>

lemma joined_length: "length base \<le> length (joined base rel)"
  by (simp add: joined_def Let_def)

lemma join3_fits:
  "length (joined (joined root sub) rel) < MAX_PATH_LEN \<Longrightarrow> joined root sub \<noteq> [] \<Longrightarrow>
   join3 root sub rel = Some (joined (joined root sub) rel)"
  using joined_length [of "joined root sub" rel]
  by (simp add: join3_def join_path_fits joined_nonempty)

lemma join4_fits:
  assumes "length (joined (joined (joined root sub) st) rel) < MAX_PATH_LEN" and "joined root sub \<noteq> []"
  shows "join4 root sub st rel = Some (joined (joined (joined root sub) st) rel)"
  using assms joined_length [of "joined (joined root sub) st" rel]
  by (simp add: join4_def join3_fits join_path_fits joined_nonempty)

lemma local_target_fits:
  "sanitize_rel_path rel = 0 \<Longrightarrow> length (current_file root rel) < MAX_PATH_LEN \<Longrightarrow>
   local_target_path MAX_PATH_LEN root rel = Some (current_file root rel)"
  using joined_length [of "joined root ''current''" rel] joined_sub_nonempty [of "''current''" root]
  by (simp add: local_target_path_def join_path_fits joined_nonempty)

section \<open>Backups of old versions\<close>

text \<open>
  The place of the new file is free, and so is, when there is an old file, the place of its version.
\<close>

definition version_ready :: "world \<Rightarrow> path \<Rightarrow> string \<Rightarrow> bool" where
  "version_ready w root rel \<longleftrightarrow>
     (if fs_get (w_fs w) (pkey w (current_file root rel)) = None then True
      else length (stamp_text (w_localtime w (w_time w))) < 64 \<and>
        replaceable w (stamped_file ''.versions'' w root rel))"

lemma stamp_nonempty: "stamp_text t \<noteq> []"
  by (simp add: stamp_text_def)

lemma file_place_find:
  "file_place w p \<Longrightarrow> fs_find w p = (case fs_get (w_fs w) (pkey w p) of None \<Rightarrow> Inl ENOENT | Some n \<Rightarrow> Inr n)"
  by (auto simp: file_place_def fs_find_def split: option.splits)

text \<open>The keys of a version and of the current file are not in the way of each other.\<close>

lemma version_apart:
  assumes "root \<noteq> []" and "sanitize_rel_path rel = 0" and "replaceable w v"
    and v: "v = stamped_file ''.versions'' w root rel" and k: "prefix (path_key (w_cwd w) root @ [''current'']) k"
  shows "k \<notin> parent_keys w v \<union> below (pkey w v) \<union> below (pkey w (v @ ''.syncing''))"
proof -
  have nd: "''..'' \<notin> set (split_on slash rel)" using assms(2) by (rule sanitize_no_dotdot)
  obtain ks where ks: "pkey w v = path_key (w_cwd w) root @ ''.versions'' # ks"
    using key_stamped [OF assms(1) _ nd] v by (metis insertI1 pkey_def)
  obtain ls where ls: "pkey w (v @ ''.syncing'') = path_key (w_cwd w) root @ ''.versions'' # ls"
    unfolding v stamped_suffix [OF assms(2)] using key_stamped [OF assms(1) _ dotdot_suffix [OF nd]]
    by (metis insertI1 pkey_def)
  have "\<not> prefix k (pkey w v)" using k by (auto simp: ks prefix_def)
  moreover have "prefix q (pkey w v)" if "q \<in> parent_keys w v" for q
    using that assms(3) dir_prefix_above by (auto simp: replaceable_def pkey_def)
  ultimately show ?thesis using k by (auto simp: ks ls prefix_def)
qed

lemma backup_succeeds:
  assumes "calm w" and root: "root \<noteq> []" and san: "sanitize_rel_path rel = 0"
    and rep: "replaceable w (current_file root rel)" and vr: "version_ready w root rel"
  obtains w' where "run_state (backup_old_version root rel) w = (0, w')" "calm w'"
    "replaceable w' (current_file root rel)"
proof -
  let ?cur = "current_file root rel" and ?v = "stamped_file ''.versions'' w root rel"
  have sc: "w_script w = []" using assms(1) by (simp add: calm_def)
  have cur: "length ?cur < MAX_PATH_LEN" "file_place w ?cur" using rep by (simp_all add: replaceable_def)
  have j: "join3 root ''current'' rel = Some ?cur"
    using cur(1) by (intro join3_fits joined_sub_nonempty) simp_all
  have acc: "run_state (sys_access ?cur) w = (map_sum id (\<lambda>_. ()) (fs_find w ?cur), w)"
    by (simp add: sys_access_def run_syscall sc)
  show thesis
  proof (cases "fs_get (w_fs w) (pkey w ?cur)")
    case None
    then have "run_state (backup_old_version root rel) w = (0, w)"
      using san j acc file_place_find [OF cur(2)] by (simp add: backup_old_version_def)
    then show thesis using that assms(1) rep by blast
  next
    case (Some n)
    then obtain b m t where n: "n = Reg b m t" using cur(2) by (auto simp: file_place_def elim: is_reg_nodeE)
    have st: "length (stamp_text (w_localtime w (w_time w))) < 64" and v: "replaceable w ?v"
      using vr Some by (simp_all add: version_ready_def)
    have find: "fs_find w ?cur = Inr (Reg b m t)" using file_place_find [OF cur(2)] Some n by simp
    have j4: "join4 root ''.versions'' (stamp_text (w_localtime w (w_time w))) rel = Some ?v"
      using v unfolding stamped_file_def
      by (intro join4_fits joined_sub_nonempty) (simp_all add: replaceable_def)
    have ts: "run_state (make_timestamp_dirname 64) w = (Some (stamp_text (w_localtime w (w_time w))), w)"
      using st stamp_nonempty by (simp add: make_timestamp_dirname_def get_localtime_def Let_def)
    have dir: "run_state (is_directory ?cur) w = (False, w)"
      using find by (simp add: is_directory_def sys_stat_def run_syscall sc S_ISDIR_node del: node_stat.simps)
    have kc: "pkey w ?cur = path_key (w_cwd w) root @ ''current'' # plain rel"
      using key_current [OF root san] by (simp add: pkey_def)
    note apart = version_apart [OF root san v refl]
    have in_cur: "pkey w ?cur \<notin> parent_keys w ?v \<union> below (pkey w ?v) \<union> below (pkey w (?v @ ''.syncing''))"
      by (rule apart) (simp add: kc)
    then have ne: "pkey w ?cur \<noteq> pkey w (?v @ ''.syncing'')" by auto
    obtain w' where w': "run_state (copy_file_atomic ?cur ?v) w = (0, w')" "calm w'"
      "fs_same (w_cwd w) (parent_keys w ?v \<union> below (pkey w ?v) \<union> below (pkey w (?v @ ''.syncing''))) w w'"
      by (rule copy_atomic_succeeds [OF assms(1) v find ne])
    have run: "run_state (backup_old_version root rel) w = (0, w')"
      using san j acc find ts j4 dir w'(1) by (simp add: backup_old_version_def)
    have pk: "pkey w' p = pkey w p" for p using w'(3) by (simp add: fs_same_def pkey_def)
    have tmp: "pkey w (?cur @ ''.syncing'') \<notin> parent_keys w ?v \<union> below (pkey w ?v) \<union> below (pkey w (?v @ ''.syncing''))"
    proof (rule apart)
      have nd: "''..'' \<notin> set (split_on slash (rel @ ''.syncing''))"
        using san by (intro dotdot_suffix sanitize_no_dotdot)
      show "prefix (path_key (w_cwd w) root @ [''current'']) (pkey w (?cur @ ''.syncing''))"
        unfolding current_syncing [OF san] pkey_def using nd root joined_sub_nonempty [of "''current''" root]
        by (simp add: path_key_joined [of "joined root ''current''"] key_sub)
    qed
    have fp: "file_place w' ?cur" "file_place w' (?cur @ ''.syncing'')"
      using rep same_file_place [OF _ w'(3)] in_cur tmp by (simp_all add: replaceable_def)
    have conf: "fs_confined (w_cwd w) (versions_area (w_cwd w) root) w w'"
      by (rule backup_only_versions [OF run])
    have "fs_get (w_fs w') (pkey w q) = None \<or> is_dir_node (fs_get (w_fs w') (pkey w q))"
      if q: "q \<in> set (dir_prefixes ?cur)" for q
    proof -
      have "prefix (pkey w q) (pkey w ?cur)"
        using dir_prefix_above [OF _ q] rep by (simp add: replaceable_def pkey_def)
      then have "pkey w q \<notin> versions_area (w_cwd w) root"
        using current_not_in_versions [OF root san, of "w_cwd w"]
        by (auto simp: versions_area_def pkey_def)
      then show ?thesis
        using conf rep q by (fastforce simp: fs_confined_def replaceable_def parents_clear_def list_all_iff)
    qed
    then have "parents_clear w' ?cur" by (simp add: parents_clear_def list_all_iff pk)
    then have "replaceable w' ?cur" using fp rep by (simp add: replaceable_def)
    then show thesis using that run w'(2) by blast
  qed
qed

section \<open>The whole task\<close>

text \<open>There is room for a file below the backup root, and for the version it replaces.\<close>

definition room_for :: "path \<Rightarrow> string \<Rightarrow> world \<Rightarrow> bool" where
  "room_for root rel w \<longleftrightarrow> calm w \<and> root \<noteq> [] \<and> replaceable w (current_file root rel) \<and>
     version_ready w root rel"

lemma local_file_succeeds:
  assumes ready: "room_for (cc_dst_root cfg) (t_rel_path task) w" and san: "sanitize_rel_path (t_rel_path task) = 0"
    and src: "fs_find w (t_src_path task) = Inr (Reg s ms ts)"
    and out: "pkey w (t_src_path task) \<notin> backup_area (w_cwd w) (cc_dst_root cfg)"
  shows "\<exists>w'. run_state (sync_local_file cfg task lfd wid) w = (0, w')"
proof -
  let ?root = "cc_dst_root cfg" and ?rel = "t_rel_path task" and ?src = "t_src_path task"
  let ?cur = "current_file ?root ?rel"
  have R: "calm w" "?root \<noteq> []" "replaceable w ?cur" "version_ready w ?root ?rel"
    using ready by (simp_all add: room_for_def)
  have sc: "w_script w = []" and wf: "fs_wf (w_fs w)" using R(1) by (simp_all add: calm_def)
  have len: "length ?cur < MAX_PATH_LEN" using R(3) by (simp add: replaceable_def)
  note tgt = local_target_fits [OF san len]
  have nd: "''..'' \<notin> set (split_on slash ?rel)" using san by (rule sanitize_no_dotdot)
  have pre: "run_state (is_regular_file ?src) w = (True, w)" "run_state (sys_open_rd ?src) w = (Inr (), w)"
    "run_state (try_read_lock ?src) w = (0, w)" "run_state (unlock_file ?src) w = ((), w)"
    using is_regular_exact [of w ?src] src sc open_rd_run [OF sc src]
    by (simp_all add: no_failure_def try_read_lock_def unlock_file_def sys_setlk_def run_syscall)
  obtain wb where wb: "run_state (backup_old_version ?root ?rel) w = (0, wb)" "calm wb" "replaceable wb ?cur"
    by (rule backup_succeeds [OF R(1,2) san R(3,4)])
  have scb: "w_script wb = []" using wb(2) by (simp add: calm_def)
  have conf: "fs_confined (w_cwd w) (backup_area (w_cwd w) ?root) w wb"
    by (rule fcr.runD [OF backup_version_confined wb(1)])
  have pk: "pkey wb p = pkey w p" for p by (rule confined_pkey [OF conf])
  have srcb: "fs_find wb ?src = Inr (Reg s ms ts)"
    using confined_keeps [OF conf out] src pk by (auto simp: fs_find_def split: option.splits if_splits)
  have area: "path_key (w_cwd w) (?cur @ ''.syncing'') \<in> backup_area (w_cwd w) ?root"
    using joined_area [OF _ dotdot_suffix [OF nd], of "''current''" "w_cwd w" ?root "[]"]
    by (simp add: current_syncing [OF san])
  then have ne: "pkey wb ?src \<noteq> pkey wb (?cur @ ''.syncing'')" using out pk by (metis pkey_def)
  obtain wd where wd: "run_state (copy_file_atomic ?src ?cur) wb = (0, wd)" "calm wd"
    "fs_same (w_cwd wb) (parent_keys wb ?cur \<union> below (pkey wb ?cur) \<union> below (pkey wb (?cur @ ''.syncing''))) wb wd"
    by (rule copy_atomic_succeeds [OF wb(2,3) srcb ne])
  have scd: "w_script wd = []" using wd(2) by (simp add: calm_def)
  have cur: "?cur \<noteq> []" "\<not> wants_dir ?cur" using R(3) by (simp_all add: replaceable_def file_place_def)
  have "fs_wf (w_fs wb)" using wb(2) by (simp add: calm_def)
  then obtain m t where "fs_get (w_fs wd) (pkey wb ?cur) = Some (Reg s m t)"
    using copy_atomic_success [OF wd(1) _ ne cur(1)] fs_find_Inr [OF srcb] by auto
  moreover have "pkey wd ?cur = pkey wb ?cur" using wd(3) by (simp add: fs_same_def pkey_def)
  ultimately have dst: "fs_find wd ?cur = Inr (Reg s m t)" using cur by (simp add: fs_find_def)
  obtain x we where md: "run_state (set_file_metadata ?cur (t_mode task) (sint (t_mtime task))) wd = (x, we)"
    by (rule prod.exhaust)
  show ?thesis
    by (auto simp: sync_local_file_def pre tgt wb(1) wd(1) md hash_file_exact [OF scb srcb]
        hash_file_exact [OF scd dst] split: prod.splits)
qed

end
