(* ===== verification/TransferRemote.thy ===== *)
theory TransferRemote
  imports LocalLaws Sockets
begin

text \<open>
  The remote mode of \<^verbatim>\<open>src/transfer.c\<close>: what a worker sends to the server for a task, and how it
  reads the answer. \<open>sock\<close> is the descriptor the kernel gives for the connection.
\<close>

section \<open>Answers and headers\<close>

definition wait_for_ack :: "int \<Rightarrow> int prog" where
  "wait_for_ack fd = do {
     r \<leftarrow> recv_header fd;
     ret (case r of
        None \<Rightarrow> - 1
      | Some reply \<Rightarrow>
          if h_msg_type reply = MSG_ACK \<or> h_msg_type reply = MSG_OFFSET_REPLY then 0 else - 1)
   }"

text \<open>The header of a message about a path.\<close>

definition path_header :: "32 word \<Rightarrow> string \<Rightarrow> sync_header" where
  "path_header msg_type rel_path =
     (init_sync_header msg_type)\<lparr>h_path_len := word_of_nat (length rel_path)\<rparr>"

definition send_header_with_path :: "int \<Rightarrow> 32 word \<Rightarrow> string \<Rightarrow> int prog" where
  "send_header_with_path fd msg_type rel_path =
     (let header = path_header msg_type rel_path in
      if unat (h_path_len header) > MAX_NET_PATH then ret (- 1)
      else do {
        r \<leftarrow> send_header fd header;
        if r < 0 then ret (- 1) else send_path fd rel_path
      })"

text \<open>The body of every request: a connection, the messages, and the answer.\<close>

definition and_then :: "int prog \<Rightarrow> int prog \<Rightarrow> int prog" where
  "and_then m n = do { ok \<leftarrow> m; if ok = 0 then n else ret ok }"

definition with_socket :: "int \<Rightarrow> client_config \<Rightarrow> (int \<Rightarrow> int prog) \<Rightarrow> int prog" where
  "with_socket sock config body = do {
     fd \<leftarrow> create_client_socket sock (cc_server_ip config) (cc_port config);
     if fd < 0 then ret (- 1) else body fd
   }"

definition send_remote_delete :: "int \<Rightarrow> client_config \<Rightarrow> sync_task \<Rightarrow> int prog" where
  "send_remote_delete sock config task =
     with_socket sock config (\<lambda>fd.
       and_then (send_header_with_path fd MSG_FILE_DELETE (t_rel_path task)) (wait_for_ack fd))"

definition rename_payload :: "sync_task \<Rightarrow> bytes" where
  "rename_payload task = t_old_rel_path task @ NUL # t_rel_path task"

definition send_remote_rename :: "int \<Rightarrow> client_config \<Rightarrow> sync_task \<Rightarrow> int prog" where
  "send_remote_rename sock config task =
     (if t_old_rel_path task = [] then ret (- 1)
      else if length (t_old_rel_path task) + 1 + length (t_rel_path task) > MAX_NET_PATH then ret (- 1)
      else with_socket sock config (\<lambda>fd.
        let header = path_header MSG_FILE_RENAME (rename_payload task) in
        and_then (send_header fd header)
          (and_then
            (do {
               r \<leftarrow> write_full fd (rename_payload task);
               ret (if r = int (length (rename_payload task)) then 0 else - 1)
             })
            (wait_for_ack fd))))"

definition dir_header :: "sync_task \<Rightarrow> sync_header" where
  "dir_header task = (path_header MSG_FILE_BEGIN (t_rel_path task))
     \<lparr>h_mode := t_mode task OR S_IFDIR, h_mtime := t_mtime task\<rparr>"

definition send_remote_dir_create :: "int \<Rightarrow> client_config \<Rightarrow> sync_task \<Rightarrow> int prog" where
  "send_remote_dir_create sock config task =
     with_socket sock config (\<lambda>fd.
       and_then (send_header fd (dir_header task))
         (and_then (send_path fd (t_rel_path task)) (wait_for_ack fd)))"

section \<open>Sending files\<close>

definition block_header :: "bytes \<Rightarrow> 64 word \<Rightarrow> 64 word \<Rightarrow> 64 word \<Rightarrow> 32 word \<Rightarrow> 64 word \<Rightarrow> sync_header" where
  "block_header buf offset file_size total_hash mode mtime =
     (init_sync_header MSG_FILE_BLOCK)\<lparr>h_file_size := file_size, h_offset := offset,
       h_data_len := word_of_nat (length buf), h_mode := mode, h_mtime := mtime,
       h_total_hash := total_hash, h_block_hash := hash_buffer_fnv1a buf\<rparr>"

definition send_file_block ::
  "int \<Rightarrow> bytes \<Rightarrow> 64 word \<Rightarrow> 64 word \<Rightarrow> 64 word \<Rightarrow> 32 word \<Rightarrow> 64 word \<Rightarrow> int prog" where
  "send_file_block fd buf offset file_size total_hash mode mtime = do {
     s \<leftarrow> send_header fd (block_header buf offset file_size total_hash mode mtime);
     if s < 0 then ret (- 1)
     else do {
       r \<leftarrow> write_full fd buf;
       ret (if r = int (length buf) then 0 else - 1)
     }
   }"

definition end_header :: "64 word \<Rightarrow> 64 word \<Rightarrow> 32 word \<Rightarrow> 64 word \<Rightarrow> sync_header" where
  "end_header file_size total_hash mode mtime =
     (init_sync_header MSG_FILE_END)\<lparr>h_file_size := file_size, h_offset := file_size, h_mode := mode,
       h_mtime := mtime, h_total_hash := total_hash\<rparr>"

definition send_file_end :: "int \<Rightarrow> 64 word \<Rightarrow> 64 word \<Rightarrow> 32 word \<Rightarrow> 64 word \<Rightarrow> int prog" where
  "send_file_end fd file_size total_hash mode mtime =
     send_header fd (end_header file_size total_hash mode mtime)"

text \<open>\<^verbatim>\<open>read_full\<close> on the descriptor of a file: reads are repeated until all bytes are there.\<close>

function fread_loop :: "path \<Rightarrow> nat \<Rightarrow> nat \<Rightarrow> bytes \<Rightarrow> world \<Rightarrow> bytes option \<times> world" where
  "fread_loop p pos left got w =
     (if left = 0 then (Some got, w)
      else case run_state (sys_fread p pos left) w of
        (Inl e, w1) \<Rightarrow> if e = EINTR then fread_loop p pos left got w1 else (None, w1)
      | (Inr d, w1) \<Rightarrow>
          if d = [] then (None, w1)
          else fread_loop p (pos + length d) (left - length d) (got @ d) w1)"
  by pat_completeness auto
termination
proof (relation "measure (\<lambda>(p, pos, left, got, w). length (w_script w) + left)", goal_cases)
  case 1
  show ?case by simp
next
  case (2 p pos left got w x w1 e)
  then have "w_script w \<noteq> []" and "w1 = rest_script w"
    using sys_fread_EINTR sys_fread_world by (metis snd_conv)+
  then show ?case by simp
next
  case (3 p pos left got w x w1 d)
  then have "w1 = rest_script w" using sys_fread_world by (metis snd_conv)
  moreover have "0 < length d" "0 < left" using 3 by simp_all
  ultimately show ?case by (simp add: add_le_less_mono)
qed

declare fread_loop.simps [simp del]

lemma fread_loop_step:
  "0 < left \<Longrightarrow> run_state (sys_fread p pos left) w = (x, w1) \<Longrightarrow>
   fread_loop p pos left got w =
     (case x of
        Inl e \<Rightarrow> if e = EINTR then fread_loop p pos left got w1 else (None, w1)
      | Inr d \<Rightarrow>
          if d = [] then (None, w1)
          else fread_loop p (pos + length d) (left - length d) (got @ d) w1)"
  by (subst fread_loop.simps) simp

definition file_read_full :: "path \<Rightarrow> nat \<Rightarrow> bytes option prog" where
  "file_read_full p n = State (fread_loop p 0 n [])"

definition begin_header :: "sync_task \<Rightarrow> 64 word \<Rightarrow> sync_header" where
  "begin_header task total_hash = (path_header MSG_FILE_BEGIN (t_rel_path task))
     \<lparr>h_file_size := t_file_size task, h_mode := t_mode task, h_mtime := t_mtime task,
      h_total_hash := total_hash\<rparr>"

definition success_text :: "int \<Rightarrow> sync_task \<Rightarrow> string \<Rightarrow> 64 word \<Rightarrow> string" where
  "success_text worker_id task strategy total_hash =
     worker_text worker_id (''remote sync success '' @ t_rel_path task @ '' strategy='' @ strategy @
       '' hash='' @ hex16 total_hash)"

text \<open>The one block of a small file: the buffer holds the whole file, its length is sent as a
  32-bit number and only that many bytes follow.\<close>

definition send_small_body :: "int \<Rightarrow> sync_task \<Rightarrow> 64 word \<Rightarrow> int prog" where
  "send_small_body fd task total_hash =
     (let size = unat (t_file_size task) in do {
        m \<leftarrow> sys_malloc (if size = 0 then 1 else size);
        (case m of
           Inl _ \<Rightarrow> ret (- 1)
         | Inr _ \<Rightarrow>
             if size = 0 then ret 0
             else do {
               b \<leftarrow> file_read_full (t_src_path task) size;
               (case b of
                  None \<Rightarrow> ret (- 1)
                | Some buf \<Rightarrow>
                    send_file_block fd (take (unat (word_of_nat size :: 32 word)) buf) 0
                      (t_file_size task) total_hash (t_mode task) (t_mtime task))
             })
      })"

definition send_remote_small_file :: "int \<Rightarrow> client_config \<Rightarrow> sync_task \<Rightarrow> int \<Rightarrow> int \<Rightarrow> int prog" where
  "send_remote_small_file sock config task log_fd worker_id =
     with_socket sock config (\<lambda>fd. do {
       total_hash \<leftarrow> hash_file_fnv1a (t_src_path task);
       ok \<leftarrow> and_then (send_header fd (begin_header task total_hash))
         (and_then (send_path fd (t_rel_path task))
         (and_then (do { i \<leftarrow> sys_open_rd (t_src_path task); ret (if isl i then - 1 else 0) })
         (and_then (send_small_body fd task total_hash)
         (and_then (send_file_end fd (t_file_size task) total_hash (t_mode task) (t_mtime task))
         (wait_for_ack fd)))));
       (if ok = 0 then do {
          _ \<leftarrow> log_message log_fd LOG_INFO (success_text worker_id task ''small-file'' total_hash);
          ret ok
        }
        else ret ok)
     })"

definition query_remote_offset :: "int \<Rightarrow> sync_task \<Rightarrow> 64 word option prog" where
  "query_remote_offset fd task = do {
     s \<leftarrow> send_header_with_path fd MSG_QUERY_OFFSET (t_rel_path task);
     if s < 0 then ret None
     else do {
       r \<leftarrow> recv_header fd;
       ret (case r of
          None \<Rightarrow> None
        | Some reply \<Rightarrow> if h_msg_type reply \<noteq> MSG_OFFSET_REPLY then None else Some (h_offset reply))
     }
   }"

text \<open>The blocks of a large file from \<open>rpos\<close> on, until the file ends; \<open>pos\<close> is the offset sent.\<close>

lemma send_file_block_talks: "state_io_rel (talks fd) (send_file_block fd b o' s h m t)"
  unfolding send_file_block_def by (intro tkr.rules talk_rules)

lemma talks_script: "talks fd w w' \<Longrightarrow> length (w_script w') \<le> length (w_script w)"
  by (auto simp: talks_def)

function send_blocks :: "int \<Rightarrow> sync_task \<Rightarrow> 64 word \<Rightarrow> nat \<Rightarrow> nat \<Rightarrow> 64 word \<Rightarrow> world \<Rightarrow> int \<times> world" where
  "send_blocks fd task total_hash block_size rpos pos w =
     (case run_state (sys_fread (t_src_path task) rpos block_size) w of
        (Inl e, w1) \<Rightarrow>
          if e = EINTR then send_blocks fd task total_hash block_size rpos pos w1 else (- 1, w1)
      | (Inr d, w1) \<Rightarrow>
          if d = [] then (0, w1)
          else case run_state (send_file_block fd d pos (t_file_size task) total_hash
                 (t_mode task) (t_mtime task)) w1 of
            (ok, w2) \<Rightarrow>
              if ok = 0 then send_blocks fd task total_hash block_size (rpos + length d)
                (pos + word_of_nat (length d)) w2
              else (ok, w2))"
  by pat_completeness auto
termination
proof (relation "measure (\<lambda>(fd, task, h, bs, rpos, pos, w).
    length (w_script w) + (length (file_bytes w (t_src_path task)) - rpos))", goal_cases)
  case 1
  show ?case by simp
next
  case (2 fd task h bs rpos pos w x w1 e)
  then have "w_script w \<noteq> []" and "w1 = rest_script w"
    using sys_fread_EINTR sys_fread_world by (metis snd_conv)+
  then show ?case by simp
next
  case (3 fd task h bs rpos pos w x w1 d ok w2)
  then have r: "run_state (sys_fread (t_src_path task) rpos bs) w = (Inr d, w1)"
    and s: "run_state (send_file_block fd d pos (t_file_size task) h (t_mode task) (t_mtime task)) w1 = (ok, w2)"
    by simp_all
  have w1: "w1 = rest_script w" using sys_fread_world r by (metis snd_conv)
  have t: "talks fd w1 w2" by (rule tkr.runD [OF send_file_block_talks s])
  have "length (w_script w2) \<le> length (w_script w)" using talks_script [OF t] w1 by simp
  moreover have "length (file_bytes w (t_src_path task)) - (rpos + length d) <
      length (file_bytes w (t_src_path task)) - rpos"
    using sys_fread_length [OF r] 3(3) by (cases d) auto
  moreover have "file_bytes w2 (t_src_path task) = file_bytes w (t_src_path task)"
    using talks_simps(14) [OF t] w1 by simp
  ultimately show ?case by (simp add: add_le_less_mono)
qed

declare send_blocks.simps [simp del]

definition send_remote_large_file :: "int \<Rightarrow> client_config \<Rightarrow> sync_task \<Rightarrow> int \<Rightarrow> int \<Rightarrow> int prog" where
  "send_remote_large_file sock config task log_fd worker_id =
     with_socket sock config (\<lambda>fd. do {
       q \<leftarrow> query_remote_offset fd task;
       (case q of
          None \<Rightarrow> ret (- 1)
        | Some offset \<Rightarrow> do {
            i \<leftarrow> sys_open_rd (t_src_path task);
            (case i of
               Inl _ \<Rightarrow> ret (- 1)
             | Inr _ \<Rightarrow> do {
                 total_hash \<leftarrow> hash_file_fnv1a (t_src_path task);
                 l \<leftarrow> sys_lseek (t_src_path task) (sint offset);
                 (case l of
                    Inl _ \<Rightarrow> ret (- 1)
                  | Inr _ \<Rightarrow> do {
                      m \<leftarrow> sys_malloc (nat (cc_block_size config));
                      (case m of
                         Inl _ \<Rightarrow> ret (- 1)
                       | Inr _ \<Rightarrow> do {
                           ok \<leftarrow> and_then
                             (State (send_blocks fd task total_hash (nat (cc_block_size config))
                               (unat offset) offset))
                             (and_then
                               (send_file_end fd (t_file_size task) total_hash (t_mode task) (t_mtime task))
                               (wait_for_ack fd));
                           (if ok = 0 then do {
                              _ \<leftarrow> log_message log_fd LOG_INFO (success_text worker_id task
                                (''large-file resume offset='' @ dec (unat offset)) total_hash);
                              ret ok
                            }
                            else ret ok)
                         })
                    })
               })
          })
     })"

section \<open>A task\<close>

definition sync_file_remote :: "int \<Rightarrow> client_config \<Rightarrow> sync_task \<Rightarrow> int \<Rightarrow> int \<Rightarrow> int prog" where
  "sync_file_remote sock config task log_fd worker_id = do {
     reg \<leftarrow> is_regular_file (t_src_path task);
     if \<not> reg then do {
       _ \<leftarrow> log_message log_fd LOG_WARN (worker_text worker_id (''source disappeared '' @ t_rel_path task));
       ret 0
     }
     else do {
       i \<leftarrow> sys_open_rd (t_src_path task);
       (case i of
          Inl _ \<Rightarrow> ret (- 1)
        | Inr _ \<Rightarrow> do {
            l \<leftarrow> try_read_lock (t_src_path task);
            if l < 0 then ret (- 1)
            else do {
              _ \<leftarrow> unlock_file (t_src_path task);
              if sint (t_file_size task) > cc_hash_threshold config
              then send_remote_large_file sock config task log_fd worker_id
              else send_remote_small_file sock config task log_fd worker_id
            }
          })
     }
   }"

definition sync_task_remote :: "int \<Rightarrow> client_config \<Rightarrow> sync_task \<Rightarrow> int \<Rightarrow> int \<Rightarrow> int prog" where
  "sync_task_remote sock config task log_fd worker_id =
     (let file_or_dir =
        (if t_is_dir task \<noteq> 0 then do {
           rc \<leftarrow> send_remote_dir_create sock config task;
           (if rc = 0 then do {
              _ \<leftarrow> log_message log_fd LOG_INFO (worker_text worker_id (''remote mkdir '' @ t_rel_path task));
              ret rc
            }
            else ret rc)
         }
         else sync_file_remote sock config task log_fd worker_id)
      in
      if sanitize_rel_path (t_rel_path task) < 0 then ret (- 1)
      else if t_event_type task = EVENT_DELETE then do {
        rc \<leftarrow> send_remote_delete sock config task;
        (if rc = 0 then do {
           _ \<leftarrow> log_message log_fd LOG_INFO (worker_text worker_id (''remote delete '' @ t_rel_path task));
           ret rc
         }
         else ret rc)
      }
      else if t_event_type task = EVENT_RENAME \<and> t_old_rel_path task \<noteq> [] then do {
        rc \<leftarrow> send_remote_rename sock config task;
        (if rc = 0 then do {
           _ \<leftarrow> log_message log_fd LOG_INFO (worker_text worker_id
             (''remote rename '' @ t_old_rel_path task @ '' -> '' @ t_rel_path task));
           ret 0
         }
         else do {
           _ \<leftarrow> log_message log_fd LOG_WARN (worker_text worker_id
             (''remote rename fallback sync '' @ t_rel_path task));
           file_or_dir
         })
      }
      else file_or_dir)"

end
