(* ===== verification/Server.thy ===== *)
theory Server
  imports TransferLocal Sockets
begin

text \<open>
  \<^verbatim>\<open>src/server.c\<close>: one connection of the server. The handlers of file transfers, deletions and
  renames run under \<open>server_file_mutex\<close>, so the handlers of several connections are executed one
  after the other; a descriptor of a file is represented by its path.
\<close>

section \<open>Logging and paths\<close>

text \<open>
  The log file is kept beside the file tree, as in \<open>Logger\<close>: what is appended to it is a line in \<open>w_log\<close>
  under its path. Opening it can fail, and the line then goes to the standard output only; that opening
  makes the file when it is missing is not a change of the tree. The configured path is the only one
  lines are written under besides the standard output (\<open>logs_to\<close> in theory \<open>Guard\<close>).
\<close>

definition server_log :: "path \<Rightarrow> 32 word \<Rightarrow> string \<Rightarrow> unit prog" where
  "server_log log_path level message = do {
     r \<leftarrow> syscall (\<lambda>w. (Inr () :: errno + unit, w));
     pid \<leftarrow> get_pid;
     let msg = \<lparr>lm_pid = pid, lm_level = level, lm_message = fst (snprintf_s MAX_LOG_LEN message)\<rparr>;
     write_both (case r of Inl _ \<Rightarrow> stdout | Inr _ \<Rightarrow> log_path) msg
   }"

definition current_path :: "nat \<Rightarrow> path \<Rightarrow> string \<Rightarrow> path option" where
  "current_path out_size root rel_path =
     (if sanitize_rel_path rel_path < 0 then None
      else case join_path MAX_PATH_LEN root ''current'' of
        None \<Rightarrow> None
      | Some current \<Rightarrow> join_path out_size current rel_path)"

text \<open>The target and the temporary file next to it.\<close>

definition current_and_tmp :: "path \<Rightarrow> string \<Rightarrow> (path \<times> path) option" where
  "current_and_tmp root rel_path =
     (case current_path MAX_PATH_LEN root rel_path of
        None \<Rightarrow> None
      | Some dst \<Rightarrow>
          (let (tmp, n) = snprintf_s MAX_PATH_LEN (dst @ ''.syncing'')
           in if n \<ge> MAX_PATH_LEN then None else Some (dst, tmp)))"

section \<open>Receiving blocks\<close>

text \<open>\<^verbatim>\<open>pwrite\<close>: the offset is a signed 64-bit number.\<close>

definition sys_pwrite :: "path \<Rightarrow> bytes \<Rightarrow> 64 word \<Rightarrow> (errno + nat) prog" where
  "sys_pwrite p d offset =
     (if sint offset < 0 then syscall (\<lambda>w. (Inl EINVAL, w)) else sys_fwrite p (unat offset) d)"

abbreviation MAX_BLOCK :: nat where "MAX_BLOCK \<equiv> 16 * 1024 * 1024"

text \<open>One block after its header; \<open>False\<close> is an error.\<close>

definition recv_block :: "int \<Rightarrow> path \<Rightarrow> sync_header \<Rightarrow> bool prog" where
  "recv_block client_fd out h =
     (if h_msg_type h \<noteq> MSG_FILE_BLOCK \<or> h_data_len h = 0 \<or> unat (h_data_len h) > MAX_BLOCK then ret False
      else do {
        m \<leftarrow> sys_malloc (unat (h_data_len h));
        (case m of
           Inl _ \<Rightarrow> ret False
         | Inr _ \<Rightarrow> do {
             b \<leftarrow> read_full client_fd (unat (h_data_len h));
             (case b of
                None \<Rightarrow> ret False
              | Some buf \<Rightarrow>
                  if h_block_hash h \<noteq> 0 \<and> hash_buffer_fnv1a buf \<noteq> h_block_hash h then ret False
                  else do {
                    n \<leftarrow> sys_pwrite out buf (h_offset h);
                    ret (n = Inr (unat (h_data_len h)))
                  })
           })
      })"

lemma recv_block_consumes:
  assumes "run_state (recv_block fd out h) w = (ok, w')"
  shows "length (w_rx w' fd) \<le> length (w_rx w fd)"
proof -
  have pw: "w_rx w2 fd = w_rx w1 fd" if "run_state (sys_pwrite out d off) w1 = (x, w2)" for w1 w2 x d off
    using that ssr.runD [OF ssf.fwrite [OF TrueI]]
      ssr.runD [OF ssr.syscall [of "\<lambda>w. (Inl EINVAL :: errno + nat, w)"]] ssr.refl
    by (auto simp: sys_pwrite_def streams_same_def split: if_splits)
  show ?thesis
    using assms ssr.runD [OF ssr.calls(7)] read_full_talks [THEN tkr.runD, THEN talks_simps(10)]
    by (fastforce simp: recv_block_def streams_same_def dest: pw suffix_length_le
        split: if_splits prod.splits sum.splits option.splits)
qed

function recv_blocks :: "int \<Rightarrow> path \<Rightarrow> 64 word \<Rightarrow> world \<Rightarrow> (int \<times> sync_header) \<times> world" where
  "recv_blocks client_fd out expected_hash w =
     (case run_state (recv_header client_fd) w of
        (None, w1) \<Rightarrow> ((- 1, zero_header), w1)
      | (Some h, w1) \<Rightarrow>
          if h_msg_type h = MSG_FILE_END then
            ((if expected_hash \<noteq> 0 \<and> h_total_hash h \<noteq> 0 \<and> expected_hash \<noteq> h_total_hash h
              then - 1 else 0, h), w1)
          else case run_state (recv_block client_fd out h) w1 of
            (ok, w2) \<Rightarrow>
              if ok then recv_blocks client_fd out expected_hash w2 else ((- 1, zero_header), w2))"
  by pat_completeness auto
termination
proof (relation "measure (\<lambda>(fd, out, hash, w). length (w_rx w fd))", goal_cases)
  case 1
  show ?case by simp
next
  case (2 fd out hash w x w1 h ok w2)
  then have "run_state (recv_header fd) w = (Some h, w1)"
    and b: "run_state (recv_block fd out h) w1 = (ok, w2)" by simp_all
  from recv_header_result(2) [OF this(1)] have "length (w_rx w fd) = header_size + length (w_rx w1 fd)"
    by simp
  then show ?case using recv_block_consumes [OF b] by (simp add: header_size_def)
qed

declare recv_blocks.simps [simp del]

definition recv_file_blocks_until_end :: "int \<Rightarrow> path \<Rightarrow> 64 word \<Rightarrow> (int \<times> sync_header) prog" where
  "recv_file_blocks_until_end client_fd out expected_hash = State (recv_blocks client_fd out expected_hash)"

section \<open>The handlers\<close>

definition refuse :: "int \<Rightarrow> string \<Rightarrow> int prog" where
  "refuse client_fd message = do { _ \<leftarrow> send_error client_fd message; ret (- 1) }"

definition accept_with :: "int \<Rightarrow> 64 word \<Rightarrow> int prog" where
  "accept_with client_fd offset = do { _ \<leftarrow> send_ack client_fd offset; ret 0 }"

text \<open>What is done with the temporary file once it is open: 0 when the target was replaced.\<close>

definition begin_transfer :: "int \<Rightarrow> sync_header \<Rightarrow> path \<Rightarrow> path \<Rightarrow> int prog" where
  "begin_transfer client_fd h tmp dst = do {
     r \<leftarrow> recv_file_blocks_until_end client_fd tmp (h_total_hash h);
     f \<leftarrow> sys_fsync tmp;
     let ok = (if isl f then - 1 else fst r);
     actual \<leftarrow> (if ok = 0 then hash_file_fnv1a tmp else ret 0);
     let expected = (if h_total_hash (snd r) \<noteq> 0 then h_total_hash (snd r) else h_total_hash h);
     if ok = 0 \<and> expected \<noteq> 0 \<and> actual \<noteq> expected then ret (- 1)
     else if ok = 0 then do {
       m \<leftarrow> safe_rename_or_copy_unlink tmp dst;
       if m = 0 then do {
         _ \<leftarrow> set_file_metadata dst (h_mode h) (sint (h_mtime h));
         ret 0
       }
       else ret (- 1)
     }
     else ret (- 1)
   }"

definition server_handle_file_begin :: "int \<Rightarrow> sync_header \<Rightarrow> path \<Rightarrow> string \<Rightarrow> int prog" where
  "server_handle_file_begin client_fd h root rel_path =
     (case current_and_tmp root rel_path of
        None \<Rightarrow> refuse client_fd ''invalid path''
      | Some (dst, tmp) \<Rightarrow>
          if S_ISDIR (h_mode h) then do {
            ok \<leftarrow> ensure_dir_exists dst;
            if ok = 0 then accept_with client_fd 0 else refuse client_fd ''mkdir failed''
          }
          else do {
            p \<leftarrow> ensure_parent_dir_exists dst;
            b \<leftarrow> (if p < 0 then ret (- 1) else backup_old_version root rel_path);
            if b < 0 then refuse client_fd ''prepare destination failed''
            else do {
              fd \<leftarrow> sys_open_wr tmp True (if h_mode h \<noteq> 0 then h_mode h else 0x1A4);
              (case fd of
                 Inl _ \<Rightarrow> refuse client_fd ''open temp failed''
               | Inr _ \<Rightarrow> do {
                   ok \<leftarrow> begin_transfer client_fd h tmp dst;
                   if ok = 0 then accept_with client_fd (h_file_size h)
                   else refuse client_fd ''file receive failed''
                 })
            }
          })"

definition server_handle_file_delete :: "int \<Rightarrow> path \<Rightarrow> string \<Rightarrow> int prog" where
  "server_handle_file_delete client_fd root rel_path = do {
     ok \<leftarrow> move_to_trash root rel_path;
     if ok = 0 then accept_with client_fd 0 else refuse client_fd ''delete failed''
   }"

text \<open>The payload of a rename: the old path, a NUL, the new path (\<open>combined\<close> is followed by a NUL).\<close>

definition server_handle_file_rename :: "int \<Rightarrow> path \<Rightarrow> bytes \<Rightarrow> nat \<Rightarrow> int prog" where
  "server_handle_file_rename client_fd root combined path_len =
     (let old_rel = cstr (take path_len combined); old_len = length old_rel;
          new_rel = cstr (drop (old_len + 1) combined)
      in
      if old_len \<ge> path_len then refuse client_fd ''invalid rename payload''
      else if old_len + 1 \<ge> path_len \<or> sanitize_rel_path old_rel < 0 \<or> sanitize_rel_path new_rel < 0
        then refuse client_fd ''invalid rename path''
      else case current_path MAX_PATH_LEN root old_rel of
        None \<Rightarrow> refuse client_fd ''rename path too long''
      | Some old_path \<Rightarrow>
     (case current_path MAX_PATH_LEN root new_rel of
        None \<Rightarrow> refuse client_fd ''rename path too long''
      | Some new_path \<Rightarrow> do {
          p \<leftarrow> ensure_parent_dir_exists new_path;
          ok \<leftarrow> (if p = 0 then safe_rename_or_copy_unlink old_path new_path else ret p);
          if ok = 0 then accept_with client_fd 0 else refuse client_fd ''rename failed''
        }))"

definition server_handle_query_offset :: "int \<Rightarrow> path \<Rightarrow> string \<Rightarrow> int prog" where
  "server_handle_query_offset client_fd root rel_path =
     (case current_and_tmp root rel_path of
        None \<Rightarrow> refuse client_fd ''invalid query path''
      | Some (dst, tmp) \<Rightarrow> do {
          s \<leftarrow> get_file_size tmp;
          let size = (case s of None \<Rightarrow> 0 | Some n \<Rightarrow> n);
          send_header client_fd ((init_sync_header MSG_OFFSET_REPLY)\<lparr>h_offset := word_of_int size\<rparr>)
        })"

text \<open>A resumed transfer: the temporary file is kept and the first block has been announced.\<close>

definition first_block_stored :: "int \<Rightarrow> sync_header \<Rightarrow> path \<Rightarrow> bool prog" where
  "first_block_stored client_fd h tmp = do {
     b \<leftarrow> read_full client_fd (unat (h_data_len h));
     (case b of
        None \<Rightarrow> ret False
      | Some buf \<Rightarrow>
          if hash_buffer_fnv1a buf \<noteq> h_block_hash h then ret False
          else do {
            n \<leftarrow> sys_pwrite tmp buf (h_offset h);
            ret (n = Inr (unat (h_data_len h)))
          })
   }"

definition large_transfer :: "int \<Rightarrow> sync_header \<Rightarrow> path \<Rightarrow> string \<Rightarrow> path \<Rightarrow> path \<Rightarrow> int prog" where
  "large_transfer client_fd h root rel_path tmp dst = do {
     first \<leftarrow> first_block_stored client_fd h tmp;
     r \<leftarrow> (if first then recv_file_blocks_until_end client_fd tmp 0 else ret (- 1, zero_header));
     f \<leftarrow> sys_fsync tmp;
     let ok = (if isl f then - 1 else fst r);
     let expected = (if h_total_hash (snd r) \<noteq> 0 then h_total_hash (snd r) else h_total_hash h);
     actual \<leftarrow> (if ok = 0 \<and> expected \<noteq> 0 then hash_file_fnv1a tmp else ret expected);
     if ok = 0 \<and> actual = expected then do {
       _ \<leftarrow> backup_old_version root rel_path;
       m \<leftarrow> safe_rename_or_copy_unlink tmp dst;
       if m = 0 then do {
         _ \<leftarrow> set_file_metadata dst (h_mode h) (sint (h_mtime h));
         ret 0
       }
       else ret m
     }
     else ret (- 1)
   }"

definition handle_large_block_stream :: "int \<Rightarrow> sync_header \<Rightarrow> path \<Rightarrow> string \<Rightarrow> int prog" where
  "handle_large_block_stream client_fd h root rel_path =
     (case current_and_tmp root rel_path of
        None \<Rightarrow> refuse client_fd ''invalid path''
      | Some (dst, tmp) \<Rightarrow> do {
          p \<leftarrow> ensure_parent_dir_exists dst;
          if p < 0 then refuse client_fd ''prepare destination failed''
          else do {
            fd \<leftarrow> sys_open_wr tmp False (if h_mode h \<noteq> 0 then h_mode h else 0x1A4);
            (case fd of
               Inl _ \<Rightarrow> refuse client_fd ''open temp failed''
             | Inr _ \<Rightarrow> do {
                 m \<leftarrow> sys_malloc (unat (h_data_len h));
                 (case m of
                    Inl _ \<Rightarrow> refuse client_fd ''alloc failed''
                  | Inr _ \<Rightarrow> do {
                      ok \<leftarrow> large_transfer client_fd h root rel_path tmp dst;
                      if ok = 0 then accept_with client_fd (h_file_size h)
                      else refuse client_fd ''large file receive failed''
                    })
               })
          }
        })"

section \<open>What the handlers keep\<close>

text \<open>A relation kept by reading from descriptors is kept by receiving files.\<close>

locale block_relation = world_relation R for R :: "world \<Rightarrow> world \<Rightarrow> bool" +
  fixes fine :: "path \<Rightarrow> bool"
  assumes block_write: "fine p \<Longrightarrow> state_io_rel R (sys_fwrite p pos d)"
    and read: "state_io_rel R (read_full fd n)"
begin

lemma read_header: "state_io_rel R (recv_header fd)"
  unfolding recv_header_def by (intro rules read)

lemma pwrite: "fine p \<Longrightarrow> state_io_rel R (sys_pwrite p d off)"
  unfolding sys_pwrite_def by (intro rules block_write syscall) (simp add: refl)

lemma recv_block: "fine out \<Longrightarrow> state_io_rel R (recv_block fd out h)"
  unfolding recv_block_def by (intro rules calls read pwrite)

lemma recv_blocks: "recv_blocks fd out e w = (r, w') \<Longrightarrow> fine out \<Longrightarrow> R w w'"
proof (induction fd out e w rule: recv_blocks.induct)
  case (1 fd out e w)
  obtain x w1 where h: "run_state (recv_header fd) w = (x, w1)" by (rule prod.exhaust)
  have r1: "R w w1" by (rule runD [OF read_header h])
  show ?case
  proof (cases x)
    case None
    then show ?thesis using "1.prems" h r1 by (simp add: recv_blocks.simps)
  next
    case (Some hd)
    obtain ok w2 where b: "run_state (recv_block fd out hd) w1 = (ok, w2)" by (rule prod.exhaust)
    have r2: "R w w2" using r1 runD [OF recv_block [OF "1.prems"(2)] b] by (rule trans)
    show ?thesis
    proof (cases "h_msg_type hd = MSG_FILE_END \<or> \<not> ok")
      case True
      then show ?thesis using "1.prems" h Some b r1 r2
        by (auto simp: recv_blocks.simps [of _ _ _ w] split: if_splits)
    next
      case False
      then have "recv_blocks fd out e w2 = (r, w')" and e: "h_msg_type hd \<noteq> MSG_FILE_END" "ok"
        using "1.prems" h Some b by (simp_all add: recv_blocks.simps [of _ _ _ w])
      from trans [OF r2 "1.IH" [OF h [symmetric] Some e(1) b [symmetric] e(2) this(1) "1.prems"(2)]]
      show ?thesis .
    qed
  qed
qed

lemma recv_until_end: "fine out \<Longrightarrow> state_io_rel R (recv_file_blocks_until_end fd out e)"
  unfolding recv_file_blocks_until_end_def by (rule state_io_relI) (auto dest: recv_blocks)

lemma first_block: "fine tmp \<Longrightarrow> state_io_rel R (first_block_stored fd h tmp)"
  unfolding first_block_stored_def by (intro rules read pwrite)

end

text \<open>With the operations on files the relation is kept by whole transfers.\<close>

locale receiving_relation = file_relation R fine for R fine +
  assumes read_kept: "state_io_rel R (read_full fd n)"

sublocale receiving_relation < block_relation R fine
  by unfold_locales (simp_all add: fwrite read_kept)

context receiving_relation
begin

lemma begin_kept: "fine tmp \<Longrightarrow> fine dst \<Longrightarrow> state_io_rel R (begin_transfer fd h tmp dst)"
  unfolding begin_transfer_def Let_def
  by (intro rules recv_until_end calls looking safe_rename set_metadata)

end

sublocale worker_relation < receiving_relation R fine
  by unfold_locales (rule state_io_relI, rule talk [OF tkr.runD [OF read_full_talks]])

text \<open>A relation that also is kept by writing to the log file is kept by a whole connection.\<close>

lemma server_log_logs: "state_io_rel logs_only (server_log p l m)"
proof -
  have pid: "state_io_rel logs_only get_pid"
    by (rule state_io_relI) (auto simp: get_pid_def lgr.refl)
  have open_log: "state_io_rel logs_only (syscall (\<lambda>w. (Inr () :: errno + unit, w)))"
    by (rule lgr.syscall) (simp add: lgr.refl)
  show ?thesis unfolding server_log_def Let_def by (intro lgr.rules pid open_log write_both_logs)
qed

lemma logging_kept:
  assumes "\<And>w w'. logs_only w w' \<Longrightarrow> R w w'"
  shows "state_io_rel R (server_log p l m)"
  by (rule state_io_relI) (rule assms [OF lgr.runD [OF server_log_logs]])

locale server_relation = worker_relation R fine for R fine +
  fixes log_path :: path
  assumes logs: "state_io_rel R (server_log log_path l m)"
begin

lemma talking: "state_io_rel (talks fd) m \<Longrightarrow> state_io_rel R m"
  by (rule state_io_relI) (rule talk [OF tkr.runD])

lemma answers: "state_io_rel R (refuse fd m)" "state_io_rel R (accept_with fd off)"
  unfolding refuse_def accept_with_def
  by (intro rules talking [OF send_error_talks] talking [OF send_ack_talks])+

end

text \<open>The paths below \<open>current\<close>, \<open>.versions\<close> and \<open>.trash\<close> that a connection may write.\<close>

locale backup_relation = server_relation R fine log_path for R fine log_path +
  fixes root :: path
  assumes top: "s \<in> {''current'', ''.versions'', ''.trash''} \<Longrightarrow> fine (joined root s)"
    and cur: "sanitize_rel_path r = 0 \<Longrightarrow> join3 root ''current'' r = Some q \<Longrightarrow> fine q \<and> fine (q @ ''.syncing'')"
    and ver: "sanitize_rel_path r = 0 \<Longrightarrow> join4 root ''.versions'' (stamp_text t) r = Some q \<Longrightarrow>
      fine q \<and> fine (q @ ''.syncing'')"
    and tra: "sanitize_rel_path r = 0 \<Longrightarrow> join4 root ''.trash'' (stamp_text t) r = Some q \<Longrightarrow> fine q"
begin

lemma current_fine: "current_path MAX_PATH_LEN root r = Some q \<Longrightarrow> fine q \<and> fine (q @ ''.syncing'')"
  using cur [of r q]
  by (auto simp: current_path_def join3_def sanitize_iff split: option.splits if_splits)

lemma both_fine: "current_and_tmp root r = Some (dst, tmp) \<Longrightarrow> fine dst \<and> fine tmp"
  using current_fine [of r dst]
  by (auto simp: current_and_tmp_def snprintf_s_def split: option.splits if_splits)

lemma versions: "state_io_rel R (backup_old_version root r)"
proof (cases "sanitize_rel_path r = 0")
  case True
  then show ?thesis by (intro backup_version) (rule ver)
next
  case False
  then show ?thesis by (simp add: backup_old_version_def return)
qed

lemma trash: "state_io_rel R (move_to_trash root r)"
proof (cases "sanitize_rel_path r = 0")
  case True
  then show ?thesis by (intro to_trash) (auto dest: cur tra)
next
  case False
  then show ?thesis by (simp add: move_to_trash_def return)
qed

lemma file_begin: "state_io_rel R (server_handle_file_begin fd h root r)"
proof (cases "current_and_tmp root r")
  case None
  then show ?thesis by (simp add: server_handle_file_begin_def answers)
next
  case (Some p)
  then obtain dst tmp where "current_and_tmp root r = Some (dst, tmp)" by (cases p) simp
  then show ?thesis
    unfolding server_handle_file_begin_def using both_fine
    by (auto intro!: rules answers ensure_dir ensure_parent versions open_wr begin_kept)
qed

lemma file_delete: "state_io_rel R (server_handle_file_delete fd root r)"
  unfolding server_handle_file_delete_def by (intro rules trash answers)

lemma file_rename: "state_io_rel R (server_handle_file_rename fd root c n)"
  unfolding server_handle_file_rename_def Let_def
  by (intro rules answers ensure_parent safe_rename) (auto dest: current_fine)

lemma query_offset: "state_io_rel R (server_handle_query_offset fd root r)"
  unfolding server_handle_query_offset_def Let_def
  by (intro rules answers looking talking [OF send_header_talks])
    (auto intro!: rules answers looking talking [OF send_header_talks] split: prod.splits)

lemma large_kept: "fine tmp \<Longrightarrow> fine dst \<Longrightarrow> state_io_rel R (large_transfer fd h root r tmp dst)"
  unfolding large_transfer_def Let_def
  by (intro rules recv_until_end first_block calls looking safe_rename set_metadata versions)

lemma large_stream: "state_io_rel R (handle_large_block_stream fd h root r)"
proof (cases "current_and_tmp root r")
  case None
  then show ?thesis by (simp add: handle_large_block_stream_def answers)
next
  case (Some p)
  then obtain dst tmp where "current_and_tmp root r = Some (dst, tmp)" by (cases p) simp
  then show ?thesis
    unfolding handle_large_block_stream_def using both_fine
    by (auto intro!: rules answers ensure_parent open_wr large_kept calls)
qed

end

section \<open>A connection\<close>

text \<open>
  What one message leads to: the result of its handler and the path a following block belongs
  to. \<open>raw\<close> are the bytes of the path as they came, \<open>cstr raw\<close> is the C string in the buffer.
\<close>

definition handle_message :: "int \<Rightarrow> path \<Rightarrow> string \<Rightarrow> sync_header \<Rightarrow> bytes \<Rightarrow> (int \<times> string) prog" where
  "handle_message client_fd root last_rel_path h raw =
     (let rel_path = cstr raw; t = h_msg_type h in
      if t = MSG_HELLO then do {
        rc \<leftarrow> send_ack client_fd 0;
        ret (rc, last_rel_path)
      }
      else if t = MSG_FILE_BEGIN then do {
        rc \<leftarrow> server_handle_file_begin client_fd h root rel_path;
        ret (rc, rel_path)
      }
      else if t = MSG_QUERY_OFFSET then do {
        rc \<leftarrow> server_handle_query_offset client_fd root rel_path;
        ret (rc, rel_path)
      }
      else if t = MSG_FILE_BLOCK then
        (if last_rel_path = [] then do {
           rc \<leftarrow> refuse client_fd ''missing path before block'';
           ret (rc, last_rel_path)
         }
         else do {
           rc \<leftarrow> handle_large_block_stream client_fd h root last_rel_path;
           ret (rc, last_rel_path)
         })
      else if t = MSG_FILE_DELETE then do {
        rc \<leftarrow> server_handle_file_delete client_fd root rel_path;
        ret (rc, last_rel_path)
      }
      else if t = MSG_FILE_RENAME then do {
        rc \<leftarrow> server_handle_file_rename client_fd root raw (unat (h_path_len h));
        ret (rc, last_rel_path)
      }
      else do {
        rc \<leftarrow> refuse client_fd ''unknown message type'';
        ret (rc, last_rel_path)
      })"

text \<open>One round: \<open>Inl\<close> a result that ends the connection, \<open>Inr\<close> the path for the next round.\<close>

definition connection_round :: "int \<Rightarrow> path \<Rightarrow> path \<Rightarrow> string \<Rightarrow> sync_header \<Rightarrow> (int + string) prog" where
  "connection_round client_fd root log_path last_rel_path h =
     (if h_msg_type h = MSG_EXIT then ret (Inl 0)
      else do {
        p \<leftarrow> (if h_path_len h \<noteq> 0 then recv_path client_fd (MAX_NET_PATH + 1) (unat (h_path_len h))
             else ret (Some []));
        (case p of
           None \<Rightarrow> do {
             _ \<leftarrow> send_error client_fd ''read path failed'';
             ret (Inl (- 1))
           }
         | Some raw \<Rightarrow> do {
             r \<leftarrow> handle_message client_fd root last_rel_path h raw;
             _ \<leftarrow> server_log log_path (if fst r = 0 then LOG_INFO else LOG_ERROR)
               (''server: msg='' @ msg_type_to_string (h_msg_type h) @ '' path='' @ cstr raw @
                '' rc='' @ show_int (fst r));
             ret (if fst r < 0 then Inl (fst r)
                  else if h_msg_type h \<noteq> MSG_HELLO \<and> h_msg_type h \<noteq> MSG_QUERY_OFFSET then Inl 0
                  else Inr (snd r))
           })
      })"

context backup_relation
begin

lemma message: "state_io_rel R (handle_message fd root l h raw)"
  unfolding handle_message_def Let_def
  by (intro rules answers talking [OF send_ack_talks] file_begin query_offset large_stream
      file_delete file_rename)

lemma round: "state_io_rel R (connection_round fd root log_path l h)"
  unfolding connection_round_def
  by (intro rules talking [OF recv_path_talks] talking [OF send_error_talks] message logs)

end

section \<open>The relations of a connection\<close>

lemma shrinks_logs: "logs_only w w' \<Longrightarrow> shrinks w w'"
  by (auto simp: logs_only_def shrinks_def)

interpretation sks: server_relation shrinks "\<lambda>_. True" log_path for log_path
proof unfold_locales
  have io: "state_io_rel shrinks m" if "state_io_rel streams_same m" "state_io_rel script_used m" for m :: "'a prog"
  proof (rule state_io_relI)
    fix a w w'
    assume r: "run_state m w = (a, w')"
    from ssr.runD [OF that(1) r] sur.runD [OF that(2) r] show "shrinks w w'"
      by (auto simp: streams_same_def script_used_def shrinks_def)
  qed
  show "state_io_rel shrinks (ensure_dir_exists p)" "state_io_rel shrinks (ensure_parent_dir_exists p)" for p
    by (rule io [OF ssf.ensure_dir [OF TrueI] suf.ensure_dir [OF TrueI]]
        io [OF ssf.ensure_parent [OF TrueI] suf.ensure_parent [OF TrueI]])+
  show "state_io_rel shrinks (sys_open_wr p tr m)" for p tr m
    by (rule io [OF ssf.open_wr [OF TrueI] suf.open_wr [OF TrueI]])
  show "state_io_rel shrinks (sys_fwrite p pos d)" for p pos d
    by (rule io [OF ssf.fwrite [OF TrueI] suf.fwrite [OF TrueI]])
  show "state_io_rel shrinks (sys_unlink p)" for p by (rule io [OF ssf.unlink [OF TrueI] suf.unlink [OF TrueI]])
  show "state_io_rel shrinks (sys_chmod p m)" for p m by (rule io [OF ssf.chmod [OF TrueI] suf.chmod [OF TrueI]])
  show "state_io_rel shrinks (sys_utime p t)" for p t by (rule io [OF ssf.utime [OF TrueI] suf.utime [OF TrueI]])
  show "state_io_rel shrinks (sys_rename p q)" for p q
    by (rule io [OF ssf.rename [OF TrueI TrueI] suf.rename [OF TrueI TrueI]])
  show "talks fd w w' \<Longrightarrow> shrinks w w'" for fd w w' by (rule talks_shrinks)
  show "state_io_rel shrinks (server_log log_path l m)" for l m by (rule logging_kept [OF shrinks_logs])
qed

interpretation skb: backup_relation shrinks "\<lambda>_. True" log_path root for log_path root
  by unfold_locales simp_all

lemma talks_used: "talks fd w w' \<Longrightarrow> script_used w w'"
  by (auto simp: talks_def script_used_def)

lemma used_logs: "logs_only w w' \<Longrightarrow> script_used w w'"
  by (simp add: logs_only_def script_used_def)

interpretation sub: backup_relation script_used "\<lambda>_. True" log_path root for log_path root
  by unfold_locales (simp_all add: talks_used logging_kept [OF used_logs])

lemma wf_logs: "logs_only w w' \<Longrightarrow> fs_wf_kept w w'"
  by (simp add: logs_only_def fs_wf_kept_def)

interpretation wfb: backup_relation fs_wf_kept "\<lambda>_. True" log_path root for log_path root
  by unfold_locales (simp_all add: logging_kept [OF wf_logs])

function connection :: "int \<Rightarrow> path \<Rightarrow> path \<Rightarrow> string \<Rightarrow> world \<Rightarrow> int \<times> world" where
  "connection client_fd root log_path last_rel_path w =
     (case run_state (recv_header client_fd) w of
        (None, w1) \<Rightarrow> (- 1, w1)
      | (Some h, w1) \<Rightarrow>
          (case run_state (connection_round client_fd root log_path last_rel_path h) w1 of
             (Inl rc, w2) \<Rightarrow> (rc, w2)
           | (Inr l, w2) \<Rightarrow> connection client_fd root log_path l w2))"
  by pat_completeness auto
termination
proof (relation "measure (\<lambda>(fd, root, lp, l, w). length (w_rx w fd))", goal_cases)
  case 1
  show ?case by simp
next
  case (2 fd root lp l w x w1 h y w2 l')
  then have h: "run_state (recv_header fd) w = (Some h, w1)"
    and r: "run_state (connection_round fd root lp l h) w1 = (Inr l', w2)" by simp_all
  have "length (w_rx w fd) = header_size + length (w_rx w1 fd)"
    using recv_header_result(2) [OF h] by simp
  moreover have "length (w_rx w2 fd) \<le> length (w_rx w1 fd)"
    using skr.runD [OF skb.round r] by (simp add: shrinks_def)
  ultimately show ?case by (simp add: header_size_def)
qed

declare connection.simps [simp del]

definition server_handle_connection :: "int \<Rightarrow> path \<Rightarrow> path \<Rightarrow> int prog" where
  "server_handle_connection client_fd root log_path = State (connection client_fd root log_path [])"

context backup_relation
begin

lemma connection_kept: "connection fd rt lp l w = (r, w') \<Longrightarrow> rt = root \<Longrightarrow> lp = log_path \<Longrightarrow> R w w'"
proof (induction fd rt lp l w rule: connection.induct)
  case (1 fd rt lp l w)
  obtain x w1 where h: "run_state (recv_header fd) w = (x, w1)" by (rule prod.exhaust)
  have r1: "R w w1" by (rule talk [OF tkr.runD [OF recv_header_talks h]])
  show ?case
  proof (cases x)
    case None
    then show ?thesis using "1.prems" h r1 by (simp add: connection.simps)
  next
    case (Some hd)
    obtain y w2 where c: "run_state (connection_round fd rt lp l hd) w1 = (y, w2)" by (rule prod.exhaust)
    have r2: "R w w2" using r1 runD [OF round c [unfolded "1.prems"(2,3)]] by (rule trans)
    show ?thesis
    proof (cases y)
      case (Inl rc)
      then show ?thesis using "1.prems" h Some c r2 by (simp add: connection.simps)
    next
      case (Inr l')
      then have "connection fd rt lp l' w2 = (r, w')"
        using "1.prems" h Some c by (simp add: connection.simps [of _ _ _ _ w])
      from trans [OF r2 "1.IH" [OF h [symmetric] Some c [symmetric] Inr this "1.prems"(2,3)]]
      show ?thesis .
    qed
  qed
qed

lemma whole_connection: "state_io_rel R (server_handle_connection fd root log_path)"
  unfolding server_handle_connection_def
  by (rule state_io_relI) (auto intro: connection_kept)

end

section \<open>The server\<close>

record server_config =
  sc_port :: int
  sc_root :: path
  sc_log_path :: path

text \<open>
  What \<^verbatim>\<open>run_server\<close> does before it listens, and what it does with accepted connections: each
  runs in a thread of its own, of which the handlers are serialised by the mutex. The environment
  gives the results of \<^verbatim>\<open>accept\<close>, in their order; the connections are served in that order. When
  the list ends the server waits for the next connection (\<open>False\<close>); it leaves the loop (\<open>True\<close>)
  only when \<^verbatim>\<open>accept\<close> fails.
\<close>

definition server_prepare :: "server_config \<Rightarrow> int prog" where
  "server_prepare config =
     (case (join_path MAX_PATH_LEN (sc_root config) ''current'',
            join_path MAX_PATH_LEN (sc_root config) ''.versions'',
            join_path MAX_PATH_LEN (sc_root config) ''.trash'') of
        (Some current, Some versions, Some trash) \<Rightarrow> do {
          a \<leftarrow> ensure_dir_exists current;
          if a < 0 then ret (- 1)
          else do {
            b \<leftarrow> ensure_dir_exists versions;
            if b < 0 then ret (- 1)
            else do {
              c \<leftarrow> ensure_dir_exists trash;
              if c < 0 then ret (- 1)
              else do {
                p \<leftarrow> ensure_parent_dir_exists (sc_log_path config);
                ret (if p < 0 then - 1 else 0)
              }
            }
          }
        }
      | _ \<Rightarrow> ret (- 1))"

definition server_client_thread :: "server_config \<Rightarrow> int \<Rightarrow> unit prog" where
  "server_client_thread config client_fd = do {
     _ \<leftarrow> server_handle_connection client_fd (sc_root config) (sc_log_path config);
     ret ()
   }"

fun accept_loop :: "server_config \<Rightarrow> (errno + int) list \<Rightarrow> bool prog" where
  "accept_loop config [] = ret False"
| "accept_loop config (Inl e # rest) =
     (if e = EINTR then accept_loop config rest
      else do {
        _ \<leftarrow> server_log (sc_log_path config) LOG_ERROR (''server: accept failed: '' @ strerror e);
        ret True
      })"
| "accept_loop config (Inr client_fd # rest) = do {
     c \<leftarrow> sys_malloc (8 + 2 * MAX_PATH_LEN);
     t \<leftarrow> (case c of Inl e \<Rightarrow> ret (Inl e) | Inr _ \<Rightarrow> syscall (\<lambda>w. (Inr (), w)));
     _ \<leftarrow> (case t of
        Inl _ \<Rightarrow> ret ()
      | Inr _ \<Rightarrow> server_client_thread config client_fd);
     accept_loop config rest
   }"

text \<open>\<open>None\<close> when the server still waits for connections.\<close>

definition run_server :: "server_config \<Rightarrow> int \<Rightarrow> (errno + int) list \<Rightarrow> int option prog" where
  "run_server config sock clients = do {
     p \<leftarrow> server_prepare config;
     if p < 0 then ret (Some (- 1))
     else do {
       l \<leftarrow> create_server_socket sock (sc_port config) 64;
       (case l of
          Inl e \<Rightarrow> do {
            _ \<leftarrow> server_log (sc_log_path config) LOG_ERROR (''server: listen failed port='' @
                  show_int (sc_port config) @ '' error='' @ strerror e);
            ret (Some (- 1))
          }
        | Inr _ \<Rightarrow> do {
            _ \<leftarrow> server_log (sc_log_path config) LOG_INFO (''server: listening port='' @
                  show_int (sc_port config) @ '' root='' @ sc_root config);
            ended \<leftarrow> accept_loop config clients;
            ret (if ended then Some 0 else None)
          })
     }
   }"

context backup_relation
begin

lemma serving: "sc_root config = root \<Longrightarrow> sc_log_path config = log_path \<Longrightarrow> state_io_rel R (accept_loop config clients)"
proof (induction config clients rule: accept_loop.induct)
  case (3 config client_fd rest)
  have "state_io_rel R (server_client_thread config client_fd)"
    unfolding server_client_thread_def "3.prems" by (intro rules whole_connection)
  with 3 show ?case by (auto intro!: rules calls syscall simp: refl split: sum.split)
next
  case (2 config e rest)
  then show ?case unfolding accept_loop.simps "2.prems" by (intro rules logs) simp_all
qed (simp add: return)

lemma listening: "state_io_rel R (create_server_socket sock port backlog)"
  unfolding create_server_socket_def sys_socket_def sys_reuse_address_def sys_bind_def sys_listen_def
  by (intro rules syscall) (auto intro: refl)

lemma running:
  assumes "sc_root config = root" and "sc_log_path config = log_path"
    and "state_io_rel R (ensure_parent_dir_exists log_path)"
  shows "state_io_rel R (run_server config sock clients)"
proof -
  have "state_io_rel R (server_prepare config)"
    unfolding server_prepare_def assms(1,2)
    by (auto intro!: rules ensure_dir assms(3) top split: option.splits dest!: join_path_Some)
  then show ?thesis
    unfolding run_server_def assms(2)
    by (intro rules serving assms listening) (auto intro!: rules logs serving assms)
qed

end

end
