(* ===== verification/ServerLaws.thy ===== *)
theory ServerLaws
  imports Server LocalLaws
begin

text \<open>
  What the server stores: the temporary file holds the blocks it was sent, a transfer that is
  acknowledged has the announced hash and has replaced the target, and any other outcome leaves
  the target as it was.
\<close>

section \<open>Blocks\<close>

lemma sys_pwrite_effect:
  assumes "run_state (sys_pwrite p d off) w = (x, w')" and "fs_get (w_fs w) (pkey w p) = Some (Reg b m t)"
  shows "\<exists>b' t'. fs_get (w_fs w') (pkey w p) = Some (Reg b' m t') \<and> w_cwd w' = w_cwd w \<and>
    (x = Inr (length d) \<longrightarrow> b' = splice (unat off) d b)"
proof (cases "sint off < 0")
  case True
  then have "run_state (syscall (\<lambda>w. (Inl EINVAL, w))) w = (x, w')"
    using assms(1) by (simp add: sys_pwrite_def)
  then have "w' = rest_script w \<and> (\<exists>e. x = Inl e)"
    using syscall_cases [of "\<lambda>w. (Inl EINVAL :: errno + nat, w)" w] by auto
  then show ?thesis using assms(2) by auto
next
  case False
  then have r: "run_state (sys_fwrite p (unat off) d) w = (x, w')"
    using assms(1) by (simp add: sys_pwrite_def)
  from sys_fwrite_cases [of w p "unat off" d] show ?thesis
    using r assms(2) by (elim disjE exE conjE) auto
qed

lemma recv_block_effect:
  assumes "run_state (recv_block fd out h) w = (ok, w')"
    and "fs_get (w_fs w) (pkey w out) = Some (Reg b m t)"
  shows "\<exists>b' t'. fs_get (w_fs w') (pkey w out) = Some (Reg b' m t') \<and> w_cwd w' = w_cwd w \<and>
    (ok \<longrightarrow> (\<exists>d. w_rx w fd = d @ w_rx w' fd \<and> length d = unat (h_data_len h) \<and>
       h_msg_type h = MSG_FILE_BLOCK \<and> b' = splice (unat (h_offset h)) d b))"
proof -
  let ?n = "unat (h_data_len h)"
  let ?P = "\<lambda>w'. \<exists>b' t'. fs_get (w_fs w') (pkey w out) = Some (Reg b' m t') \<and> w_cwd w' = w_cwd w"
  consider (refused) "w' = w" "\<not> ok"
    | (alloc) e w1 where "run_state (sys_malloc ?n) w = (Inl e, w1)" "w' = w1" "\<not> ok"
    | (read) w1 w2 where "run_state (sys_malloc ?n) w = (Inr (), w1)"
        "run_state (read_full fd ?n) w1 = (None, w2)" "w' = w2" "\<not> ok"
    | (hash) buf w1 w2 where "run_state (sys_malloc ?n) w = (Inr (), w1)"
        "run_state (read_full fd ?n) w1 = (Some buf, w2)" "w' = w2" "\<not> ok"
    | (stored) buf x w1 w2 where "run_state (sys_malloc ?n) w = (Inr (), w1)"
        "run_state (read_full fd ?n) w1 = (Some buf, w2)"
        "run_state (sys_pwrite out buf (h_offset h)) w2 = (x, w')" "ok = (x = Inr ?n)"
        "h_msg_type h = MSG_FILE_BLOCK"
    using assms(1) by (auto simp: recv_block_def split: if_splits prod.splits sum.splits option.splits)
  then show ?thesis
  proof cases
    case refused
    then show ?thesis using assms(2) by auto
  next
    case alloc
    then show ?thesis using assms(2) quiet_simps [OF qr.runD [OF qr.calls(7) alloc(1)]] by auto
  next
    case read
    then show ?thesis using assms(2) quiet_simps [OF qr.runD [OF qr.calls(7) read(1)]]
        talks_simps [OF tkr.runD [OF read_full_talks read(2)]] by auto
  next
    case hash
    then show ?thesis using assms(2) quiet_simps [OF qr.runD [OF qr.calls(7) hash(1)]]
        talks_simps [OF tkr.runD [OF read_full_talks hash(2)]] by auto
  next
    case stored
    note q1 = quiet_simps [OF qr.runD [OF qr.calls(7) stored(1)]]
      and t2 = talks_simps [OF tkr.runD [OF read_full_talks stored(2)]]
    have rd: "length buf = ?n" "w_rx w fd = buf @ w_rx w2 fd"
      using read_full_result(2) [OF stored(2)] q1(3) by auto
    have g: "fs_get (w_fs w2) (pkey w2 out) = Some (Reg b m t)"
      using assms(2) q1(1,10) t2(1,7) by simp
    have rx: "w_rx w' = w_rx w2"
      using ssr.runD [OF ssf.fwrite [OF TrueI]] stored(3)
        ssr.runD [OF ssr.syscall [of "\<lambda>w. (Inl EINVAL :: errno + nat, w)"]] ssr.refl
      by (auto simp: sys_pwrite_def streams_same_def split: if_splits)
    obtain b' t' where e: "fs_get (w_fs w') (pkey w2 out) = Some (Reg b' m t')" "w_cwd w' = w_cwd w2"
      "x = Inr (length buf) \<longrightarrow> b' = splice (unat (h_offset h)) buf b"
      using sys_pwrite_effect [OF stored(3) g] by blast
    have "w_rx w fd = buf @ w_rx w' fd" using rd(2) rx by simp
    moreover have "fs_get (w_fs w') (pkey w out) = Some (Reg b' m t')" "w_cwd w' = w_cwd w"
      using e q1(2,10) t2(2,7) by simp_all
    ultimately show ?thesis using e(3) rd(1) stored(4,5) by auto
  qed
qed

text \<open>The stream of blocks and what it leaves of a file.\<close>

type_synonym block = "sync_header \<times> bytes"

definition block_ok :: "block \<Rightarrow> bool" where
  "block_ok blk \<longleftrightarrow> h_msg_type (fst blk) = MSG_FILE_BLOCK \<and> validate_sync_header (fst blk) = 0 \<and>
     unat (h_data_len (fst blk)) = length (snd blk)"

definition block_bytes :: "block \<Rightarrow> bytes" where
  "block_bytes blk = header_bytes (fst blk) @ snd blk"

definition apply_blocks :: "block list \<Rightarrow> bytes \<Rightarrow> bytes" where
  "apply_blocks bs b = foldl (\<lambda>b blk. splice (unat (h_offset (fst blk))) (snd blk) b) b bs"

lemma recv_header_stream:
  assumes "run_state (recv_header fd) w = (Some h', w1)" and "w_rx w fd = header_bytes h @ rest"
  shows "h' = h \<and> w_rx w1 fd = rest"
proof -
  have "header_bytes h @ rest = header_bytes h' @ w_rx w1 fd"
    using recv_header_result(2) [OF assms(1)] assms(2) by simp
  then have "header_bytes h = header_bytes h'" "rest = w_rx w1 fd" by simp_all
  then show ?thesis using hc.enc_inj [of h h'] by simp
qed

lemma recv_blocks_content:
  "recv_blocks fd out ex w = ((0, eh), w') \<Longrightarrow>
   fs_get (w_fs w) (pkey w out) = Some (Reg b m t) \<Longrightarrow> \<forall>x \<in> set bs. block_ok x \<Longrightarrow>
   w_rx w fd = concat (map block_bytes bs) @ header_bytes e @ rest \<Longrightarrow> h_msg_type e = MSG_FILE_END \<Longrightarrow>
   eh = e \<and> (\<exists>t'. fs_get (w_fs w') (pkey w out) = Some (Reg (apply_blocks bs b) m t'))"
proof (induction bs arbitrary: w b t)
  case Nil
  obtain x w1 where h: "run_state (recv_header fd) w = (x, w1)" by (rule prod.exhaust)
  show ?case
  proof (cases x)
    case None
    then show ?thesis using Nil h by (simp add: recv_blocks.simps)
  next
    case (Some h')
    have "w_rx w fd = header_bytes e @ rest" using Nil.prems(4) by simp
    note st = recv_header_stream [OF h [unfolded Some] this]
    then show ?thesis
      using Nil.prems h Some talks_simps(1) [OF tkr.runD [OF recv_header_talks h]]
      by (auto simp: recv_blocks.simps [of _ _ _ w] apply_blocks_def)
  qed
next
  case (Cons blk bs)
  obtain x w1 where h: "run_state (recv_header fd) w = (x, w1)" by (rule prod.exhaust)
  note t1 = talks_simps [OF tkr.runD [OF recv_header_talks h]]
  show ?case
  proof (cases x)
    case None
    then show ?thesis using Cons.prems h by (simp add: recv_blocks.simps)
  next
    case (Some h')
    have ok: "block_ok blk" using Cons.prems(3) by simp
    have "w_rx w fd = header_bytes (fst blk) @ snd blk @ concat (map block_bytes bs) @ header_bytes e @ rest"
      using Cons.prems(4) by (simp add: block_bytes_def [of blk])
    note st = recv_header_stream [OF h [unfolded Some] this]
    obtain k w2 where b: "run_state (recv_block fd out h') w1 = (k, w2)" by (rule prod.exhaust)
    have "h_msg_type h' \<noteq> MSG_FILE_END" using st ok by (simp add: block_ok_def)
    then have k: "k" and rec: "recv_blocks fd out ex w2 = ((0, eh), w')"
      using Cons.prems(1) h Some b by (auto simp: recv_blocks.simps [of _ _ _ w] split: if_splits)
    have g1: "fs_get (w_fs w1) (pkey w1 out) = Some (Reg b m t)" using Cons.prems(2) t1(1,7) by simp
    from recv_block_effect [OF b g1] k obtain t' d
      where d: "w_rx w1 fd = d @ w_rx w2 fd" "length d = unat (h_data_len h')" "w_cwd w2 = w_cwd w1"
        "fs_get (w_fs w2) (pkey w1 out) = Some (Reg (splice (unat (h_offset h')) d b) m t')" by blast
    have "d = snd blk" "w_rx w2 fd = concat (map block_bytes bs) @ header_bytes e @ rest"
      using d(1,2) st ok by (auto simp: block_ok_def)
    moreover have pk: "pkey w2 out = pkey w out" using d(3) t1(2) by (simp add: pkey_def)
    ultimately have "eh = e \<and> (\<exists>t'. fs_get (w_fs w') (pkey w2 out) =
        Some (Reg (apply_blocks bs (splice (unat (h_offset (fst blk))) (snd blk) b)) m t'))"
      using Cons.prems(3,5) d(4) st t1(7) by (intro Cons.IH [OF rec]) auto
    then show ?thesis using pk by (simp add: apply_blocks_def)
  qed
qed

lemma recv_blocks_reg:
  "recv_blocks fd out ex w = (r, w') \<Longrightarrow> is_reg_node (fs_get (w_fs w) (pkey w out)) \<Longrightarrow>
   is_reg_node (fs_get (w_fs w') (pkey w out)) \<and> w_cwd w' = w_cwd w"
proof (induction fd out ex w rule: recv_blocks.induct)
  case (1 fd out ex w)
  obtain x w1 where h: "run_state (recv_header fd) w = (x, w1)" by (rule prod.exhaust)
  note t1 = talks_simps [OF tkr.runD [OF recv_header_talks h]]
  show ?case
  proof (cases x)
    case None
    then show ?thesis using "1.prems" h t1(1,2) by (auto simp: recv_blocks.simps)
  next
    case (Some hd)
    obtain k w2 where b: "run_state (recv_block fd out hd) w1 = (k, w2)" by (rule prod.exhaust)
    obtain c m t where "fs_get (w_fs w1) (pkey w1 out) = Some (Reg c m t)"
      using "1.prems"(2) t1(1,7) by (auto elim: is_reg_nodeE)
    from recv_block_effect [OF b this] have g2: "is_reg_node (fs_get (w_fs w2) (pkey w out))"
      and c2: "w_cwd w2 = w_cwd w" using t1(2,7) by auto
    have pk: "pkey w2 out = pkey w out" using c2 by (simp add: pkey_def)
    show ?thesis
    proof (cases "h_msg_type hd = MSG_FILE_END \<or> \<not> k")
      case True
      then show ?thesis using "1.prems" h Some b g2 c2 t1(1,2)
        by (auto simp: recv_blocks.simps [of _ _ _ w] split: if_splits)
    next
      case False
      then have "recv_blocks fd out ex w2 = (r, w')" and e: "h_msg_type hd \<noteq> MSG_FILE_END" "k"
        using "1.prems" h Some b by (simp_all add: recv_blocks.simps [of _ _ _ w])
      from "1.IH" [OF h [symmetric] Some e(1) b [symmetric] e(2) this(1)] g2 pk c2 show ?thesis by simp
    qed
  qed
qed

section \<open>One transfer\<close>

text \<open>The calls of a transfer that replaced the target.\<close>

lemma begin_transfer_steps:
  assumes run: "run_state (begin_transfer fd h tmp dst) w = (0, w')"
  obtains eh w1 w2 m w3 where "recv_blocks fd tmp (h_total_hash h) w = ((0, eh), w1)" "quiet w1 w2"
    "run_state (safe_rename_or_copy_unlink tmp dst) w2 = (0, w3)"
    "run_state (set_file_metadata dst (h_mode h) (sint (h_mtime h))) w3 = (m, w')"
    "(if h_total_hash eh \<noteq> 0 then h_total_hash eh else h_total_hash h) \<noteq> 0 \<Longrightarrow>
      is_reg_node (fs_get (w_fs w1) (pkey w1 tmp)) \<and>
      hash_buffer_fnv1a (file_bytes w1 tmp) =
        (if h_total_hash eh \<noteq> 0 then h_total_hash eh else h_total_hash h)"
proof -
  let ?ex = "\<lambda>eh. if h_total_hash eh \<noteq> 0 then h_total_hash eh else h_total_hash h"
  obtain ok eh w1 where r: "recv_blocks fd tmp (h_total_hash h) w = ((ok, eh), w1)"
    by (metis prod.collapse)
  obtain f wf where f: "run_state (sys_fsync tmp) w1 = (f, wf)" by (rule prod.exhaust)
  obtain a wa where a: "run_state (hash_file_fnv1a tmp) wf = (a, wa)" by (rule prod.exhaust)
  obtain m w3 where m: "run_state (safe_rename_or_copy_unlink tmp dst) wa = (m, w3)" by (rule prod.exhaust)
  obtain n w4 where n: "run_state (set_file_metadata dst (h_mode h) (sint (h_mtime h))) w3 = (n, w4)"
    by (rule prod.exhaust)
  note eqs = begin_transfer_def recv_file_blocks_until_end_def r f
  have ok: "ok = 0" "\<not> isl f" using run by (auto simp: eqs Let_def split: if_splits prod.splits)
  have e: "?ex eh \<noteq> 0 \<longrightarrow> a = ?ex eh" and m0: "m = 0" and w4: "w4 = w'"
    using run by (auto simp: eqs ok a m n Let_def split: if_splits)
  have q: "quiet w1 wa" using fsync_quiet [OF f] hash_file_world [OF a] by (rule quiet_trans)
  have "is_reg_node (fs_get (w_fs w1) (pkey w1 tmp)) \<and> hash_buffer_fnv1a (file_bytes w1 tmp) = ?ex eh"
    if "?ex eh \<noteq> 0"
  proof -
    have "a \<noteq> 0" "a = ?ex eh" using e that by simp_all
    then show ?thesis
      using hash_file_sound [OF a] quiet_simps [OF fsync_quiet [OF f]] by (simp add: file_bytes_def)
  qed
  with that [OF r [unfolded ok(1)] q m [unfolded m0] n [unfolded w4]] show ?thesis by blast
qed

lemma transfer_replaces:
  assumes run: "run_state (begin_transfer fd h tmp dst) w = (0, w')"
    and wf: "fs_wf (w_fs w)" and ne: "pkey w tmp \<noteq> pkey w dst"
    and reg: "is_reg_node (fs_get (w_fs w) (pkey w tmp))"
  shows "\<exists>eh w1 b m t m' t'. recv_blocks fd tmp (h_total_hash h) w = ((0, eh), w1) \<and>
    fs_get (w_fs w1) (pkey w tmp) = Some (Reg b m t) \<and>
    fs_get (w_fs w') (pkey w dst) = Some (Reg b m' t') \<and>
    ((if h_total_hash eh \<noteq> 0 then h_total_hash eh else h_total_hash h) \<noteq> 0 \<longrightarrow>
      hash_buffer_fnv1a b = (if h_total_hash eh \<noteq> 0 then h_total_hash eh else h_total_hash h))"
  using run
proof (rule begin_transfer_steps)
  fix eh :: sync_header and w1 w2 m w3
  let ?ex = "if h_total_hash eh \<noteq> 0 then h_total_hash eh else h_total_hash h"
  assume r: "recv_blocks fd tmp (h_total_hash h) w = ((0, eh), w1)" and q: "quiet w1 w2"
    and mv: "run_state (safe_rename_or_copy_unlink tmp dst) w2 = (0, w3)"
    and md: "run_state (set_file_metadata dst (h_mode h) (sint (h_mtime h))) w3 = (m, w')"
    and ex: "?ex \<noteq> 0 \<Longrightarrow> is_reg_node (fs_get (w_fs w1) (pkey w1 tmp)) \<and>
      hash_buffer_fnv1a (file_bytes w1 tmp) = ?ex"
  have reg1: "is_reg_node (fs_get (w_fs w1) (pkey w tmp))" and c1: "w_cwd w1 = w_cwd w"
    using recv_blocks_reg [OF r reg] by simp_all
  have pk1: "pkey w1 p = pkey w p" for p using c1 by (simp add: pkey_def)
  note q2 = quiet_simps [OF q]
  have pk2: "pkey w2 p = pkey w p" for p using q2(10) pk1 by simp
  obtain b bm bt where b: "fs_get (w_fs w1) (pkey w tmp) = Some (Reg b bm bt)"
    using reg1 by (auto elim: is_reg_nodeE)
  have wf2: "fs_wf (w_fs w2)"
    using wwf.recv_blocks [OF r TrueI] wf q2(1) by (simp add: fs_wf_kept_def)
  obtain m1 t1 where d3: "fs_get (w_fs w3) (pkey w dst) = Some (Reg b m1 t1)"
    using safe_rename_success(1) [OF mv wf2] ne b q2(1) pk2 by auto
  obtain m2 t2 where "fs_get (w_fs w') (pkey w dst) = Some (Reg b m2 t2)"
    using metadata_content [OF md d3] by blast
  moreover have "?ex \<noteq> 0 \<longrightarrow> hash_buffer_fnv1a b = ?ex"
    using ex b pk1 by (auto simp: file_bytes_def)
  ultimately show ?thesis using r b by blast
qed

section \<open>Answers\<close>

lemma refuse_result:
  assumes "run_state (refuse fd msg) w = (r, w')"
  shows "r = - 1" and "talks fd w w'" and "w_rx w' fd = w_rx w fd"
    and "\<exists>k. w_tx w' fd = w_tx w fd @ take k (header_bytes (error_header msg) @
      take (unat (h_path_len (error_header msg))) msg)"
    and "retryable w \<Longrightarrow> w_tx w' fd = w_tx w fd @ header_bytes (error_header msg) @
      take (unat (h_path_len (error_header msg))) msg"
proof -
  obtain x where x: "run_state (send_error fd msg) w = (x, w')" and r: "r = - 1"
    using assms by (auto simp: refuse_def split: prod.splits)
  show "r = - 1" by (fact r)
  show "talks fd w w'" by (rule tkr.runD [OF send_error_talks x])
  show "w_rx w' fd = w_rx w fd" by (rule send_error_rx [OF x])
  obtain s w1 where s: "run_state (send_header fd (error_header msg)) w = (s, w1)" by (rule prod.exhaust)
  let ?h = "header_bytes (error_header msg)" and ?m = "take (unat (h_path_len (error_header msg))) msg"
  obtain k where k: "w_tx w1 fd = w_tx w fd @ take k ?h" "k \<le> header_size"
    using send_header_result(3) [OF s] by blast
  show "\<exists>k. w_tx w' fd = w_tx w fd @ take k (?h @ ?m)"
  proof (cases "s < 0")
    case True
    then have "w' = w1" using x s by (simp add: send_error_def Let_def)
    then show ?thesis using k by (intro exI [of _ k]) simp
  next
    case False
    then have full: "w_tx w1 fd = w_tx w fd @ ?h" using send_header_result(2) [OF s] by auto
    obtain y where y: "run_state (write_full fd ?m) w1 = (y, w')"
      using x s False by (auto simp: send_error_def Let_def split: prod.splits)
    obtain j where "w_tx w' fd = w_tx w1 fd @ take j ?m" using write_full_result(3) [OF y] by blast
    then show ?thesis using full by (intro exI [of _ "header_size + j"]) simp
  qed
  show "w_tx w' fd = w_tx w fd @ ?h @ ?m" if re: "retryable w"
  proof -
    have full: "s = 0" "w_tx w1 fd = w_tx w fd @ ?h" using send_header_result(4) [OF s re] by simp_all
    obtain y where y: "run_state (write_full fd ?m) w1 = (y, w')"
      using x s full(1) by (auto simp: send_error_def Let_def split: prod.splits)
    have "retryable w1" using re retryable_talks tkr.runD [OF send_header_talks s] by blast
    then show ?thesis using write_full_result(4) [OF y] full(2) by simp
  qed
qed

lemma accept_result:
  assumes "run_state (accept_with fd off) w = (r, w')"
  shows "r = 0" and "talks fd w w'" and "w_rx w' fd = w_rx w fd"
    and "\<exists>k. w_tx w' fd = w_tx w fd @
      take k (header_bytes ((init_sync_header MSG_ACK)\<lparr>h_offset := off\<rparr>))"
proof -
  obtain x where x: "run_state (send_ack fd off) w = (x, w')" and r: "r = 0"
    using assms by (auto simp: accept_with_def split: prod.splits)
  show "r = 0" by (fact r)
  show "talks fd w w'" by (rule tkr.runD [OF send_ack_talks x])
  show "w_rx w' fd = w_rx w fd" by (rule send_ack_result(1) [OF x])
  show "\<exists>k. w_tx w' fd = w_tx w fd @
      take k (header_bytes ((init_sync_header MSG_ACK)\<lparr>h_offset := off\<rparr>))"
    using send_header_result(3) [OF x [unfolded send_ack_def]] by blast
qed

text \<open>A stream that starts with the header of a positive answer was not refused.\<close>

lemma refused_not_acked:
  assumes "take k (header_bytes (error_header msg) @ m) = header_bytes h @ z"
  shows "h_msg_type h = MSG_ERROR"
proof -
  have "header_size \<le> length (take k (header_bytes (error_header msg) @ m))"
    unfolding assms by simp
  then have "take header_size (take k (header_bytes (error_header msg) @ m)) = header_bytes (error_header msg)"
    by (simp add: min_def split: if_splits)
  then have "header_bytes (error_header msg) = header_bytes h"
    unfolding assms by simp
  then have "error_header msg = h" using hc.enc_inj by blast
  then show ?thesis by (auto simp: error_header_def init_sync_header_def Let_def)
qed

section \<open>The target of a file transfer\<close>

lemma both_paths:
  assumes "current_and_tmp root rel = Some (dst, tmp)"
  shows "sanitize_rel_path rel = 0" and "dst = current_file root rel" and "tmp = dst @ ''.syncing''"
    and "dst \<noteq> []" and "length tmp < MAX_PATH_LEN" and "join3 root ''current'' rel = Some dst"
  using assms
  by (auto simp: current_and_tmp_def current_path_def snprintf_s_def join3_def sanitize_iff Let_def
      dest!: join_path_Some split: option.splits if_splits)

lemma tmp_not_dst: "dst \<noteq> [] \<Longrightarrow> \<not> prefix (pkey w (dst @ ''.syncing'')) (pkey w dst)"
  unfolding pkey_def by (rule syncing_not_prefix)

text \<open>Everything a transfer does before it replaces the target.\<close>

definition work_area :: "fkey \<Rightarrow> path \<Rightarrow> path \<Rightarrow> fkey set" where
  "work_area c root tmp = versions_area c root \<union> below (path_key c tmp)"

lemma dst_not_in_work:
  assumes "current_and_tmp root rel = Some (dst, tmp)" and "root \<noteq> []"
  shows "path_key c dst \<notin> work_area c root tmp"
  using both_paths [OF assms(1)] current_not_in_versions [OF assms(2)] syncing_not_prefix [of dst c]
  by (auto simp: work_area_def)

lemma work_tmp: "\<forall>z. path_key c tmp @ z \<in> work_area c root tmp"
  by (simp add: work_area_def)

lemma versions_work: "fs_confined c (versions_area c root) w w' \<Longrightarrow> fs_confined c (work_area c root tmp) w w'"
  by (rule fs_confined_mono) (auto simp: work_area_def)

lemma failed_transfer_keeps:
  assumes run: "run_state (begin_transfer fd h tmp dst) w = (r, w')" and r: "r \<noteq> 0"
    and nx: "Fail EXDEV \<notin> set (w_script w)"
  shows "fs_confined (w_cwd w) (work_area (w_cwd w) root tmp) w w'"
proof -
  let ?C = "fs_confined (w_cwd w) (work_area (w_cwd w) root tmp)"
  obtain ok eh w1 where b: "recv_blocks fd tmp (h_total_hash h) w = ((ok, eh), w1)"
    by (metis prod.collapse)
  obtain f wf where f: "run_state (sys_fsync tmp) w1 = (f, wf)" by (rule prod.exhaust)
  obtain a wa where a: "run_state (hash_file_fnv1a tmp) wf = (a, wa)" by (rule prod.exhaust)
  obtain m w3 where m: "run_state (safe_rename_or_copy_unlink tmp dst) wa = (m, w3)" by (rule prod.exhaust)
  have c1: "?C w w1" by (rule wcf.recv_blocks [OF b work_tmp])
  have q: "quiet w1 wf" "quiet w1 wa" using fsync_quiet [OF f] hash_file_world [OF a] quiet_trans by blast+
  have cf: "?C w wf" "?C w wa" using fs_confined_trans [OF c1] fcr.quiet q by blast+
  have "w' = wf \<or> w' = wa \<or> m \<noteq> 0 \<and> w' = w3"
    using run r
    by (auto simp: begin_transfer_def recv_file_blocks_until_end_def b f a m Let_def
        split: if_splits prod.splits)
  moreover have "?C w w3" if "m \<noteq> 0"
  proof -
    have "script_used w wa"
      using sub.recv_blocks [OF b TrueI] quiet_unused [OF q(2)] sur.trans by blast
    then have "Fail EXDEV \<notin> set (w_script wa)" using script_used_no_fail nx by blast
    from safe_rename_failure [OF m that this] have "fs_confined (w_cwd wa) {} wa w3" .
    moreover have "w_cwd wa = w_cwd w" using cf(2) by (simp add: fs_confined_def)
    ultimately have "?C wa w3" using fs_confined_mono by fastforce
    then show ?thesis using fs_confined_trans [OF cf(2)] by blast
  qed
  ultimately show ?thesis using cf by blast
qed

section \<open>Announcing a file\<close>

text \<open>The course of \<open>server_handle_file_begin\<close> for a file.\<close>

lemma file_begin_cases:
  assumes run: "run_state (server_handle_file_begin fd h root rel) w = (r, w')"
    and isf: "\<not> S_ISDIR (h_mode h)"
  obtains (bad_path) msg where "run_state (refuse fd msg) w = (r, w')"
  | (unprepared) dst tmp p w1 b w2 msg where "current_and_tmp root rel = Some (dst, tmp)"
      "run_state (ensure_parent_dir_exists dst) w = (p, w1)"
      "p < 0 \<and> w2 = w1 \<or> run_state (backup_old_version root rel) w1 = (b, w2)"
      "run_state (refuse fd msg) w2 = (r, w')"
  | (unopened) dst tmp p w1 b w2 e w3 msg where "current_and_tmp root rel = Some (dst, tmp)"
      "run_state (ensure_parent_dir_exists dst) w = (p, w1)"
      "run_state (backup_old_version root rel) w1 = (b, w2)"
      "run_state (sys_open_wr tmp True (if h_mode h \<noteq> 0 then h_mode h else 0x1A4)) w2 = (Inl e, w3)"
      "run_state (refuse fd msg) w3 = (r, w')"
  | (opened) dst tmp p w1 b w2 w3 ok w4 where "current_and_tmp root rel = Some (dst, tmp)"
      "run_state (ensure_parent_dir_exists dst) w = (p, w1)"
      "run_state (backup_old_version root rel) w1 = (b, w2)" "\<not> b < 0"
      "run_state (sys_open_wr tmp True (if h_mode h \<noteq> 0 then h_mode h else 0x1A4)) w2 = (Inr (), w3)"
      "run_state (begin_transfer fd h tmp dst) w3 = (ok, w4)"
      "ok = 0 \<and> run_state (accept_with fd (h_file_size h)) w4 = (r, w') \<or>
       ok \<noteq> 0 \<and> run_state (refuse fd ''file receive failed'') w4 = (r, w')"
proof (cases "current_and_tmp root rel")
  case None
  then show ?thesis using run bad_path by (simp add: server_handle_file_begin_def)
next
  case (Some q)
  then obtain dst tmp where ct: "current_and_tmp root rel = Some (dst, tmp)" by (cases q) simp
  obtain p w1 where p: "run_state (ensure_parent_dir_exists dst) w = (p, w1)" by (rule prod.exhaust)
  obtain b w2 where b: "run_state (backup_old_version root rel) w1 = (b, w2)" by (rule prod.exhaust)
  note eqs = server_handle_file_begin_def ct isf p
  show ?thesis
  proof (cases "p < 0")
    case True
    then show ?thesis using run ct p by (intro unprepared) (auto simp: eqs)
  next
    case pn: False
    show ?thesis
    proof (cases "b < 0")
      case True
      then show ?thesis using run ct p pn b by (intro unprepared) (auto simp: eqs)
    next
      case bn: False
      let ?o = "sys_open_wr tmp True (if h_mode h \<noteq> 0 then h_mode h else 0x1A4)"
      obtain x w3 where o: "run_state ?o w2 = (x, w3)" by (rule prod.exhaust)
      show ?thesis
      proof (cases x)
        case (Inl e)
        then show ?thesis using run ct p pn b bn o by (intro unopened) (auto simp: eqs)
      next
        case (Inr u)
        obtain ok w4 where t: "run_state (begin_transfer fd h tmp dst) w3 = (ok, w4)" by (rule prod.exhaust)
        have o': "run_state ?o w2 = (Inr (), w3)" using o Inr by simp
        have "ok = 0 \<and> run_state (accept_with fd (h_file_size h)) w4 = (r, w') \<or>
            ok \<noteq> 0 \<and> run_state (refuse fd ''file receive failed'') w4 = (r, w')"
          using run by (simp add: eqs pn b bn o' t split: if_splits)
        then show ?thesis by (rule opened [OF ct p b bn o' t])
      qed
    qed
  qed
qed

text \<open>An acknowledged file has the announced content; anything else leaves the target alone.\<close>

lemma opened_reg:
  assumes "run_state (sys_open_wr p tr m) w = (Inr u, w')"
  shows "is_reg_node (fs_get (w_fs w') (pkey w p)) \<and> w_cwd w' = w_cwd w"
  using open_wr_Inr [OF assms] by auto

lemma prepared_confined:
  assumes "run_state (ensure_parent_dir_exists dst) w = (p, w1)"
    and "w2 = w1 \<or> run_state (backup_old_version root rel) w1 = (b, w2)"
  shows "fs_confined (w_cwd w) (work_area (w_cwd w) root tmp) w w2"
proof -
  let ?C = "fs_confined (w_cwd w) (work_area (w_cwd w) root tmp)"
  have c1: "?C w w1" by (rule fcr.runD [OF confined_parent assms(1)])
  have cw: "w_cwd w1 = w_cwd w" using c1 by (simp add: fs_confined_def)
  from assms(2) show ?thesis
  proof
    assume b: "run_state (backup_old_version root rel) w1 = (b, w2)"
    have "?C w1 w2" using backup_only_versions [OF b] versions_work cw by simp
    then show ?thesis using fs_confined_trans [OF c1] by blast
  qed (use c1 in simp)
qed

lemma file_begin_refused:
  assumes run: "run_state (server_handle_file_begin fd h root rel) w = (r, w')"
    and isf: "\<not> S_ISDIR (h_mode h)" and r: "r \<noteq> 0" and root: "root \<noteq> []"
    and nx: "Fail EXDEV \<notin> set (w_script w)"
    and old: "fs_get (w_fs w) (pkey w (current_file root rel)) = Some n"
  shows "fs_get (w_fs w') (pkey w (current_file root rel)) = Some n"
proof -
  have keeps: "fs_get (w_fs w') (pkey w (current_file root rel)) = Some n"
    if ct: "current_and_tmp root rel = Some (dst, tmp)"
      and c: "fs_confined (w_cwd w) (work_area (w_cwd w) root tmp) w v"
      and a: "run_state (refuse fd msg) v = (r, w')" for dst tmp v msg
  proof -
    have "pkey w (current_file root rel) \<notin> work_area (w_cwd w) root tmp"
      using dst_not_in_work [OF ct root] both_paths(2) [OF ct] by (simp add: pkey_def)
    from confined_keeps [OF c this old] show ?thesis
      using talks_simps(1) [OF refuse_result(2) [OF a]] by simp
  qed
  from run isf show ?thesis
  proof (cases rule: file_begin_cases)
    case bad_path
    then show ?thesis using old talks_simps(1) [OF refuse_result(2)] by simp
  next
    case (unprepared dst tmp p w1 b w2 msg)
    then show ?thesis
      using prepared_confined [OF unprepared(2), of w2 root rel b tmp] by (intro keeps) auto
  next
    case (unopened dst tmp p w1 b w2 e w3 msg)
    let ?C = "fs_confined (w_cwd w) (work_area (w_cwd w) root tmp)"
    have "?C w w2" by (rule prepared_confined [OF unopened(2) disjI2 [OF unopened(3)]])
    moreover have "?C w2 w3" by (rule fcr.runD [OF fcf.open_wr [OF work_tmp] unopened(4)])
    ultimately show ?thesis using unopened(1,5) by (intro keeps) (auto intro: fs_confined_trans)
  next
    case (opened dst tmp p w1 b w2 w3 ok w4)
    let ?C = "fs_confined (w_cwd w) (work_area (w_cwd w) root tmp)"
    have c2: "?C w w2" by (rule prepared_confined [OF opened(2) disjI2 [OF opened(3)]])
    have c3: "?C w w3" by (rule fs_confined_trans [OF c2 fcr.runD [OF fcf.open_wr [OF work_tmp] opened(5)]])
    have ok: "ok \<noteq> 0" "run_state (refuse fd ''file receive failed'') w4 = (r, w')"
      using opened(7) r accept_result(1) by blast+
    have "script_used w w3"
      using sur.runD [OF suf.ensure_parent [OF TrueI] opened(2)] sur.runD [OF sub.versions opened(3)]
        sur.runD [OF suf.open_wr [OF TrueI] opened(5)] sur.trans by blast
    then have nx3: "Fail EXDEV \<notin> set (w_script w3)" using script_used_no_fail nx by blast
    have cw: "w_cwd w3 = w_cwd w" using c3 by (simp add: fs_confined_def)
    have "?C w3 w4" using failed_transfer_keeps [OF opened(6) ok(1) nx3, of root] cw by simp
    then show ?thesis using opened(1) ok(2) by (intro keeps) (auto intro: fs_confined_trans [OF c3])
  qed
qed

lemma file_begin_accepted:
  assumes run: "run_state (server_handle_file_begin fd h root rel) w = (0, w')"
    and isf: "\<not> S_ISDIR (h_mode h)" and root: "root \<noteq> []" and wf: "fs_wf (w_fs w)"
  shows "\<exists>tmp w3 eh w4 b m t m' t'. tmp = current_file root rel @ ''.syncing'' \<and> w_rx w3 = w_rx w \<and>
    (\<exists>m t. fs_get (w_fs w3) (pkey w tmp) = Some (Reg [] m t)) \<and> w_cwd w3 = w_cwd w \<and>
    recv_blocks fd tmp (h_total_hash h) w3 = ((0, eh), w4) \<and>
    fs_get (w_fs w4) (pkey w tmp) = Some (Reg b m t) \<and>
    fs_get (w_fs w') (pkey w (current_file root rel)) = Some (Reg b m' t') \<and>
    ((if h_total_hash eh \<noteq> 0 then h_total_hash eh else h_total_hash h) \<noteq> 0 \<longrightarrow>
      hash_buffer_fnv1a b = (if h_total_hash eh \<noteq> 0 then h_total_hash eh else h_total_hash h))"
  using run isf
proof (cases rule: file_begin_cases)
  case (opened dst tmp p w1 b w2 w3 ok w4)
  note bp = both_paths [OF opened(1)]
  have ok: "ok = 0" "run_state (accept_with fd (h_file_size h)) w4 = (0, w')"
    using opened(7) refuse_result(1) by fastforce+
  have wf3: "fs_wf (w_fs w3)"
    using wf wfr.runD [OF wff.ensure_parent [OF TrueI] opened(2)] wfr.runD [OF wfb.versions opened(3)]
      wfr.runD [OF wff.open_wr [OF TrueI] opened(5)] by (simp add: fs_wf_kept_def)
  have c: "w_cwd w2 = w_cwd w" "w_cwd w3 = w_cwd w"
    using fcr.runD [OF confined_parent opened(2), of "w_cwd w" "{}"]
      backup_only_versions [OF opened(3)] opened_reg [OF opened(5)] by (auto simp: fs_confined_def)
  have pk: "pkey w2 q = pkey w q" "pkey w3 q = pkey w q" for q using c by (simp_all add: pkey_def)
  have rx: "w_rx w3 = w_rx w"
    using ssr.runD [OF ssf.ensure_parent [OF TrueI] opened(2)] ssr.runD [OF ssf.backup_version opened(3)]
      ssr.runD [OF ssf.open_wr [OF TrueI] opened(5)] by (simp add: streams_same_def)
  obtain m0 t0 where empty: "fs_get (w_fs w3) (pkey w tmp) = Some (Reg [] m0 t0)"
    using open_wr_Inr [OF opened(5)] pk by auto
  have ne: "pkey w3 tmp \<noteq> pkey w3 dst" using tmp_not_dst [OF bp(4), of w3] bp(3) by auto
  have "is_reg_node (fs_get (w_fs w3) (pkey w3 tmp))" using opened_reg [OF opened(5)] pk by simp
  from transfer_replaces [OF opened(6) [unfolded ok(1)] wf3 ne this] obtain eh w5 b' m t m' t'
    where T: "recv_blocks fd tmp (h_total_hash h) w3 = ((0, eh), w5)"
      "fs_get (w_fs w5) (pkey w tmp) = Some (Reg b' m t)"
      "fs_get (w_fs w4) (pkey w dst) = Some (Reg b' m' t')"
      "(if h_total_hash eh \<noteq> 0 then h_total_hash eh else h_total_hash h) \<noteq> 0 \<longrightarrow>
        hash_buffer_fnv1a b' = (if h_total_hash eh \<noteq> 0 then h_total_hash eh else h_total_hash h)"
    unfolding pk by blast
  have "w_fs w' = w_fs w4" by (rule talks_simps(1) [OF accept_result(2) [OF ok(2)]])
  then have "fs_get (w_fs w') (pkey w (current_file root rel)) = Some (Reg b' m' t')"
    using T(3) bp(2) by simp
  then show ?thesis using T(1,2,4) empty rx c(2) bp(2,3) by blast
next
  case bad_path
  then show ?thesis using refuse_result(1) by fastforce
next
  case unprepared
  then show ?thesis using refuse_result(1) by fastforce
next
  case unopened
  then show ?thesis using refuse_result(1) by fastforce
qed

end
