(* ===== verification/RemoteLaws.thy ===== *)
theory RemoteLaws
  imports TransferRemote ServerLaws
begin

text \<open>
  The bytes a request puts on its connection. \<open>sent fd x\<close> relates the worlds before and after a
  program that wrote exactly \<open>x\<close> to \<open>fd\<close> and read nothing from it.
\<close>

section \<open>Exact output\<close>

definition sent :: "int \<Rightarrow> bytes \<Rightarrow> world \<Rightarrow> world \<Rightarrow> bool" where
  "sent fd x w w' \<longleftrightarrow> w_fs w' = w_fs w \<and> w_cwd w' = w_cwd w \<and> w_tx w' fd = w_tx w fd @ x \<and>
     w_rx w' fd = w_rx w fd"

lemma sent_trans: "sent fd x u v \<Longrightarrow> sent fd y v w \<Longrightarrow> sent fd (x @ y) u w"
  by (simp add: sent_def)

lemma sent_quiet: "quiet w w' \<Longrightarrow> sent fd [] w w'"
  by (simp add: sent_def quiet_simps)

lemma sent_file: "sent fd x w w' \<Longrightarrow> file_bytes w' p = file_bytes w p"
  by (simp add: sent_def file_bytes_def pkey_def)

lemma talks_elsewhere: "talks lfd w w' \<Longrightarrow> lfd \<noteq> fd \<Longrightarrow> sent fd [] w w'"
  using talks_simps(8,9) [of lfd w w' fd] by (simp add: sent_def talks_simps)

lemma and_then_0:
  assumes "run_state (and_then m n) w = (0, w')"
  obtains w1 where "run_state m w = (0, w1)" and "run_state n w1 = (0, w')"
  using assms by (auto simp: and_then_def split: prod.splits if_splits)

lemma sent_header: "run_state (send_header fd h) w = (0, w') \<Longrightarrow> sent fd (header_bytes h) w w'"
  using send_header_result(1,2) [of fd h w 0 w'] tkr.runD [OF send_header_talks, of fd h w 0 w']
  by (simp add: sent_def talks_simps)

lemma sent_path: "run_state (send_path fd p) w = (0, w') \<Longrightarrow> sent fd p w w' \<and> length p \<le> MAX_NET_PATH"
  using send_path_result(1,2) [of fd p w 0 w'] tkr.runD [OF send_path_talks, of fd p w 0 w']
  by (auto simp: sent_def talks_simps send_path_def Let_def split: if_splits)

lemma sent_block:
  assumes "run_state (send_file_block fd b off sz hash mode mtime) w = (0, w')"
  shows "sent fd (block_bytes (block_header b off sz hash mode mtime, b)) w w'"
proof -
  let ?h = "block_header b off sz hash mode mtime"
  obtain s w1 where s: "run_state (send_header fd ?h) w = (s, w1)" by (rule prod.exhaust)
  have s0: "s = 0" and w: "run_state (write_full fd b) w1 = (int (length b), w')"
    using assms s send_header_result(2) [OF s] by (auto simp: send_file_block_def split: if_splits prod.splits)
  have "sent fd b w1 w'"
    using write_full_result(1,2) [OF w] tkr.runD [OF write_full_talks w]
    by (auto simp: sent_def talks_simps)
  with sent_trans [OF sent_header [OF s [unfolded s0]]] show ?thesis by (simp add: block_bytes_def)
qed

lemma ack_received:
  assumes "run_state (wait_for_ack fd) w = (0, w')"
  shows "\<exists>h. w_rx w fd = header_bytes h @ w_rx w' fd \<and> validate_sync_header h = 0 \<and>
    (h_msg_type h = MSG_ACK \<or> h_msg_type h = MSG_OFFSET_REPLY) \<and> w_tx w' fd = w_tx w fd \<and> w_fs w' = w_fs w"
proof -
  obtain x where x: "run_state (recv_header fd) w = (x, w')"
    using assms by (auto simp: wait_for_ack_def split: prod.splits)
  then obtain h where h: "x = Some h" "h_msg_type h = MSG_ACK \<or> h_msg_type h = MSG_OFFSET_REPLY"
    using assms by (auto simp: wait_for_ack_def split: option.splits if_splits)
  then show ?thesis
    using recv_header_result(1,2) [OF x] talks_simps(1) [OF tkr.runD [OF recv_header_talks x]] by auto
qed

lemma socket_quiet: "state_io_rel quiet (create_client_socket sock ip port)"
  unfolding create_client_socket_def sys_socket_def sys_connect_def
  by (intro qr.rules qr.syscall) (simp_all add: quiet_refl)

lemma with_socket_0:
  assumes "run_state (with_socket sock cfg body) w = (0, w')"
  obtains w1 where "quiet w w1" and "run_state (body sock) w1 = (0, w')"
proof -
  obtain fd w1 where c: "run_state (create_client_socket sock (cc_server_ip cfg) (cc_port cfg)) w = (fd, w1)"
    by (rule prod.exhaust)
  have "fd = sock \<or> fd = - 1"
    using c by (auto simp: create_client_socket_def split: prod.splits sum.splits if_splits)
  moreover have "\<not> fd < 0" using assms c by (auto simp: with_socket_def split: if_splits)
  ultimately have "fd = sock" by auto
  then have "run_state (body sock) w1 = (0, w')" using assms c \<open>\<not> fd < 0\<close> by (simp add: with_socket_def)
  with that qr.runD [OF socket_quiet c] show ?thesis by blast
qed

section \<open>Reading the source\<close>

lemma take_length_take: "take (length (take k xs)) xs = take k xs"
  by (cases "k \<le> length xs") simp_all

lemma fread_loop_result:
  "fread_loop p pos left got w = (Some b, w') \<Longrightarrow>
   quiet w w' \<and> b = got @ take left (drop pos (file_bytes w p)) \<and>
   (left = 0 \<or> pos + left \<le> length (file_bytes w p))"
proof (induction p pos left got w rule: fread_loop.induct)
  case (1 p pos left got w)
  show ?case
  proof (cases "left = 0")
    case True
    then show ?thesis using "1.prems" by (simp add: fread_loop.simps quiet_refl)
  next
    case False
    obtain x w1 where r: "run_state (sys_fread p pos left) w = (x, w1)" by (rule prod.exhaust)
    then have w1: "w1 = rest_script w" using sys_fread_world by (metis snd_conv)
    have q1: "quiet w w1" and fb1: "file_bytes w1 p = file_bytes w p" using w1 quiet_rest by simp_all
    have pos: "0 < left" using False by simp
    note step = "1.prems" [unfolded fread_loop_step [OF pos r]]
    show ?thesis
    proof (cases x)
      case (Inl e)
      then have e: "e = EINTR" "fread_loop p pos left got w1 = (Some b, w')"
        using step by (auto split: if_splits)
      from "1.IH"(1) [OF False r [symmetric] Inl e] show ?thesis
        using quiet_trans [OF q1] fb1 by auto
    next
      case (Inr d)
      then have d: "d \<noteq> []" "fread_loop p (pos + length d) (left - length d) (got @ d) w1 = (Some b, w')"
        using step by (auto split: if_splits)
      from sys_fread_cases [of w p pos left] r Inr False obtain k
        where k: "d = take k (drop pos (file_bytes w p))" "k \<le> left"
        by (auto simp: file_bytes_def)
      let ?f = "file_bytes w p"
      have len: "length d \<le> length ?f - pos" using k(1) by simp
      have d': "d = take (length d) (drop pos ?f)" unfolding k(1) by (simp only: take_length_take)
      have "length d \<le> left" using k by simp
      then have "d @ take (left - length d) (drop (pos + length d) ?f) = take left (drop pos ?f)"
      proof -
        assume le: "length d \<le> left"
        have "take left (drop pos ?f) = take (length d + (left - length d)) (drop pos ?f)" using le by simp
        also have "\<dots> = take (length d) (drop pos ?f) @ take (left - length d) (drop (pos + length d) ?f)"
          by (simp add: take_add add.commute)
        finally show ?thesis using d' by simp
      qed
      moreover from "1.IH"(2) [OF False r [symmetric] Inr d] have
        "quiet w1 w'" "b = (got @ d) @ take (left - length d) (drop (pos + length d) ?f)"
        "left - length d = 0 \<or> pos + length d + (left - length d) \<le> length ?f"
        unfolding fb1 by blast+
      moreover have "0 < length d" using d(1) by simp
      ultimately show ?thesis
        using quiet_trans [OF q1] len \<open>length d \<le> left\<close> by auto
    qed
  qed
qed

section \<open>The transcript of a small file\<close>

definition small_blocks :: "sync_task \<Rightarrow> 64 word \<Rightarrow> bytes \<Rightarrow> block list" where
  "small_blocks task total_hash s =
     (if t_file_size task = 0 then []
      else let d = take (unat (word_of_nat (unat (t_file_size task)) :: 32 word)) s in
        [(block_header d 0 (t_file_size task) total_hash (t_mode task) (t_mtime task), d)])"

definition small_transcript :: "sync_task \<Rightarrow> 64 word \<Rightarrow> bytes \<Rightarrow> bytes" where
  "small_transcript task total_hash s =
     header_bytes (begin_header task total_hash) @ t_rel_path task @
     concat (map block_bytes (small_blocks task total_hash s)) @
     header_bytes (end_header (t_file_size task) total_hash (t_mode task) (t_mtime task))"

lemma small_body_sent:
  assumes "run_state (send_small_body fd task hash) w = (0, w')"
  defines "n \<equiv> unat (t_file_size task)"
  shows "sent fd (concat (map block_bytes
      (small_blocks task hash (take n (file_bytes w (t_src_path task)))))) w w'"
    and "n \<le> length (file_bytes w (t_src_path task)) \<or> n = 0"
proof -
  let ?s = "file_bytes w (t_src_path task)"
  let ?d = "take (unat (word_of_nat n :: 32 word)) (take n ?s)"
  obtain m w1 where m: "run_state (sys_malloc (if n = 0 then 1 else n)) w = (m, w1)" by (rule prod.exhaust)
  have q1: "quiet w w1" by (rule qr.runD [OF qr.calls(7) m])
  have fb: "file_bytes w1 p = file_bytes w p" for p
    using quiet_simps [OF q1] by (simp add: file_bytes_def)
  note run = assms(1) [unfolded send_small_body_def Let_def, folded n_def]
  obtain u where u: "m = Inr u" using run m by (cases m) auto
  have "sent fd (concat (map block_bytes (small_blocks task hash (take n ?s)))) w w' \<and>
    (n \<le> length ?s \<or> n = 0)"
  proof (cases "n = 0")
    case True
    then have "t_file_size task = 0" by (simp add: n_def unat_eq_0)
    then show ?thesis using run m u True sent_quiet [OF q1]
      by (auto simp: small_blocks_def Let_def)
  next
    case False
    then have nz: "t_file_size task \<noteq> 0" by (auto simp: n_def)
    obtain b w2 where b: "run_state (file_read_full (t_src_path task) n) w1 = (b, w2)" by (rule prod.exhaust)
    obtain buf where buf: "b = Some buf"
      using run m u b False by (cases b) auto
    have f: "quiet w1 w2" "buf = take n ?s" "n \<le> length ?s"
      using fread_loop_result [of "t_src_path task" 0 n "[]" w1 buf w2] b buf fb False
      by (auto simp: file_read_full_def)
    have "run_state (send_file_block fd ?d 0 (t_file_size task) hash (t_mode task) (t_mtime task)) w2 = (0, w')"
      using run m u b buf f False by simp
    from sent_trans [OF sent_quiet [OF quiet_trans [OF q1 f(1)]] sent_block [OF this]]
    show ?thesis using f(3) nz by (simp add: small_blocks_def Let_def n_def)
  qed
  then show "sent fd (concat (map block_bytes (small_blocks task hash (take n ?s)))) w w'"
    "n \<le> length ?s \<or> n = 0" by blast+
qed

lemma open_step:
  assumes "run_state (do { i \<leftarrow> sys_open_rd p; ret (if isl i then - 1 else 0) } :: int prog) w = (0, w')"
  shows "quiet w w'"
  using assms open_rd_quiet by (auto split: prod.splits)

lemma small_file_transcript:
  assumes run: "run_state (send_remote_small_file sock cfg task lfd wid) w = (0, w')" and ne: "lfd \<noteq> sock"
  defines "s \<equiv> take (unat (t_file_size task)) (file_bytes w (t_src_path task))"
  shows "\<exists>hash reply. w_tx w' sock = w_tx w sock @ small_transcript task hash s \<and>
    length s = unat (t_file_size task) \<and> length (t_rel_path task) \<le> MAX_NET_PATH \<and>
    (hash = 0 \<or> hash = hash_buffer_fnv1a (file_bytes w (t_src_path task))) \<and>
    w_rx w sock = header_bytes reply @ w_rx w' sock \<and> validate_sync_header reply = 0 \<and>
    (h_msg_type reply = MSG_ACK \<or> h_msg_type reply = MSG_OFFSET_REPLY) \<and> w_fs w' = w_fs w"
proof -
  from run [unfolded send_remote_small_file_def] obtain w1 where q1: "quiet w w1"
    and body: "run_state (do {
       total_hash \<leftarrow> hash_file_fnv1a (t_src_path task);
       ok \<leftarrow> and_then (send_header sock (begin_header task total_hash))
         (and_then (send_path sock (t_rel_path task))
         (and_then (do { i \<leftarrow> sys_open_rd (t_src_path task); ret (if isl i then - 1 else 0) })
         (and_then (send_small_body sock task total_hash)
         (and_then (send_file_end sock (t_file_size task) total_hash (t_mode task) (t_mtime task))
         (wait_for_ack sock)))));
       (if ok = 0 then do {
          _ \<leftarrow> log_message lfd LOG_INFO (success_text wid task ''small-file'' total_hash);
          ret ok
        }
        else ret ok)
     }) w1 = (0, w')" by (rule with_socket_0)
  obtain hash w2 where h: "run_state (hash_file_fnv1a (t_src_path task)) w1 = (hash, w2)" by (rule prod.exhaust)
  have q2: "quiet w w2" by (rule quiet_trans [OF q1 hash_file_world [OF h]])
  let ?send = "and_then (send_header sock (begin_header task hash))
         (and_then (send_path sock (t_rel_path task))
         (and_then (do { i \<leftarrow> sys_open_rd (t_src_path task); ret (if isl i then - 1 else 0) })
         (and_then (send_small_body sock task hash)
         (and_then (send_file_end sock (t_file_size task) hash (t_mode task) (t_mtime task))
         (wait_for_ack sock)))))"
  obtain ok w3 where sn: "run_state ?send w2 = (ok, w3)" by (rule prod.exhaust)
  have ok: "ok = 0" using body h sn by (auto split: if_splits prod.splits)
  obtain u where lg: "run_state (log_message lfd LOG_INFO (success_text wid task ''small-file'' hash)) w3 = (u, w')"
    using body h sn ok by (auto split: prod.splits)
  obtain a b c d e where S: "run_state (send_header sock (begin_header task hash)) w2 = (0, a)"
    "run_state (send_path sock (t_rel_path task)) a = (0, b)"
    "run_state (do { i \<leftarrow> sys_open_rd (t_src_path task); ret (if isl i then - 1 else 0) } :: int prog) b = (0, c)"
    "run_state (send_small_body sock task hash) c = (0, d)"
    "run_state (send_file_end sock (t_file_size task) hash (t_mode task) (t_mtime task)) d = (0, e)"
    "run_state (wait_for_ack sock) e = (0, w3)"
    using sn [unfolded ok] by (elim and_then_0) blast
  have sc: "sent sock (header_bytes (begin_header task hash) @ t_rel_path task) w c"
    using sent_trans [OF sent_quiet [OF q2] sent_trans [OF sent_header [OF S(1)]
      sent_trans [OF conjunct1 [OF sent_path [OF S(2)]] sent_quiet [OF open_step [OF S(3)]]]]] by simp
  have fc: "file_bytes c p = file_bytes w p" for p by (rule sent_file [OF sc])
  note sb = small_body_sent [OF S(4), unfolded fc, folded s_def]
  have "sent sock (small_transcript task hash s) w e"
    using sent_trans [OF sent_trans [OF sc sb(1)] sent_header [OF S(5) [unfolded send_file_end_def]]]
    by (simp add: small_transcript_def)
  moreover obtain reply where rp: "w_rx e sock = header_bytes reply @ w_rx w3 sock"
    "validate_sync_header reply = 0" "h_msg_type reply = MSG_ACK \<or> h_msg_type reply = MSG_OFFSET_REPLY"
    "w_tx w3 sock = w_tx e sock" "w_fs w3 = w_fs e" using ack_received [OF S(6)] by blast
  moreover have "sent sock [] w3 w'"
    by (rule talks_elsewhere [OF tkr.runD [OF log_message_talks lg] ne])
  moreover have "hash = 0 \<or> hash = hash_buffer_fnv1a (file_bytes w (t_src_path task))"
    using hash_file_sound [OF h] quiet_simps [OF q1] by (auto simp: file_bytes_def)
  moreover have "length s = unat (t_file_size task)" using sb(2) by (auto simp: s_def)
  ultimately show ?thesis using conjunct2 [OF sent_path [OF S(2)]]
    by (intro exI [of _ hash] exI [of _ reply]) (simp add: sent_def)
qed

end
