(* ===== verification/EndToEnd.thy ===== *)
theory EndToEnd
  imports RemoteLaws
begin

text \<open>
  Client and server together. The two processes are run on worlds of their own; the input of
  each is the output of the other. What the client believes after a positive answer is then
  shown of the server's backup, for every script of failures on either side.
\<close>

section \<open>Receiving writes nothing\<close>

definition tx_same :: "world \<Rightarrow> world \<Rightarrow> bool" where
  "tx_same w w' \<longleftrightarrow> w_tx w' = w_tx w"

lemma tx_same_streams: "state_io_rel streams_same m \<Longrightarrow> state_io_rel tx_same m"
  by (auto simp: state_io_rel_def streams_same_def tx_same_def)

interpretation txr: receiving_relation tx_same "\<lambda>_. True"
proof unfold_locales
  show "tx_same w w" "tx_same w (rest_script w)" for w by (simp_all add: tx_same_def)
  show "tx_same u v \<Longrightarrow> tx_same v w \<Longrightarrow> tx_same u w" for u v w by (simp add: tx_same_def)
  show "state_io_rel tx_same (ensure_dir_exists p)" "state_io_rel tx_same (ensure_parent_dir_exists p)" for p
    by (rule tx_same_streams [OF ssf.ensure_dir [OF TrueI]] tx_same_streams [OF ssf.ensure_parent [OF TrueI]])+
  show "state_io_rel tx_same (sys_open_wr p tr m)" for p tr m by (rule tx_same_streams [OF ssf.open_wr [OF TrueI]])
  show "state_io_rel tx_same (sys_fwrite p pos d)" for p pos d by (rule tx_same_streams [OF ssf.fwrite [OF TrueI]])
  show "state_io_rel tx_same (sys_unlink p)" for p by (rule tx_same_streams [OF ssf.unlink [OF TrueI]])
  show "state_io_rel tx_same (sys_chmod p m)" for p m by (rule tx_same_streams [OF ssf.chmod [OF TrueI]])
  show "state_io_rel tx_same (sys_utime p t)" for p t by (rule tx_same_streams [OF ssf.utime [OF TrueI]])
  show "state_io_rel tx_same (sys_rename p q)" for p q
    by (rule tx_same_streams [OF ssf.rename [OF TrueI TrueI]])
  show "state_io_rel tx_same (read_full fd n)" for fd n
  proof (rule state_io_relI)
    fix a w w' assume r: "run_state (read_full fd n) w = (a, w')"
    show "tx_same w w'" unfolding tx_same_def
    proof
      fix f show "w_tx w' f = w_tx w f"
        using read_full_result(1) [OF r] talks_simps(9) [OF tkr.runD [OF read_full_talks r]]
        by (cases "f = fd") auto
    qed
  qed
qed

lemma tx_versions: "state_io_rel tx_same (backup_old_version root rel)"
  by (rule tx_same_streams [OF ssf.backup_version]) simp

section \<open>The answer to an announced file\<close>

definition error_bytes :: "string \<Rightarrow> bytes" where
  "error_bytes msg = header_bytes (error_header msg) @ take (unat (h_path_len (error_header msg))) msg"

text \<open>An error message has been written, the whole of it unless a call failed for good.\<close>

definition error_answer :: "int \<Rightarrow> world \<Rightarrow> world \<Rightarrow> bool" where
  "error_answer fd w w' \<longleftrightarrow> (\<exists>msg k. w_tx w' fd = w_tx w fd @ take k (error_bytes msg) \<and>
     (retryable w \<longrightarrow> w_tx w' fd = w_tx w fd @ error_bytes msg))"

lemma refuse_answers:
  assumes "run_state (refuse fd msg) w = (r, w')" and "w_tx w fd = w_tx v fd"
    and "set (w_script w) \<subseteq> set (w_script v)"
  shows "error_answer fd v w'"
proof -
  obtain k where "w_tx w' fd = w_tx w fd @ take k (error_bytes msg)"
    using refuse_result(4) [OF assms(1)] by (auto simp: error_bytes_def)
  moreover have "retryable v \<Longrightarrow> w_tx w' fd = w_tx w fd @ error_bytes msg"
    using refuse_result(5) [OF assms(1)] assms(3) by (auto simp: retryable_def error_bytes_def)
  ultimately show ?thesis unfolding error_answer_def assms(2) by blast
qed

lemma script_used_subset: "script_used w w' \<Longrightarrow> set (w_script w') \<subseteq> set (w_script w)"
  by (auto simp: script_used_def dest: in_set_dropD)

lemma error_answer_no_ack:
  assumes "error_answer fd w w'" and "w_tx w fd = []" and "w_tx w' fd = header_bytes h @ z"
  shows "h_msg_type h = MSG_ERROR"
proof -
  obtain msg k where "w_tx w' fd = w_tx w fd @ take k (error_bytes msg)"
    using assms(1) unfolding error_answer_def by blast
  then have "take k (header_bytes (error_header msg) @ take (unat (h_path_len (error_header msg))) msg) =
      header_bytes h @ z"
    unfolding assms(2,3) append_Nil error_bytes_def by (rule sym)
  then show ?thesis by (rule refused_not_acked)
qed

lemma file_begin_answer:
  assumes run: "run_state (server_handle_file_begin fd h root rel) w = (r, w')"
    and isf: "\<not> S_ISDIR (h_mode h)" and r: "r \<noteq> 0"
  shows "error_answer fd w w'"
  using run isf
proof (cases rule: file_begin_cases)
  case bad_path
  then show ?thesis using refuse_answers by blast
next
  case (unprepared dst tmp p w1 b w2 msg)
  have "w_tx w2 = w_tx w"
    using txr.runD [OF txr.ensure_parent [OF TrueI] unprepared(2)] unprepared(3) txr.runD [OF tx_versions]
    by (auto simp: tx_same_def)
  moreover have "script_used w w2"
    using sur.runD [OF suf.ensure_parent [OF TrueI] unprepared(2)] unprepared(3)
      sur.runD [OF sub.versions] sur.trans by blast
  ultimately show ?thesis using script_used_subset by (intro refuse_answers [OF unprepared(4)]) simp_all
next
  case (unopened dst tmp p w1 b w2 e w3 msg)
  have "w_tx w3 = w_tx w"
    using txr.runD [OF txr.ensure_parent [OF TrueI] unopened(2)] txr.runD [OF tx_versions unopened(3)]
      txr.runD [OF txr.open_wr [OF TrueI] unopened(4)] by (simp add: tx_same_def)
  moreover have "script_used w w3"
    using sur.runD [OF suf.ensure_parent [OF TrueI] unopened(2)] sur.runD [OF sub.versions unopened(3)]
      sur.runD [OF suf.open_wr [OF TrueI] unopened(4)] sur.trans by blast
  ultimately show ?thesis using script_used_subset by (intro refuse_answers [OF unopened(5)]) simp_all
next
  case (opened dst tmp p w1 b w2 w3 ok w4)
  have "w_tx w4 = w_tx w"
    using txr.runD [OF txr.ensure_parent [OF TrueI] opened(2)] txr.runD [OF tx_versions opened(3)]
      txr.runD [OF txr.open_wr [OF TrueI] opened(5)] txr.runD [OF txr.begin_kept [OF TrueI TrueI] opened(6)]
    by (simp add: tx_same_def)
  moreover have "script_used w w4"
    using sur.runD [OF suf.ensure_parent [OF TrueI] opened(2)] sur.runD [OF sub.versions opened(3)]
      sur.runD [OF suf.open_wr [OF TrueI] opened(5)] sur.runD [OF sub.begin_kept [OF TrueI TrueI] opened(6)]
      sur.trans by blast
  moreover have "run_state (refuse fd ''file receive failed'') w4 = (r, w')"
    using opened(7) r accept_result(1) by blast
  ultimately show ?thesis
    using script_used_subset by (intro refuse_answers [of fd "''file receive failed''" w4 r]) simp_all
qed

section \<open>One message of a connection\<close>

text \<open>What a connection does that starts with a message other than EXIT, HELLO and QUERY_OFFSET.\<close>

lemma connection_one_message:
  assumes run: "run_state (server_handle_connection fd root lp) w = (r, w')"
    and rx: "w_rx w fd = header_bytes h @ p @ rest" and len: "unat (h_path_len h) = length p"
    and t: "h_msg_type h \<notin> {MSG_EXIT, MSG_HELLO, MSG_QUERY_OFFSET}"
  shows "w_tx w' fd = w_tx w fd \<or> error_answer fd w w' \<or>
    (\<exists>w2 rc l w3. run_state (handle_message fd root [] h p) w2 = ((rc, l), w3) \<and>
      w_fs w2 = w_fs w \<and> w_cwd w2 = w_cwd w \<and> w_tx w2 fd = w_tx w fd \<and> w_rx w2 fd = rest \<and>
      set (w_script w2) \<subseteq> set (w_script w) \<and> w_time w2 = w_time w \<and> w_localtime w2 = w_localtime w \<and>
      w_fs w' = w_fs w3 \<and> w_tx w' fd = w_tx w3 fd)"
proof -
  obtain x w1 where x: "run_state (recv_header fd) w = (x, w1)" by (rule prod.exhaust)
  note t1 = talks_simps [OF tkr.runD [OF recv_header_talks x]] and tx1 = recv_header_result(1) [OF x]
  have c: "connection fd root lp [] w = (r, w')" using run by (simp add: server_handle_connection_def)
  show ?thesis
  proof (cases x)
    case None
    then show ?thesis using c x tx1 by (simp add: connection.simps)
  next
    case (Some h')
    note st = recv_header_stream [OF x [unfolded Some] rx]
    obtain y w5 where y: "run_state (connection_round fd root lp [] h) w1 = (y, w5)" by (rule prod.exhaust)
    let ?rp = "if h_path_len h \<noteq> 0 then recv_path fd (MAX_NET_PATH + 1) (unat (h_path_len h)) else ret (Some [])"
    obtain q w2 where q: "run_state ?rp w1 = (q, w2)" by (rule prod.exhaust)
    have tk2: "talks fd w1 w2" and tx2: "w_tx w2 fd = w_tx w1 fd"
      using q tkr.runD [OF recv_path_talks] recv_path_result(1) tkr.refl by (fastforce split: if_splits)+
    note t2 = talks_simps [OF tk2]
    show ?thesis
    proof (cases q)
      case None
      obtain e w4 where e: "run_state (send_error fd ''read path failed'') w2 = (e, w4)" by (rule prod.exhaust)
      have ref: "run_state (refuse fd ''read path failed'') w2 = (- 1, w4)" using e by (simp add: refuse_def)
      have "y = Inl (- 1)" "w5 = w4"
        using y t q None e by (auto simp: connection_round_def)
      then have "w' = w4" using c x Some st y by (simp add: connection.simps [of _ _ _ _ w])
      then show ?thesis using refuse_answers [OF ref, of w] tx1 tx2 subset_trans [OF t2(12) t1(12)] by simp
    next
      case q': (Some raw)
      have raw: "raw = p \<and> w_rx w2 fd = rest"
      proof (cases "h_path_len h = 0")
        case True
        then have "p = []" using len by simp
        then show ?thesis using True q q' st by simp
      next
        case False
        then have "run_state (recv_path fd (MAX_NET_PATH + 1) (unat (h_path_len h))) w1 = (Some raw, w2)"
          using q q' by simp
        from recv_path_result(2) [OF this refl]
        have l: "length raw = length p" and e: "p @ rest = raw @ w_rx w2 fd" using st len by simp_all
        show ?thesis using e unfolding append_eq_append_conv [OF disjI1 [OF l [symmetric]]] by simp
      qed
      obtain rc l w3 where m: "run_state (handle_message fd root [] h p) w2 = ((rc, l), w3)"
        by (metis prod.collapse)
      let ?lg = "server_log lp (if rc = 0 then LOG_INFO else LOG_ERROR)
               (''server: msg='' @ msg_type_to_string (h_msg_type h) @ '' path='' @ cstr p @
                '' rc='' @ show_int rc)"
      obtain u w4 where lg: "run_state ?lg w3 = (u, w4)" by (rule prod.exhaust)
      have w5: "w5 = w4 \<and> isl y"
        using y t q q' raw m lg by (auto simp: connection_round_def)
      then have "w' = w4" using c x Some st y
        by (cases y) (simp_all add: connection.simps [of _ _ _ _ w])
      moreover have "w_fs w4 = w_fs w3" "w_tx w4 = w_tx w3"
        using lgr.runD [OF server_log_logs lg] by (simp_all add: logs_only_def)
      ultimately show ?thesis
        using t1(1,2,5,6) t2(1,2,5,6) tx1 tx2 subset_trans [OF t2(12) t1(12)] raw
        by (intro disjI2 exI [of _ w2] exI [of _ rc] exI [of _ l] exI [of _ w3]) (simp add: m)
    qed
  qed
qed

section \<open>A small file\<close>

lemma init_valid: "validate_sync_header (init_sync_header t) = 0"
  by (simp add: validate_sync_header_def init_sync_header_def zero_header_def)

lemma small_blocks_ok:
  assumes "length s = unat (t_file_size task)" and "length s < 2 ^ 32"
  shows "\<forall>x \<in> set (small_blocks task hash s). block_ok x"
    and "apply_blocks (small_blocks task hash s) [] = s"
proof -
  have u: "unat (word_of_nat (length s) :: 32 word) = length s"
    using assms(2) by (simp add: unat_of_nat)
  show "\<forall>x \<in> set (small_blocks task hash s). block_ok x"
    using u assms(1) by (auto simp: small_blocks_def block_ok_def block_header_def Let_def
        validate_sync_header_def init_sync_header_def zero_header_def)
  show "apply_blocks (small_blocks task hash s) [] = s"
  proof (cases "t_file_size task = 0")
    case True
    then show ?thesis using assms(1) by (simp add: small_blocks_def apply_blocks_def)
  next
    case False
    then show ?thesis using u assms(1)
      by (simp add: small_blocks_def apply_blocks_def block_header_def Let_def splice_def)
  qed
qed

lemma begin_header_simps:
  assumes "length (t_rel_path task) \<le> MAX_NET_PATH"
  shows "unat (h_path_len (begin_header task hash)) = length (t_rel_path task)"
    and "h_msg_type (begin_header task hash) = MSG_FILE_BEGIN"
    and "h_mode (begin_header task hash) = t_mode task"
  using assms by (simp_all add: begin_header_def path_header_def init_sync_header_def zero_header_def unat_of_nat)

lemma small_file_arrives:
  assumes client: "run_state (send_remote_small_file sock cfg task lfd wid) wc = (0, wc')"
    and lfd: "lfd \<noteq> sock" and txc: "w_tx wc sock = []" and rel: "is_cstr (t_rel_path task)"
    and isf: "\<not> S_ISDIR (t_mode task)" and size: "unat (t_file_size task) < 2 ^ 32"
    and server: "run_state (server_handle_connection fd root lp) ws = (r, ws')"
    and there: "w_rx ws fd = w_tx wc' sock" and reply_rx: "w_rx wc sock = w_tx ws' fd"
    and txs: "w_tx ws fd = []" and wf: "fs_wf (w_fs ws)" and root: "root \<noteq> []"
  shows "\<exists>m t. fs_get (w_fs ws') (pkey ws (current_file root (t_rel_path task))) =
    Some (Reg (take (unat (t_file_size task)) (file_bytes wc (t_src_path task))) m t)"
proof -
  obtain s where s_def: "s = take (unat (t_file_size task)) (file_bytes wc (t_src_path task))" by blast
  obtain hash reply where T: "w_tx wc' sock = small_transcript task hash s"
    "length s = unat (t_file_size task)" "length (t_rel_path task) \<le> MAX_NET_PATH"
    "w_rx wc sock = header_bytes reply @ w_rx wc' sock"
    "h_msg_type reply = MSG_ACK \<or> h_msg_type reply = MSG_OFFSET_REPLY"
    using small_file_transcript [OF client lfd] txc unfolding s_def [symmetric] by auto
  let ?h = "begin_header task hash"
  let ?e = "end_header (t_file_size task) hash (t_mode task) (t_mtime task)"
  let ?bs = "small_blocks task hash s"
  note bh = begin_header_simps [OF T(3), of hash]
  have rx: "w_rx ws fd = header_bytes ?h @ t_rel_path task @ (concat (map block_bytes ?bs) @ header_bytes ?e)"
    using there T(1) by (simp add: small_transcript_def)
  have ans: "w_tx ws' fd = header_bytes reply @ w_rx wc' sock" using reply_rx T(4) by simp
  have noerr: "\<not> error_answer fd ws ws'"
    using error_answer_no_ack [OF _ txs ans] T(5) by auto
  have ty: "h_msg_type ?h \<notin> {MSG_EXIT, MSG_HELLO, MSG_QUERY_OFFSET}" using bh(2) by simp
  have "w_tx ws' fd \<noteq> w_tx ws fd"
  proof -
    have "0 < length (header_bytes reply)" by (simp add: header_size_def)
    then show ?thesis unfolding ans txs by (metis append_is_Nil_conv length_greater_0_conv)
  qed
  then obtain w2 rc l w3 where M: "run_state (handle_message fd root [] ?h (t_rel_path task)) w2 = ((rc, l), w3)"
    "w_fs w2 = w_fs ws" "w_cwd w2 = w_cwd ws" "w_tx w2 fd = w_tx ws fd"
    "w_rx w2 fd = concat (map block_bytes ?bs) @ header_bytes ?e" "w_fs ws' = w_fs w3" "w_tx ws' fd = w_tx w3 fd"
    "set (w_script w2) \<subseteq> set (w_script ws)"
    using connection_one_message [OF server rx bh(1) ty] noerr by blast
  have fb: "run_state (server_handle_file_begin fd ?h root (t_rel_path task)) w2 = (rc, w3)"
    using M(1) bh(2) rel by (auto simp: handle_message_def Let_def split: prod.splits)
  have isf': "\<not> S_ISDIR (h_mode ?h)" using isf bh(3) by simp
  have "rc = 0"
  proof (rule ccontr)
    assume "rc \<noteq> 0"
    from file_begin_answer [OF fb isf' this] have "error_answer fd w2 w3" .
    moreover have "retryable ws \<Longrightarrow> retryable w2" using M(8) by (auto simp: retryable_def)
    ultimately have "error_answer fd ws ws'" unfolding error_answer_def M(4,7) by blast
    then show False using noerr by simp
  qed
  have wf2: "fs_wf (w_fs w2)" using wf M(2) by simp
  obtain w4 eh w5 b m t m' t' m0 t0
    where A: "w_rx w4 = w_rx w2" "w_cwd w4 = w_cwd w2"
      "fs_get (w_fs w4) (pkey w2 (current_file root (t_rel_path task) @ ''.syncing'')) = Some (Reg [] m0 t0)"
      "recv_blocks fd (current_file root (t_rel_path task) @ ''.syncing'') (h_total_hash ?h) w4 = ((0, eh), w5)"
      "fs_get (w_fs w5) (pkey w2 (current_file root (t_rel_path task) @ ''.syncing'')) = Some (Reg b m t)"
      "fs_get (w_fs w3) (pkey w2 (current_file root (t_rel_path task))) = Some (Reg b m' t')"
    using file_begin_accepted [OF fb [unfolded \<open>rc = 0\<close>] isf' root wf2] by (elim exE conjE) simp
  have pk: "pkey w4 q = pkey w2 q" "pkey w2 q = pkey ws q" for q
    using A(2) M(3) by (simp_all add: pkey_def)
  have rx4: "w_rx w4 fd = concat (map block_bytes ?bs) @ header_bytes ?e @ []" using A(1) M(5) by simp
  have ty4: "h_msg_type ?e = MSG_FILE_END" by (simp add: end_header_def init_sync_header_def)
  have len: "length s < 2 ^ 32" using T(2) size by simp
  note sb = small_blocks_ok [OF T(2) len, of hash]
  have empty: "fs_get (w_fs w4) (pkey w4 (current_file root (t_rel_path task) @ ''.syncing'')) =
      Some (Reg [] m0 t0)" using A(3) pk by simp
  from recv_blocks_content [OF A(4) empty sb(1) rx4 ty4] have "b = s" using A(5) pk sb(2) by auto
  then show ?thesis using A(6) M(6) pk s_def by auto
qed

end
