(* ===== verification/ServerSuccess.thy ===== *)
theory ServerSuccess
  imports LocalSuccess EndToEnd
begin

text \<open>
  A connection of the server succeeds: in a calm world with room below the backup root, a file that
  is announced and sent in valid blocks is stored and acknowledged.
\<close>

section \<open>The clock and the worked-on files\<close>

definition clock_kept :: "world \<Rightarrow> world \<Rightarrow> bool" where
  "clock_kept w w' \<longleftrightarrow> w_time w' = w_time w \<and> w_localtime w' = w_localtime w"

interpretation ckr: world_relation clock_kept
  by unfold_locales (auto simp: clock_kept_def)

lemma clock_kept_mutators:
  "state_io_rel clock_kept (sys_mkdir p m)" "state_io_rel clock_kept (sys_open_wr p tr m)"
  "state_io_rel clock_kept (sys_fwrite p pos d)" "state_io_rel clock_kept (sys_unlink p)"
  "state_io_rel clock_kept (sys_chmod p m)" "state_io_rel clock_kept (sys_utime p t)"
  "state_io_rel clock_kept (sys_rename p q)"
  unfolding call_defs
  by (auto intro!: ckr.syscall ckr.syscall_state simp: clock_kept_def pkey_def do_mkdir_def Let_def
      do_open_wr_def do_fwrite_def do_unlink_def do_touch_def do_rename_def
      split: option.splits node.splits sum.splits)

interpretation ckf: file_relation clock_kept "\<lambda>_. True"
  by unfold_locales (rule ckr.any_dir ckr.any_parent clock_kept_mutators)+

lemma fs_same_fwrite:
  assumes "path_key c p \<in> S"
  shows "state_io_rel (fs_same c S) (sys_fwrite p pos d)"
proof (rule state_io_relI)
  fix a w w'
  assume r: "run_state (sys_fwrite p pos d) w = (a, w')"
  then show "fs_same c S w w'"
    using sys_fwrite_cases [of w p pos d] assms by (elim disjE exE conjE) (auto simp: fs_same_def pkey_def)
qed

interpretation fsb: block_relation "fs_same c S" "\<lambda>p. path_key c p \<in> S" for c S
proof unfold_locales
  show "path_key c p \<in> S \<Longrightarrow> state_io_rel (fs_same c S) (sys_fwrite p pos d)" for p pos d
    by (rule fs_same_fwrite)
  show "state_io_rel (fs_same c S) (read_full fd n)" for fd n
    by (rule state_io_relI) (auto simp: fs_same_def dest: talks_simps [OF tkr.runD [OF read_full_talks]])
qed

lemma script_stays_empty: "w_script w = [] \<Longrightarrow> script_used w w' \<Longrightarrow> w_script w' = []"
  by (auto simp: script_used_def)

section \<open>Receiving\<close>

lemma calm_benign: "w_script w = [] \<Longrightarrow> benign w"
  by (simp add: benign_def)

lemma recv_header_calm:
  assumes "w_script w = []" and "w_rx w fd = header_bytes h @ rest" and "validate_sync_header h = 0"
  obtains w1 where "run_state (recv_header fd) w = (Some h, w1)" "talks fd w w1" "w_rx w1 fd = rest"
    "w_script w1 = []" "w_tx w1 fd = w_tx w fd"
proof -
  obtain x w1 where r: "run_state (recv_header fd) w = (x, w1)" by (rule prod.exhaust)
  note t = tkr.runD [OF recv_header_talks r]
  show thesis
    using that [of w1] r t recv_header_result(1) [OF r] recv_header_result(3) [OF r calm_benign assms(2,3)]
      assms(1) talks_simps(15) [OF t] by simp
qed

text \<open>A block that the server takes.\<close>

definition block_fits :: "block \<Rightarrow> bool" where
  "block_fits x \<longleftrightarrow> block_ok x \<and> snd x \<noteq> [] \<and> length (snd x) \<le> MAX_BLOCK \<and> 0 \<le> sint (h_offset (fst x)) \<and>
     (h_block_hash (fst x) = 0 \<or> h_block_hash (fst x) = hash_buffer_fnv1a (snd x))"

lemma read_and_store:
  assumes "w_script w = []" and "w_rx w fd = d @ rest" and off: "0 \<le> sint off"
    and g: "fs_get (w_fs w) (pkey w out) = Some (Reg b mo ti)"
  obtains w1 w2 t where "run_state (read_full fd (length d)) w = (Some d, w1)"
    "run_state (sys_pwrite out d off) w1 = (Inr (length d), w2)" "w_rx w2 fd = rest" "w_script w2 = []"
    "w_tx w2 fd = w_tx w fd" "w_cwd w2 = w_cwd w"
    "fs_get (w_fs w2) (pkey w2 out) = Some (Reg (splice (unat off) d b) mo t)"
proof -
  obtain x w1 where r: "run_state (read_full fd (length d)) w = (x, w1)" by (rule prod.exhaust)
  have x: "x = Some d" "w_rx w1 fd = rest"
    using read_full_result(3) [OF r calm_benign [OF assms(1)]] assms(2) by simp_all
  note t = talks_simps [OF tkr.runD [OF read_full_talks r]]
  have sc: "w_script w1 = []" using t(15) assms(1) by simp
  have g1: "fs_get (w_fs w1) (pkey w1 out) = Some (Reg b mo ti)" using g t(1,7) by simp
  let ?w2 = "w1\<lparr>w_fs := fs_put (pkey w1 out) (Reg (splice (unat off) d b) mo (w_time w1)) (w_fs w1)\<rparr>"
  have "run_state (sys_pwrite out d off) w1 = (Inr (length d), ?w2)"
    using sys_fwrite_cases [of w1 out "unat off" d] g1 sc off by (auto simp: sys_pwrite_def)
  then show thesis
    using that [of w1 ?w2 "w_time w1"] r x sc t(2) read_full_result(1) [OF r] by (simp add: pkey_def)
qed

lemma recv_block_calm:
  assumes "w_script w = []" and "w_rx w fd = d @ rest" and "block_fits (h, d)"
    and reg: "is_reg_node (fs_get (w_fs w) (pkey w out))"
  obtains w1 where "run_state (recv_block fd out h) w = (True, w1)" "w_rx w1 fd = rest" "w_script w1 = []"
    "is_reg_node (fs_get (w_fs w1) (pkey w1 out))"
proof -
  have h: "h_msg_type h = MSG_FILE_BLOCK" "unat (h_data_len h) = length d" "d \<noteq> []" "length d \<le> MAX_BLOCK"
    "0 \<le> sint (h_offset h)" "h_block_hash h = 0 \<or> hash_buffer_fnv1a d = h_block_hash h"
    using assms(3) by (auto simp: block_fits_def block_ok_def)
  have dl: "h_data_len h \<noteq> 0" using h(2,3) by auto
  have m: "run_state (sys_malloc (length d)) w = (Inr (), w)"
    by (simp add: sys_malloc_def run_syscall assms(1))
  obtain b mo ti where g: "fs_get (w_fs w) (pkey w out) = Some (Reg b mo ti)"
    using reg by (auto elim: is_reg_nodeE)
  obtain w1 w2 t where S: "run_state (read_full fd (length d)) w = (Some d, w1)"
    "run_state (sys_pwrite out d (h_offset h)) w1 = (Inr (length d), w2)" "w_rx w2 fd = rest" "w_script w2 = []"
    "fs_get (w_fs w2) (pkey w2 out) = Some (Reg (splice (unat (h_offset h)) d b) mo t)"
    using read_and_store [OF assms(1,2) h(5) g] by blast
  have "run_state (recv_block fd out h) w = (True, w2)"
    using h dl m S(1,2) by (auto simp: recv_block_def)
  then show thesis using that S(3-5) by simp
qed

lemma recv_blocks_calm:
  assumes "h_msg_type e = MSG_FILE_END" and "validate_sync_header e = 0"
    and "ex = 0 \<or> h_total_hash e = 0 \<or> ex = h_total_hash e"
  shows "w_script w = [] \<Longrightarrow> \<forall>x \<in> set bs. block_fits x \<Longrightarrow>
   w_rx w fd = concat (map block_bytes bs) @ header_bytes e @ rest \<Longrightarrow>
   is_reg_node (fs_get (w_fs w) (pkey w out)) \<Longrightarrow> \<exists>w'. recv_blocks fd out ex w = ((0, e), w')"
proof (induction bs arbitrary: w)
  case Nil
  have "w_rx w fd = header_bytes e @ rest" using Nil.prems(3) by simp
  from recv_header_calm [OF Nil.prems(1) this assms(2)] obtain w1
    where "run_state (recv_header fd) w = (Some e, w1)" by blast
  then show ?case using assms(1,3) by (auto simp: recv_blocks.simps [of _ _ _ w])
next
  case (Cons x bs)
  have f: "block_fits x" using Cons.prems(2) by simp
  then have ok: "validate_sync_header (fst x) = 0" "h_msg_type (fst x) \<noteq> MSG_FILE_END"
    by (auto simp: block_fits_def block_ok_def)
  have "w_rx w fd = header_bytes (fst x) @ snd x @ concat (map block_bytes bs) @ header_bytes e @ rest"
    using Cons.prems(3) by (simp add: block_bytes_def [of x])
  from recv_header_calm [OF Cons.prems(1) this ok(1)] obtain w1 where w1:
    "run_state (recv_header fd) w = (Some (fst x), w1)" "talks fd w w1"
    "w_rx w1 fd = snd x @ concat (map block_bytes bs) @ header_bytes e @ rest" "w_script w1 = []" by blast
  have "is_reg_node (fs_get (w_fs w1) (pkey w1 out))" "block_fits (fst x, snd x)"
    using Cons.prems(4) talks_simps(1,7) [OF w1(2)] f by simp_all
  from recv_block_calm [OF w1(4,3) this(2,1)] obtain w2 where w2:
    "run_state (recv_block fd out (fst x)) w1 = (True, w2)" "w_script w2 = []"
    "w_rx w2 fd = concat (map block_bytes bs) @ header_bytes e @ rest"
    "is_reg_node (fs_get (w_fs w2) (pkey w2 out))" by blast
  obtain w' where "recv_blocks fd out ex w2 = ((0, e), w')"
    using Cons.IH [OF w2(2) _ w2(3,4)] Cons.prems(2) by auto
  then have "recv_blocks fd out ex w = ((0, e), w')"
    using w1(1) w2(1) ok(2) by (simp add: recv_blocks.simps [of _ _ _ w])
  then show ?case by blast
qed

section \<open>A transfer\<close>

abbreviation stream_of :: "block list \<Rightarrow> sync_header \<Rightarrow> bytes" where
  "stream_of bs e \<equiv> concat (map block_bytes bs) @ header_bytes e"

text \<open>The blocks and the end of a transfer whose hashes are right for the content \<open>b\<close>.\<close>

definition stream_fits :: "64 word \<Rightarrow> block list \<Rightarrow> sync_header \<Rightarrow> bytes \<Rightarrow> bool" where
  "stream_fits announced bs e b \<longleftrightarrow> list_all block_fits bs \<and> h_msg_type e = MSG_FILE_END \<and>
     validate_sync_header e = 0 \<and> (announced = 0 \<or> announced = hash_buffer_fnv1a b) \<and>
     (h_total_hash e = 0 \<or> h_total_hash e = hash_buffer_fnv1a b)"

lemma recv_blocks_stored:
  assumes "calm w" and tmp: "fs_get (w_fs w) (pkey w tmp) = Some (Reg b0 m0 t0)"
    and fits: "stream_fits a bs e (apply_blocks bs b0)"
    and ex: "ex = a \<or> ex = 0" and rx: "w_rx w fd = stream_of bs e @ rest"
  obtains w1 t where "recv_blocks fd tmp ex w = ((0, e), w1)" "calm w1"
    "fs_same (w_cwd w) {pkey w tmp} w w1"
    "fs_get (w_fs w1) (pkey w1 tmp) = Some (Reg (apply_blocks bs b0) m0 t)"
proof -
  have wf: "fs_wf (w_fs w)" and sc: "w_script w = []" using assms(1) by (simp_all add: calm_def)
  have e: "h_msg_type e = MSG_FILE_END" "validate_sync_header e = 0" "\<forall>x \<in> set bs. block_fits x"
    "ex = 0 \<or> h_total_hash e = 0 \<or> ex = h_total_hash e"
    using fits ex by (auto simp: stream_fits_def list_all_iff)
  have rx': "w_rx w fd = concat (map block_bytes bs) @ header_bytes e @ rest" using rx by simp
  have reg: "is_reg_node (fs_get (w_fs w) (pkey w tmp))" using tmp by simp
  obtain w1 where r: "recv_blocks fd tmp ex w = ((0, e), w1)"
    using recv_blocks_calm [OF e(1,2,4) sc e(3) rx' reg] by blast
  have same: "fs_same (w_cwd w) {pkey w tmp} w w1"
    by (rule fsb.recv_blocks [OF r]) (simp add: pkey_def)
  have cwd: "w_cwd w1 = w_cwd w" using same by (simp add: fs_same_def)
  have "w_cwd w \<noteq> pkey w tmp" using assms(1) tmp by (auto simp: calm_def)
  moreover have "fs_confined (w_cwd w) {pkey w tmp} w w1" using same by (auto simp: fs_same_def fs_confined_def)
  ultimately have "calm w1"
    using calm_kept [OF assms(1) wwf.recv_blocks [OF r TrueI] sub.recv_blocks [OF r TrueI]] by blast
  moreover obtain t where "fs_get (w_fs w1) (pkey w tmp) = Some (Reg (apply_blocks bs b0) m0 t)"
    using recv_blocks_content [OF r tmp _ rx' e(1)] e(3) by (auto simp: block_fits_def)
  ultimately show thesis using that r same cwd by (simp add: pkey_def)
qed

lemma parents_same:
  assumes "parents_there w p" and "fs_same (w_cwd w) S w w'" and "\<And>k. k \<in> S \<Longrightarrow> \<not> is_dir_node (fs_get (w_fs w) k)"
  shows "parents_there w' p"
  unfolding parents_there_def list_all_iff
proof
  fix q assume q: "q \<in> set (dir_prefixes p)"
  then have d: "is_dir_node (fs_get (w_fs w) (pkey w q))" using assms(1) by (simp add: parents_there_def list_all_iff)
  then have "pkey w q \<notin> S" using assms(3) by blast
  then show "is_dir_node (fs_get (w_fs w') (pkey w' q))" using assms(2) d by (simp add: fs_same_def pkey_def)
qed

text \<open>Moving the received file to its place.\<close>

lemma replace_target:
  assumes "calm w" and "parents_there w dst" and "file_place w dst" and fp: "file_place w (dst @ ''.syncing'')"
    and len: "length dst + 8 < MAX_PATH_LEN" and dn: "dst \<noteq> []"
    and tmp: "fs_get (w_fs w) (pkey w (dst @ ''.syncing'')) = Some (Reg b m t)"
  obtains w' m' t' where "run_state (safe_rename_or_copy_unlink (dst @ ''.syncing'') dst) w = (0, w')" "calm w'"
    "fs_get (w_fs w') (pkey w dst) = Some (Reg b m' t')" "w_cwd w' = w_cwd w"
proof -
  have ne: "pkey w (dst @ ''.syncing'') \<noteq> pkey w dst" using tmp_not_dst [OF dn, of w] by auto
  obtain w' where w': "run_state (safe_rename_or_copy_unlink (dst @ ''.syncing'') dst) w = (0, w')" "calm w'"
    "fs_same (w_cwd w) (below (pkey w (dst @ ''.syncing'')) \<union> below (pkey w dst)) w w'"
    by (rule safe_rename_succeeds [OF assms(1,2,3) _ _ _ tmp ne]) (use len fp in \<open>auto simp: file_place_def\<close>)
  have "fs_wf (w_fs w)" using assms(1) by (simp add: calm_def)
  from safe_rename_success(1) [OF w'(1) this ne] tmp w' that show thesis by (auto simp: fs_same_def)
qed

lemma begin_transfer_calm:
  assumes "calm w" and "parents_there w dst" and fd: "file_place w dst" and fp: "file_place w (dst @ ''.syncing'')"
    and len: "length dst + 8 < MAX_PATH_LEN"
    and tmp: "fs_get (w_fs w) (pkey w (dst @ ''.syncing'')) = Some (Reg [] m0 t0)"
    and fits: "stream_fits (h_total_hash h) bs e (apply_blocks bs [])"
    and rx: "w_rx w fd' = stream_of bs e @ rest"
  obtains w' where "run_state (begin_transfer fd' h (dst @ ''.syncing'') dst) w = (0, w')" "w_script w' = []"
proof -
  let ?tmp = "dst @ ''.syncing''" and ?b = "apply_blocks bs []"
  have dst: "dst \<noteq> []" using fd by (simp add: file_place_def)
  from recv_blocks_stored [OF assms(1) tmp fits _ rx] obtain w1 t1 where w1:
    "recv_blocks fd' ?tmp (h_total_hash h) w = ((0, e), w1)" "calm w1" "fs_same (w_cwd w) {pkey w ?tmp} w w1"
    "fs_get (w_fs w1) (pkey w1 ?tmp) = Some (Reg ?b m0 t1)" by blast
  have sc1: "w_script w1 = []" using w1(2) by (simp add: calm_def)
  have pk: "pkey w1 p = pkey w p" for p using w1(3) by (simp add: fs_same_def pkey_def)
  have fsy: "run_state (sys_fsync ?tmp) w1 = (Inr (), w1)"
    by (simp add: sys_fsync_def run_syscall sc1)
  have "fs_find w1 ?tmp = Inr (Reg ?b m0 t1)"
    using w1(4) fp by (auto simp: fs_find_def file_place_def)
  note hash = hash_file_exact [OF sc1 this]
  have fd1: "file_place w1 dst" using same_file_place [OF fd w1(3)] tmp_not_dst [OF dst, of w] by auto
  have fp1: "file_place w1 ?tmp" using fp w1(4) by (simp add: file_place_def)
  have "parents_there w1 dst"
    by (rule parents_same [OF assms(2) w1(3)]) (simp add: tmp)
  from replace_target [OF w1(2) this fd1 fp1 len dst w1(4)] obtain w2 where w2:
    "run_state (safe_rename_or_copy_unlink ?tmp dst) w1 = (0, w2)" "calm w2" by metis
  obtain x w3 where md: "run_state (set_file_metadata dst (h_mode h) (sint (h_mtime h))) w2 = (x, w3)"
    by (rule prod.exhaust)
  have "run_state (begin_transfer fd' h ?tmp dst) w = (0, w3)"
    using w1(1) fsy hash w2(1) md fits
    by (cases "h_total_hash e = 0"; cases "h_total_hash h = 0")
      (simp_all add: begin_transfer_def recv_file_blocks_until_end_def Let_def stream_fits_def)
  moreover have "w_script w3 = []"
    using w2(2) script_stays_empty [OF _ sur.runD [OF suf.set_metadata [OF TrueI] md]] by (simp add: calm_def)
  ultimately show thesis using that by blast
qed

section \<open>Announcing a file\<close>

lemma version_keys:
  assumes "root \<noteq> []" and "sanitize_rel_path rel = 0" and "v = stamped_file ''.versions'' w root rel"
  shows "\<exists>ks. pkey w v = path_key (w_cwd w) root @ ''.versions'' # ks"
    and "\<exists>ks. pkey w (v @ ''.syncing'') = path_key (w_cwd w) root @ ''.versions'' # ks"
proof -
  have nd: "''..'' \<notin> set (split_on slash rel)" using assms(2) by (rule sanitize_no_dotdot)
  show "\<exists>ks. pkey w v = path_key (w_cwd w) root @ ''.versions'' # ks"
    unfolding assms(3) pkey_def by (rule key_stamped [OF assms(1) _ nd]) simp
  show "\<exists>ks. pkey w (v @ ''.syncing'') = path_key (w_cwd w) root @ ''.versions'' # ks"
    unfolding assms(3) stamped_suffix [OF assms(2)] pkey_def
    by (rule key_stamped [OF assms(1) _ dotdot_suffix [OF nd]]) simp
qed

lemma parents_clear_confined:
  assumes "parents_clear w p" and "fs_confined (w_cwd w) {} w w'"
  shows "parents_clear w' p"
  unfolding parents_clear_def list_all_iff confined_pkey [OF assms(2)]
proof
  fix q assume "q \<in> set (dir_prefixes p)"
  then have "fs_get (w_fs w) (pkey w q) = None \<or> is_dir_node (fs_get (w_fs w) (pkey w q))"
    using assms(1) by (simp add: parents_clear_def list_all_iff)
  moreover have "fs_get (w_fs w') (pkey w q) = fs_get (w_fs w) (pkey w q) \<or>
      is_dir_node (fs_get (w_fs w') (pkey w q))" using assms(2) by (auto simp: fs_confined_def)
  ultimately show "fs_get (w_fs w') (pkey w q) = None \<or> is_dir_node (fs_get (w_fs w') (pkey w q))" by auto
qed

text \<open>Making the directories of the file leaves the room.\<close>

lemma room_kept:
  assumes room: "room_for root rel w" and san: "sanitize_rel_path rel = 0" and "calm w'"
    and conf: "fs_confined (w_cwd w) {} w w'" and clock: "clock_kept w w'"
    and same: "fs_same (w_cwd w) (parent_keys w (current_file root rel)) w w'"
  shows "room_for root rel w'"
proof -
  let ?cur = "current_file root rel" and ?v = "stamped_file ''.versions'' w root rel"
  have root: "root \<noteq> []" and rep: "replaceable w ?cur" using room by (simp_all add: room_for_def)
  note own = replaceable_own [OF rep]
  have rep': "replaceable w' ?cur"
    using rep same_file_place [OF _ same] own parents_clear_confined [OF _ conf]
    by (simp add: replaceable_def)
  have v: "stamped_file ''.versions'' w' root rel = ?v" using clock by (simp add: stamped_file_def clock_kept_def)
  have kc: "pkey w ?cur = path_key (w_cwd w) root @ ''current'' # plain rel"
    using key_current [OF root san] by (simp add: pkey_def)
  have pre: "prefix k (pkey w ?cur)" if "k \<in> parent_keys w ?cur" for k
    using that rep dir_prefix_above by (auto simp: replaceable_def pkey_def)
  have away: "k \<notin> parent_keys w ?cur" if "k = path_key (w_cwd w) root @ ''.versions'' # ks" for k ks
    using pre [of k] by (auto simp: that kc)
  have pk: "pkey w' p = pkey w p" for p by (rule confined_pkey [OF conf])
  have "version_ready w' root rel"
  proof (cases "fs_get (w_fs w') (pkey w' ?cur) = None")
    case True
    then show ?thesis by (simp add: version_ready_def)
  next
    case False
    then have "fs_get (w_fs w) (pkey w ?cur) \<noteq> None"
      using same own(1) by (simp add: pk) (simp add: fs_same_def)
    then have V: "length (stamp_text (w_localtime w (w_time w))) < 64" "replaceable w ?v"
      using room by (simp_all add: room_for_def version_ready_def)
    obtain ks ls where ks: "pkey w ?v = path_key (w_cwd w) root @ ''.versions'' # ks"
      "pkey w (?v @ ''.syncing'') = path_key (w_cwd w) root @ ''.versions'' # ls"
      using version_keys [OF root san refl, of w] by blast
    have "replaceable w' ?v"
      using V(2) same_file_place [OF _ same] away [OF ks(1)] away [OF ks(2)] parents_clear_confined [OF _ conf]
      by (simp add: replaceable_def)
    then show ?thesis using V(1) v clock by (simp add: version_ready_def clock_kept_def)
  qed
  then show ?thesis using assms(3) root rep' by (simp add: room_for_def)
qed

lemma current_and_tmp_fits:
  "sanitize_rel_path rel = 0 \<Longrightarrow> length (current_file root rel) + 8 < MAX_PATH_LEN \<Longrightarrow>
   current_and_tmp root rel = Some (current_file root rel, current_file root rel @ ''.syncing'')"
  using joined_length [of "joined root ''current''" rel] joined_sub_nonempty [of "''current''" root]
  by (simp add: current_and_tmp_def current_path_def join_path_fits joined_nonempty snprintf_s_def)

text \<open>The directories on the way to the current file survive a backup.\<close>

lemma parents_after_backup:
  assumes "parents_there w (current_file root rel)" and "run_state (backup_old_version root rel) w = (b, w')"
    and root: "root \<noteq> []" and san: "sanitize_rel_path rel = 0"
    and "''..'' \<notin> set (split_on slash (current_file root rel))"
  shows "parents_there w' (current_file root rel)"
  unfolding parents_there_def list_all_iff
proof
  let ?cur = "current_file root rel"
  fix q assume q: "q \<in> set (dir_prefixes ?cur)"
  have conf: "fs_confined (w_cwd w) (versions_area (w_cwd w) root) w w'" by (rule backup_only_versions [OF assms(2)])
  have "prefix (pkey w q) (pkey w ?cur)" using dir_prefix_above [OF assms(5) q] by (simp add: pkey_def)
  then have "pkey w q \<notin> versions_area (w_cwd w) root"
    using current_not_in_versions [OF root san, of "w_cwd w"] by (auto simp: versions_area_def pkey_def)
  moreover have "is_dir_node (fs_get (w_fs w) (pkey w q))"
    using assms(1) q by (simp add: parents_there_def list_all_iff)
  ultimately show "is_dir_node (fs_get (w_fs w') (pkey w' q))"
    using conf confined_pkey [OF conf, of q] by (auto simp: fs_confined_def)
qed

abbreviation ack_header :: "64 word \<Rightarrow> sync_header" where
  "ack_header off \<equiv> (init_sync_header MSG_ACK)\<lparr>h_offset := off\<rparr>"

lemma accept_calm:
  assumes "w_script w = []"
  obtains w' where "run_state (accept_with fd off) w = (0, w')" "talks fd w w'" "w_script w' = []"
    "w_tx w' fd = w_tx w fd @ header_bytes (ack_header off)"
proof -
  obtain r w' where s: "run_state (send_ack fd off) w = (r, w')" by (rule prod.exhaust)
  have "w_tx w' fd = w_tx w fd @ header_bytes (ack_header off)"
    using send_header_result(4) [OF s [unfolded send_ack_def] benign_retryable [OF calm_benign [OF assms]]] by simp
  moreover note t = tkr.runD [OF send_ack_talks s]
  moreover have "run_state (accept_with fd off) w = (0, w')" using s by (simp add: accept_with_def)
  ultimately show thesis using that talks_simps(15) [OF t assms] by blast
qed

lemma opened_tmp:
  assumes "calm w" and "parents_there w dst" and fp: "file_place w (dst @ ''.syncing'')" and fd: "file_place w dst"
  obtains w' m t where "run_state (sys_open_wr (dst @ ''.syncing'') True mo) w = (Inr (), w')" "calm w'"
    "parents_there w' dst" "file_place w' dst" "file_place w' (dst @ ''.syncing'')"
    "fs_get (w_fs w') (pkey w' (dst @ ''.syncing'')) = Some (Reg [] m t)"
proof -
  let ?tmp = "dst @ ''.syncing''"
  have pt: "parents_there w ?tmp" using assms(2) by (simp add: parents_there_def)
  obtain w' where o: "run_state (sys_open_wr ?tmp True mo) w = (Inr (), w')" by (rule open_wr_run [OF assms(1) pt fp])
  note e = open_wr_Inr [OF o]
  have same: "fs_same (w_cwd w) {pkey w ?tmp} w w'" using e by (simp add: fs_same_def)
  have pk: "pkey w' p = pkey w p" for p using e by (simp add: pkey_def)
  obtain m t where g: "fs_get (w_fs w') (pkey w ?tmp) = Some (Reg [] m t)" using e by auto
  have "parents_there w' dst" by (rule parents_same [OF assms(2) same]) (use file_place_not_dir [OF fp] in auto)
  moreover have "file_place w' dst"
    using same_file_place [OF fd same] tmp_not_dst [of dst w] fd by (auto simp: file_place_def)
  moreover have "file_place w' ?tmp" using fp g pk by (simp add: file_place_def)
  ultimately show thesis using that [OF o calm_opened [OF assms(1) fp o]] g pk by simp
qed

lemma file_begin_calm:
  assumes room: "room_for root rel w" and san: "sanitize_rel_path rel = 0" and isf: "\<not> S_ISDIR (h_mode h)"
    and fits: "stream_fits (h_total_hash h) bs e (apply_blocks bs [])" and rx: "w_rx w fd = stream_of bs e @ rest"
  obtains w' where "run_state (server_handle_file_begin fd h root rel) w = (0, w')" "w_script w' = []"
    "w_tx w' fd = w_tx w fd @ header_bytes (ack_header (h_file_size h))"
proof -
  let ?cur = "current_file root rel" and ?mo = "if h_mode h \<noteq> 0 then h_mode h else 0x1A4"
  have R: "calm w" "root \<noteq> []" "replaceable w ?cur" using room by (simp_all add: room_for_def)
  have cur: "length ?cur + 8 < MAX_PATH_LEN" "''..'' \<notin> set (split_on slash ?cur)" "parents_clear w ?cur" "?cur \<noteq> []"
    using R(3) by (simp_all add: replaceable_def file_place_def)
  have len: "length ?cur < MAX_PATH_LEN" using cur(1) by simp
  from ensure_parent_succeeds [OF R(1) cur(3) len cur(4)] obtain w1 where w1:
    "run_state (ensure_parent_dir_exists ?cur) w = (0, w1)" "calm w1" "parents_there w1 ?cur"
    "fs_confined (w_cwd w) {} w w1" "fs_same (w_cwd w) (parent_keys w ?cur) w w1" by blast
  note s1 = ssr.runD [OF ssf.ensure_parent [OF TrueI] w1(1)] and k1 = ckr.runD [OF ckf.ensure_parent [OF TrueI] w1(1)]
  have room1: "room_for root rel w1" by (rule room_kept [OF room san w1(2,4) k1 w1(5)])
  then have "replaceable w1 ?cur" "version_ready w1 root rel" by (simp_all add: room_for_def)
  from backup_succeeds [OF w1(2) R(2) san this] obtain w2 where w2:
    "run_state (backup_old_version root rel) w1 = (0, w2)" "calm w2" "replaceable w2 ?cur" by blast
  have "state_io_rel streams_same (backup_old_version root rel)" by (rule ssf.backup_version) simp
  then have s2: "streams_same w1 w2" using w2(1) by (rule ssr.runD)
  note p2 = parents_after_backup [OF w1(3) w2(1) R(2) san cur(2)]
  have fp2: "file_place w2 ?cur" "file_place w2 (?cur @ ''.syncing'')" using w2(3) by (simp_all add: replaceable_def)
  obtain w3 m t where w3: "run_state (sys_open_wr (?cur @ ''.syncing'') True ?mo) w2 = (Inr (), w3)" "calm w3"
    "parents_there w3 ?cur" "file_place w3 ?cur" "file_place w3 (?cur @ ''.syncing'')"
    "fs_get (w_fs w3) (pkey w3 (?cur @ ''.syncing'')) = Some (Reg [] m t)"
    by (rule opened_tmp [OF w2(2) p2 fp2(2,1)])
  note s3 = ssr.runD [OF ssf.open_wr [OF TrueI] w3(1)]
  have st: "w_rx w3 = w_rx w" "w_tx w3 = w_tx w" using s1 s2 s3 by (simp_all add: streams_same_def)
  have rx3: "w_rx w3 fd = stream_of bs e @ rest" using rx st by simp
  obtain w4 where w4: "run_state (begin_transfer fd h (?cur @ ''.syncing'') ?cur) w3 = (0, w4)" "w_script w4 = []"
    by (rule begin_transfer_calm [OF w3(2-5) cur(1) w3(6) fits rx3])
  have tx4: "w_tx w4 = w_tx w" using txr.runD [OF txr.begin_kept [OF TrueI TrueI] w4(1)] st by (simp add: tx_same_def)
  obtain w5 where w5: "run_state (accept_with fd (h_file_size h)) w4 = (0, w5)" "w_script w5 = []"
    "w_tx w5 fd = w_tx w4 fd @ header_bytes (ack_header (h_file_size h))"
    using accept_calm [OF w4(2)] by blast
  have "run_state (server_handle_file_begin fd h root rel) w = (0, w5)"
    using current_and_tmp_fits [OF san cur(1)] isf w1(1) w2(1) w3(1) w4(1) w5(1)
    by (simp add: server_handle_file_begin_def)
  then show thesis using that w5 tx4 by simp
qed

section \<open>A connection\<close>

lemma room_same:
  assumes "w_fs w' = w_fs w" and "w_cwd w' = w_cwd w" and "w_script w' = w_script w" and "w_time w' = w_time w"
    and "w_localtime w' = w_localtime w"
  shows "room_for root rel w' = room_for root rel w"
  by (simp add: room_for_def calm_def replaceable_def version_ready_def file_place_def parents_clear_def
      stamped_file_def pkey_def assms)

lemma connection_file_begin:
  assumes room: "room_for root rel w" and san: "sanitize_rel_path rel = 0" and cs: "is_cstr rel"
    and h: "h_msg_type h = MSG_FILE_BEGIN" "validate_sync_header h = 0" "unat (h_path_len h) = length rel"
      "\<not> S_ISDIR (h_mode h)" "length rel \<le> MAX_NET_PATH"
    and fits: "stream_fits (h_total_hash h) bs e (apply_blocks bs [])"
    and rx: "w_rx w fd = header_bytes h @ rel @ stream_of bs e @ rest"
  obtains w' where "run_state (server_handle_connection fd root lp) w = (0, w')"
    "w_tx w' fd = w_tx w fd @ header_bytes (ack_header (h_file_size h))"
proof -
  have sc: "w_script w = []" using room by (simp add: room_for_def calm_def)
  obtain w1 where w1: "run_state (recv_header fd) w = (Some h, w1)" "talks fd w w1"
    "w_rx w1 fd = rel @ stream_of bs e @ rest" "w_script w1 = []" "w_tx w1 fd = w_tx w fd"
    by (rule recv_header_calm [OF sc rx h(2)])
  have ne: "rel \<noteq> []" using san by (auto simp: sanitize_rel_path_def)
  then have pl: "h_path_len h \<noteq> 0" using h(3) by auto
  obtain x w2 where p: "run_state (recv_path fd (MAX_NET_PATH + 1) (length rel)) w1 = (x, w2)" by (rule prod.exhaust)
  have x: "x = Some rel" "w_rx w2 fd = stream_of bs e @ rest"
    using recv_path_result(3) [OF p calm_benign [OF w1(4)] _ h(5) w1(3)] h(5) by simp_all
  note t2 = tkr.runD [OF recv_path_talks p]
  note ts = talks_simps [OF tkr.trans [OF w1(2) t2]]
  have tx2: "w_tx w2 fd = w_tx w fd" using recv_path_result(1) [OF p] w1(5) by simp
  have room2: "room_for root rel w2"
    using room room_same [of w2 w] ts(1,2,5,6) talks_simps(15) [OF t2 w1(4)] sc by simp
  obtain w3 where w3: "run_state (server_handle_file_begin fd h root rel) w2 = (0, w3)"
    "w_tx w3 fd = w_tx w2 fd @ header_bytes (ack_header (h_file_size h))"
    by (rule file_begin_calm [OF room2 san h(4) fits x(2)])
  obtain u w4 where lg: "run_state (server_log lp LOG_INFO
      (''server: msg='' @ msg_type_to_string (h_msg_type h) @ '' path='' @ cstr rel @ '' rc='' @ show_int 0)) w3 = (u, w4)"
    by (rule prod.exhaust)
  have "w_tx w4 = w_tx w3" using lgr.runD [OF server_log_logs lg] by (simp add: logs_only_def)
  moreover have "run_state (connection_round fd root lp [] h) w1 = (Inl 0, w4)"
    using h pl p x(1) w3(1) lg cs by (simp add: connection_round_def handle_message_def)
  then have "run_state (server_handle_connection fd root lp) w = (0, w4)"
    using w1(1) by (simp add: server_handle_connection_def connection.simps [of _ _ _ _ w])
  ultimately show thesis using that w3(2) tx2 by simp
qed

end
