(* ===== verification/RemoteSuccess.thy ===== *)
theory RemoteSuccess
  imports ServerSuccess
begin

text \<open>
  A transfer of a small file succeeds: the request of a client whose calls do not fail, answered by a
  server in a calm world with room for the file.
\<close>

section \<open>Sending\<close>

lemma fs_find_same:
  assumes "w_fs w' = w_fs w" and "w_cwd w' = w_cwd w"
  shows "fs_find w' p = fs_find w p"
proof -
  have "pkey w' p = pkey w p" using assms by (simp add: pkey_def)
  with assms show ?thesis by (simp add: fs_find_def)
qed

lemma sent_find: "sent fd x w w' \<Longrightarrow> fs_find w' p = fs_find w p"
  by (rule fs_find_same) (simp_all add: sent_def)

lemma send_header_calm:
  assumes "w_script w = []"
  obtains w' where "run_state (send_header fd h) w = (0, w')" "w_script w' = []" "sent fd (header_bytes h) w w'"
proof -
  obtain r w' where r: "run_state (send_header fd h) w = (r, w')" by (rule prod.exhaust)
  have "r = 0" using send_header_result(4) [OF r benign_retryable [OF calm_benign [OF assms]]] by simp
  with r have "run_state (send_header fd h) w = (0, w')" by simp
  then show thesis
    using that sent_header talks_simps(15) [OF tkr.runD [OF send_header_talks r] assms] by blast
qed

lemma send_path_calm:
  assumes "w_script w = []" and "length p \<le> MAX_NET_PATH"
  obtains w' where "run_state (send_path fd p) w = (0, w')" "w_script w' = []" "sent fd p w w'"
proof -
  obtain r w' where r: "run_state (send_path fd p) w = (r, w')" by (rule prod.exhaust)
  have "r = 0" using send_path_result(3) [OF r benign_retryable [OF calm_benign [OF assms(1)]] assms(2)] .
  with r have "run_state (send_path fd p) w = (0, w')" by simp
  then show thesis
    using that sent_path talks_simps(15) [OF tkr.runD [OF send_path_talks r] assms(1)] by blast
qed

lemma send_block_calm:
  assumes "w_script w = []"
  obtains w' where "run_state (send_file_block fd b off sz hash mode mtime) w = (0, w')" "w_script w' = []"
    "sent fd (block_bytes (block_header b off sz hash mode mtime, b)) w w'"
proof -
  let ?h = "block_header b off sz hash mode mtime"
  obtain w1 where s: "run_state (send_header fd ?h) w = (0, w1)" "w_script w1 = []"
    using send_header_calm [OF assms] by blast
  obtain r w' where r: "run_state (write_full fd b) w1 = (r, w')" by (rule prod.exhaust)
  have "r = int (length b)" using write_full_result(4) [OF r benign_retryable [OF calm_benign [OF s(2)]]] by simp
  with r s(1) have "run_state (send_file_block fd b off sz hash mode mtime) w = (0, w')"
    by (simp add: send_file_block_def)
  then show thesis
    using that sent_block talks_simps(15) [OF tkr.runD [OF write_full_talks r] s(2)] by blast
qed

lemma read_whole_calm:
  assumes "w_script w = []" and "fs_get (w_fs w) (pkey w p) = Some (Reg s m t)" and "s \<noteq> []"
  shows "run_state (file_read_full p (length s)) w = (Some s, w)"
proof -
  have r: "run_state (sys_fread p 0 (length s)) w = (Inr s, w)"
    using assms by (simp add: sys_fread_def run_syscall transfer_limit.simps max_def)
  show ?thesis
    using fread_loop_step [OF _ r, of "[]"] assms(3) fread_loop.simps [of p "length s" 0 s w]
    by (simp add: file_read_full_def)
qed

lemma small_body_calm:
  assumes "w_script w = []" and "fs_get (w_fs w) (pkey w (t_src_path task)) = Some (Reg s m t)"
    and "unat (t_file_size task) = length s"
  obtains w' where "run_state (send_small_body fd task hash) w = (0, w')" "w_script w' = []"
    "sent fd (concat (map block_bytes (small_blocks task hash s))) w w'"
proof (cases "s = []")
  case True
  then have "t_file_size task = 0" using assms(3) by (simp add: unat_eq_0)
  then have "run_state (send_small_body fd task hash) w = (0, w)" "small_blocks task hash s = []"
    using True assms(1,3) by (simp_all add: send_small_body_def small_blocks_def sys_malloc_def run_syscall)
  then show thesis using that [of w] assms(1) sent_quiet [OF quiet_refl] by simp
next
  case False
  let ?d = "take (unat (word_of_nat (length s) :: 32 word)) s"
  have nz: "t_file_size task \<noteq> 0" "length s \<noteq> 0" using False assms(3) by auto
  obtain w' where w': "run_state (send_file_block fd ?d 0 (t_file_size task) hash (t_mode task) (t_mtime task)) w = (0, w')"
    "w_script w' = []"
    "sent fd (block_bytes (block_header ?d 0 (t_file_size task) hash (t_mode task) (t_mtime task), ?d)) w w'"
    using send_block_calm [OF assms(1)] by blast
  have "run_state (send_small_body fd task hash) w = (0, w')"
    using read_whole_calm [OF assms(1,2) False] w'(1) assms(1,3) nz
    by (simp add: send_small_body_def Let_def sys_malloc_def run_syscall)
  moreover have "small_blocks task hash s =
      [(block_header ?d 0 (t_file_size task) hash (t_mode task) (t_mtime task), ?d)]"
    using nz assms(3) by (simp add: small_blocks_def Let_def)
  ultimately show thesis using that w'(2,3) by simp
qed

lemma wait_for_ack_calm:
  assumes "w_script w = []" and "w_rx w fd = header_bytes (ack_header off) @ rest"
  obtains w' where "run_state (wait_for_ack fd) w = (0, w')" "w_script w' = []" "w_tx w' fd = w_tx w fd"
proof -
  have "validate_sync_header (ack_header off) = 0"
    by (simp add: validate_sync_header_def init_sync_header_def zero_header_def)
  from recv_header_calm [OF assms this] obtain w1 where
    "run_state (recv_header fd) w = (Some (ack_header off), w1)" "w_script w1 = []" "w_tx w1 fd = w_tx w fd" by blast
  then show thesis using that [of w1] by (simp add: wait_for_ack_def init_sync_header_def)
qed

lemma with_socket_calm:
  "w_script w = [] \<Longrightarrow> inet_pton_ok (cc_server_ip cfg) \<Longrightarrow> 0 \<le> sock \<Longrightarrow>
   run_state (with_socket sock cfg body) w = run_state (body sock) w"
  by (simp add: with_socket_def create_client_socket_def sys_socket_def sys_connect_def run_syscall)

lemma and_then_run:
  "run_state m w = (0, w1) \<Longrightarrow> run_state (and_then m n) w = run_state n w1"
  by (simp add: and_then_def)

lemma small_file_sent:
  assumes sc: "w_script w = []" and src: "fs_find w (t_src_path task) = Inr (Reg s ms ts)"
    and size: "unat (t_file_size task) = length s" and ip: "inet_pton_ok (cc_server_ip cfg)" "0 \<le> sock"
    and lfd: "lfd \<noteq> sock" and rel: "length (t_rel_path task) \<le> MAX_NET_PATH"
    and rx: "w_rx w sock = header_bytes (ack_header off) @ rest"
  shows "\<exists>w'. run_state (send_remote_small_file sock cfg task lfd wid) w = (0, w') \<and>
    w_tx w' sock = w_tx w sock @ small_transcript task (hash_buffer_fnv1a s) s"
proof -
  let ?hash = "hash_buffer_fnv1a s" and ?src = "t_src_path task"
  note hash = hash_file_exact [OF sc src]
  obtain a where a: "run_state (send_header sock (begin_header task ?hash)) w = (0, a)" "w_script a = []"
    "sent sock (header_bytes (begin_header task ?hash)) w a" by (rule send_header_calm [OF sc])
  obtain b where b: "run_state (send_path sock (t_rel_path task)) a = (0, b)" "w_script b = []"
    "sent sock (t_rel_path task) a b" by (rule send_path_calm [OF a(2) rel])
  note sb = sent_trans [OF a(3) b(3)]
  have fsb: "fs_find b ?src = Inr (Reg s ms ts)" using sent_find [OF sb] src by simp
  have op: "run_state (do { i \<leftarrow> sys_open_rd ?src; ret (if isl i then - 1 else 0) } :: int prog) b = (0, b)"
    using open_rd_run [OF b(2) fsb] by simp
  have g: "fs_get (w_fs b) (pkey b ?src) = Some (Reg s ms ts)" using fs_find_Inr [OF fsb] by simp
  obtain d where d: "run_state (send_small_body sock task ?hash) b = (0, d)" "w_script d = []"
    "sent sock (concat (map block_bytes (small_blocks task ?hash s))) b d"
    by (rule small_body_calm [OF b(2) g size])
  obtain e where e: "run_state (send_file_end sock (t_file_size task) ?hash (t_mode task) (t_mtime task)) d = (0, e)"
    "w_script e = []" "sent sock (header_bytes (end_header (t_file_size task) ?hash (t_mode task) (t_mtime task))) d e"
    unfolding send_file_end_def by (rule send_header_calm [OF d(2)])
  have st: "sent sock (small_transcript task ?hash s) w e"
    using sent_trans [OF sent_trans [OF sb d(3)] e(3)] by (simp add: small_transcript_def)
  have "w_rx e sock = header_bytes (ack_header off) @ rest" using st rx by (simp add: sent_def)
  from wait_for_ack_calm [OF e(2) this] obtain f where f: "run_state (wait_for_ack sock) e = (0, f)"
    "w_tx f sock = w_tx e sock" by blast
  obtain u w' where lg: "run_state (log_message lfd LOG_INFO (success_text wid task ''small-file'' ?hash)) f = (u, w')"
    by (rule prod.exhaust)
  have "run_state (send_remote_small_file sock cfg task lfd wid) w = (0, w')"
    unfolding send_remote_small_file_def with_socket_calm [OF sc ip]
    using hash lg
    by (simp add: and_then_run [OF a(1)] and_then_run [OF b(1)] and_then_run [OF op] and_then_run [OF d(1)]
        and_then_run [OF e(1)] f(1))
  moreover have "w_tx w' sock = w_tx f sock"
    using talks_elsewhere [OF tkr.runD [OF log_message_talks lg] lfd] by (simp add: sent_def)
  ultimately show ?thesis using st f(2) by (auto simp: sent_def)
qed

section \<open>The stream of a small file fits\<close>

lemma small_stream_fits:
  assumes "unat (t_file_size task) = length s" and "length s \<le> MAX_BLOCK"
  shows "stream_fits (hash_buffer_fnv1a s) (small_blocks task (hash_buffer_fnv1a s) s)
    (end_header (t_file_size task) (hash_buffer_fnv1a s) (t_mode task) (t_mtime task)) s"
proof -
  have l: "length s < 2 ^ 32" using assms(2) by simp
  have u: "unat (word_of_nat (length s) :: 32 word) = length s" using l by (simp add: unat_of_nat)
  have nz: "s \<noteq> []" if "t_file_size task \<noteq> 0" using that assms(1) by (auto simp: unat_eq_0)
  note ok = small_blocks_ok(1) [OF assms(1) [symmetric] l, of "hash_buffer_fnv1a s"]
  have "list_all block_fits (small_blocks task (hash_buffer_fnv1a s) s)"
    using ok u assms nz by (auto simp: small_blocks_def block_fits_def block_header_def Let_def)
  then show ?thesis
    by (simp add: stream_fits_def end_header_def validate_sync_header_def init_sync_header_def zero_header_def)
qed

lemma small_file_succeeds:
  assumes sc: "w_script wc = []" and src: "fs_find wc (t_src_path task) = Inr (Reg s ms ts)"
    and size: "unat (t_file_size task) = length s" "length s \<le> MAX_BLOCK" and isf: "\<not> S_ISDIR (t_mode task)"
    and ip: "inet_pton_ok (cc_server_ip cfg)" "0 \<le> sock" and lfd: "lfd \<noteq> sock"
    and rel: "sanitize_rel_path (t_rel_path task) = 0" "is_cstr (t_rel_path task)" "length (t_rel_path task) \<le> MAX_NET_PATH"
    and room: "room_for root (t_rel_path task) ws" and tx: "w_tx wc sock = []" "w_tx ws fd = []"
    and there: "w_rx ws fd = small_transcript task (hash_buffer_fnv1a s) s"
    and reply: "w_rx wc sock = header_bytes (ack_header (t_file_size task))"
  shows "\<exists>wc' ws'. run_state (send_remote_small_file sock cfg task lfd wid) wc = (0, wc') \<and>
    run_state (server_handle_connection fd root lp) ws = (0, ws') \<and>
    w_tx wc' sock = w_rx ws fd \<and> w_tx ws' fd = w_rx wc sock"
proof -
  let ?hash = "hash_buffer_fnv1a s"
  let ?h = "begin_header task ?hash"
  let ?e = "end_header (t_file_size task) ?hash (t_mode task) (t_mtime task)"
  obtain wc' where c: "run_state (send_remote_small_file sock cfg task lfd wid) wc = (0, wc')"
    "w_tx wc' sock = small_transcript task ?hash s"
    using small_file_sent [OF sc src size(1) ip lfd rel(3), of "t_file_size task" "[]"] reply tx(1) by auto
  note bh = begin_header_simps [OF rel(3), of ?hash]
  have valid: "validate_sync_header ?h = 0"
    using bh(1) rel(3) by (simp add: validate_sync_header_def begin_header_def path_header_def init_sync_header_def zero_header_def)
  have th: "h_total_hash ?h = ?hash" "h_file_size ?h = t_file_size task" by (simp_all add: begin_header_def)
  have len: "length s < 2 ^ 32" using size(2) by simp
  have fits: "stream_fits (h_total_hash ?h) (small_blocks task ?hash s) ?e (apply_blocks (small_blocks task ?hash s) [])"
    using small_stream_fits [OF size] small_blocks_ok(2) [OF size(1) [symmetric] len] th by simp
  have rx: "w_rx ws fd = header_bytes ?h @ t_rel_path task @ stream_of (small_blocks task ?hash s) ?e @ []"
    using there by (simp add: small_transcript_def)
  have isf': "\<not> S_ISDIR (h_mode ?h)" using isf bh(3) by simp
  obtain ws' where "run_state (server_handle_connection fd root lp) ws = (0, ws')"
    "w_tx ws' fd = w_tx ws fd @ header_bytes (ack_header (h_file_size ?h))"
    by (rule connection_file_begin [OF room rel(1,2) bh(2) valid bh(1) isf' rel(3) fits rx])
  then show ?thesis using c there reply tx(2) th by auto
qed

end
