(* ===== verification/Guard.thy ===== *)
theory Guard
  imports Server DirLaws
begin

text \<open>
  Where the programs may write: a worker in local mode and the server change nothing outside the
  places of their backup root, and make no directories but those on the way to these places.
\<close>

section \<open>The relation\<close>

text \<open>Outside \<open>S\<close> nothing that exists changes, and nothing appears but directories at the places \<open>D\<close>.\<close>

definition fs_guarded :: "fkey \<Rightarrow> fkey set \<Rightarrow> fkey set \<Rightarrow> world \<Rightarrow> world \<Rightarrow> bool" where
  "fs_guarded c S D w w' \<longleftrightarrow> (w_cwd w = c \<longrightarrow> w_cwd w' = c \<and>
     (\<forall>k. k \<notin> S \<longrightarrow> fs_get (w_fs w') k = fs_get (w_fs w) k \<or>
        k \<in> D \<and> fs_get (w_fs w) k = None \<and> is_dir_node (fs_get (w_fs w') k)))"

lemma fs_guarded_trans: "fs_guarded c S D w v \<Longrightarrow> fs_guarded c S D v u \<Longrightarrow> fs_guarded c S D w u"
  unfolding fs_guarded_def by (metis is_dir_node_simps(1))

interpretation gdr: world_relation "fs_guarded c S D" for c S D
  by unfold_locales (simp add: fs_guarded_def, erule (1) fs_guarded_trans, simp add: fs_guarded_def)

lemma fs_same_guarded: "state_io_rel (fs_same c S) m \<Longrightarrow> state_io_rel (fs_guarded c S D) m"
  by (auto simp: state_io_rel_def fs_same_def fs_guarded_def)

lemma guarded_mkdir: "path_key c p \<in> S \<union> D \<Longrightarrow> state_io_rel (fs_guarded c S D) (sys_mkdir p m)"
  unfolding sys_mkdir_def
  by (auto intro!: gdr.syscall simp: do_mkdir_def fs_guarded_def pkey_def split: sum.splits)

section \<open>The directories on the way to a path\<close>

definition way_keys :: "fkey \<Rightarrow> path \<Rightarrow> fkey set" where
  "way_keys c p = insert [] (path_key c ` set (dir_prefixes p))"

lemma strip_way:
  assumes "q \<in> set (all_dirs (strip_trailing p))"
  shows "path_key c q \<in> insert (path_key c p) (way_keys c p)"
proof -
  have "q \<in> set (all_dirs p)" using assms strip_all_dirs by blast
  then show ?thesis by (auto simp: all_dirs_def way_keys_def)
qed

lemma guarded_dir:
  assumes "path_key c p \<in> S \<union> D" and "way_keys c p \<subseteq> S \<union> D"
  shows "state_io_rel (fs_guarded c S D) (ensure_dir_exists p)"
proof -
  have "path_key c q \<in> S \<union> D" if "q \<in> set (all_dirs (strip_trailing p))" for q
    using strip_way [OF that, of c] assms by (auto simp: subset_iff)
  then have "state_io_rel (fs_guarded c S D) (mkdir_each (all_dirs (strip_trailing p)))"
    by (intro gdr.each_dir guarded_mkdir)
  then show ?thesis
    unfolding ensure_dir_exists_def Let_def all_dirs_def by (intro gdr.rules)
qed

lemma guarded_parent:
  assumes "way_keys c p \<subseteq> S \<union> D"
  shows "state_io_rel (fs_guarded c S D) (ensure_parent_dir_exists p)"
proof (cases "strrchr p slash")
  case None
  then show ?thesis unfolding ensure_parent_dir_exists_def by (auto intro!: gdr.rules)
next
  case (Some i)
  then have "p = take i p @ slash # drop (Suc i) p" using strrchr_Some [of p slash i] id_take_nth_drop [of i p] by simp
  then obtain t where p: "p = take i p @ slash # t" by blast
  have "state_io_rel (fs_guarded c S D) (ensure_dir_exists (if i = 0 then take 1 p else take i p))"
  proof (cases "i = 0")
    case True
    then have "take 1 p = [slash]" using p by (cases p) auto
    moreover have "path_key c [slash] = []" "dir_prefixes [slash] = []"
      by (simp_all add: path_key_def push_comp.simps dir_prefixes_def)
    ultimately show ?thesis using True assms by (intro guarded_dir) (auto simp: way_keys_def)
  next
    case False
    then have ne: "take i p \<noteq> []" using p by auto
    have mem: "take i p \<in> set (dir_prefixes p)" using p ne by (auto simp: dir_prefix_iff)
    have "set (dir_prefixes (take i p)) \<subseteq> set (dir_prefixes p)"
    proof
      fix q assume "q \<in> set (dir_prefixes (take i p))"
      then obtain r where "take i p = q @ slash # r" "q \<noteq> []" by (auto simp: dir_prefix_iff)
      then have "p = q @ slash # (r @ slash # t)" using p by simp
      then show "q \<in> set (dir_prefixes p)" using \<open>q \<noteq> []\<close> by (auto simp: dir_prefix_iff)
    qed
    then show ?thesis using False assms mem by (intro guarded_dir) (auto simp: way_keys_def)
  qed
  then show ?thesis unfolding ensure_parent_dir_exists_def by (auto intro!: gdr.rules simp: Some)
qed

text \<open>The paths a program may write when \<open>S\<close> and \<open>D\<close> are given.\<close>

definition guarded_path :: "fkey \<Rightarrow> fkey set \<Rightarrow> fkey set \<Rightarrow> path \<Rightarrow> bool" where
  "guarded_path c S D p \<longleftrightarrow> (\<forall>z. path_key c p @ z \<in> S) \<and> way_keys c p \<subseteq> S \<union> D"

lemma guarded_self: "guarded_path c S D p \<Longrightarrow> path_key c p \<in> S"
  unfolding guarded_path_def by (metis append_Nil2)

lemma guarded_mutators:
  assumes "guarded_path c S D p"
  shows "state_io_rel (fs_guarded c S D) (sys_open_wr p tr m)"
    and "state_io_rel (fs_guarded c S D) (sys_fwrite p pos d)"
    and "state_io_rel (fs_guarded c S D) (sys_unlink p)"
    and "state_io_rel (fs_guarded c S D) (sys_chmod p m)"
    and "state_io_rel (fs_guarded c S D) (sys_utime p t)"
    and "guarded_path c S D q \<Longrightarrow> state_io_rel (fs_guarded c S D) (sys_rename p q)"
  using assms guarded_self [OF assms] unfolding guarded_path_def
  by (auto intro!: fs_same_guarded step_rules)

interpretation gdw: worker_relation "fs_guarded c S D" "guarded_path c S D" for c S D
proof unfold_locales
  show "state_io_rel (fs_guarded c S D) (ensure_dir_exists p)" if "guarded_path c S D p" for p
    using guarded_self [OF that] that by (intro guarded_dir) (auto simp: guarded_path_def)
  show "state_io_rel (fs_guarded c S D) (ensure_parent_dir_exists p)" if "guarded_path c S D p" for p
    using that by (intro guarded_parent) (simp add: guarded_path_def)
  show "talks fd w w' \<Longrightarrow> fs_guarded c S D w w'" for fd w w' by (simp add: fs_guarded_def talks_simps)
qed (rule guarded_mutators, assumption+)+

section \<open>The places of a backup root\<close>

text \<open>The directories that lead to \<open>current\<close>, \<open>.versions\<close> and \<open>.trash\<close>.\<close>

definition backup_ways :: "fkey \<Rightarrow> path \<Rightarrow> fkey set" where
  "backup_ways c root = (\<Union>s \<in> {''current'', ''.versions'', ''.trash''}. way_keys c (joined root s))"

abbreviation guarded_backup :: "fkey \<Rightarrow> path \<Rightarrow> path \<Rightarrow> bool" where
  "guarded_backup c root \<equiv> guarded_path c (backup_area c root) (backup_ways c root)"

lemma way_joined:
  assumes b: "b \<noteq> []" "last b \<noteq> slash" and rel: "''..'' \<notin> set (split_on slash rel)"
    and k: "k \<in> way_keys c (joined b rel)"
  shows "k \<in> way_keys c b \<or> prefix (path_key c b) k"
proof (cases "k = []")
  case True
  then show ?thesis by (simp add: way_keys_def)
next
  case False
  let ?r = "dropWhile (\<lambda>c. c = slash) rel"
  obtain q where q: "q \<in> set (dir_prefixes (b @ slash # ?r))" "k = path_key c q"
    using k False b by (auto simp: way_keys_def joined_def Let_def)
  obtain r where r: "b @ slash # ?r = q @ slash # r" "q \<noteq> []" using q(1) by (auto simp: dir_prefix_iff)
  then consider (upper) us where "b = q @ us" "us @ slash # ?r = slash # r" | (lower) us where "q = b @ us" "slash # ?r = us @ slash # r"
    by (auto simp: append_eq_append_conv2)
  then show ?thesis
  proof cases
    case upper
    show ?thesis
    proof (cases us)
      case Nil
      then show ?thesis using upper q(2) by simp
    next
      case (Cons x y)
      then have "q \<in> set (dir_prefixes b)" using upper r(2) by (auto simp: dir_prefix_iff)
      then show ?thesis using q(2) by (auto simp: way_keys_def)
    qed
  next
    case lower
    show ?thesis
    proof (cases us)
      case Nil
      then show ?thesis using lower q(2) by simp
    next
      case (Cons x y)
      then have e: "x = slash" "?r = y @ slash # r" using lower(2) by auto
      have "''..'' \<notin> set (split_on slash y)"
        using dotdot_drop_slashes [OF rel] e(2) by (simp add: split_on_append)
      then have "k = path_key c b @ plain y"
        using q(2) lower(1) Cons e(1) b(1) by (simp add: path_key_append_slash foldl_push_plain plain_def)
      then show ?thesis by simp
    qed
  qed
qed

lemma sub_last: "s \<in> {''current'', ''.versions'', ''.trash''} \<Longrightarrow> last (joined root s) \<noteq> slash"
  by (elim insertE) (simp_all add: joined_def Let_def)

lemma way_sub:
  assumes s: "s \<in> {''current'', ''.versions'', ''.trash''}" and rel: "''..'' \<notin> set (split_on slash rel)"
  shows "way_keys c (joined (joined root s) rel) \<subseteq> backup_area c root \<union> backup_ways c root"
proof
  fix k assume "k \<in> way_keys c (joined (joined root s) rel)"
  from way_joined [OF joined_sub_nonempty [OF s] sub_last [OF s] rel this]
  show "k \<in> backup_area c root \<union> backup_ways c root"
    using s unfolding backup_area_def backup_ways_def by blast
qed

lemma way_stamped:
  assumes s: "s \<in> {''current'', ''.versions'', ''.trash''}" and rel: "''..'' \<notin> set (split_on slash rel)"
  shows "way_keys c (joined (joined (joined root s) (stamp_text t)) rel) \<subseteq> backup_area c root \<union> backup_ways c root"
proof
  let ?b = "joined (joined root s) (stamp_text t)"
  fix k assume k: "k \<in> way_keys c (joined ?b rel)"
  have nd: "''..'' \<notin> set (split_on slash (stamp_text t))"
    using stamp_plain [of t] stamp_no_dots [of t] by (simp add: split_on_single)
  have st: "stamp_text t \<noteq> []" "last (stamp_text t) \<noteq> slash"
    using stamp_plain [of t] last_in_set [of "stamp_text t"] by (auto simp: stamp_text_def)
  have dw: "dropWhile (\<lambda>c. c = slash) (stamp_text t) = stamp_text t"
    using stamp_plain [of t] by (cases "stamp_text t") auto
  have b: "?b \<noteq> []" "last ?b \<noteq> slash" using joined_sub_nonempty [OF s] st dw by (auto simp: joined_def [of _ "stamp_text t"] Let_def)
  from way_joined [OF b rel k] show "k \<in> backup_area c root \<union> backup_ways c root"
  proof
    assume "k \<in> way_keys c ?b"
    then show ?thesis using way_sub [OF s nd] by blast
  next
    assume "prefix (path_key c ?b) k"
    then show ?thesis using joined_area [OF s nd, of c root] by (auto simp: prefix_def)
  qed
qed

lemma guarded_top:
  assumes "s \<in> {''current'', ''.versions'', ''.trash''}"
  shows "guarded_backup c root (joined root s)"
  using assms by (auto simp: guarded_path_def backup_area_def backup_ways_def)

lemma guarded_join3:
  assumes san: "sanitize_rel_path rel = 0" and q: "join3 root ''current'' rel = Some q"
  shows "guarded_backup c root q \<and> guarded_backup c root (q @ ''.syncing'')"
proof -
  note nd = sanitize_no_dotdot [OF san]
  have e: "q = current_file root rel" using q by (rule join3_Some)
  have "q @ ''.syncing'' = current_file root (rel @ ''.syncing'')" using san e by (simp add: joined_suffix sanitize_iff)
  then show ?thesis
    using join3_area [OF san q, of c] way_sub [OF _ nd, of "''current''"] way_sub [OF _ dotdot_suffix [OF nd], of "''current''"]
    by (simp add: guarded_path_def e)
qed

lemma guarded_join4:
  assumes san: "sanitize_rel_path rel = 0" and s: "s \<in> {''.versions'', ''.trash''}"
    and q: "join4 root s (stamp_text t) rel = Some q"
  shows "guarded_backup c root q \<and> guarded_backup c root (q @ ''.syncing'')"
proof -
  note nd = sanitize_no_dotdot [OF san]
  let ?b = "joined (joined root s) (stamp_text t)"
  have s': "s \<in> {''current'', ''.versions'', ''.trash''}" using s by blast
  have e: "q = joined ?b rel" using q by (auto simp: join4_def join3_def dest!: join_path_Some split: option.splits)
  have "q @ ''.syncing'' = joined ?b (rel @ ''.syncing'')" using san e by (simp add: joined_suffix sanitize_iff)
  then show ?thesis
    using join4_area [OF san s q, of c] way_stamped [OF s' nd] way_stamped [OF s' dotdot_suffix [OF nd]]
    by (simp add: guarded_path_def e)
qed

section \<open>The local worker\<close>

lemma local_task_guarded:
  "state_io_rel (fs_guarded c (backup_area c (cc_dst_root config)) (backup_ways c (cc_dst_root config)))
     (sync_task_local config task lfd wid)"
proof (rule gdw.local_task [OF _ _ _ _ refl])
  let ?root = "cc_dst_root config"
  show "guarded_backup c ?root q \<and> guarded_backup c ?root (q @ ''.syncing'')"
    if "local_target_path MAX_PATH_LEN ?root r = Some q" for r q
  proof -
    from that have "sanitize_rel_path r = 0" "join3 ?root ''current'' r = Some q"
      by (auto simp: local_target_path_def join3_def sanitize_iff split: option.splits if_splits)
    then show ?thesis by (rule guarded_join3)
  qed
qed (use guarded_join3 guarded_join4 in blast)+

section \<open>The server\<close>

interpretation gdb: backup_relation "fs_guarded c (backup_area c root) (backup_ways c root \<union> E)"
  "guarded_path c (backup_area c root) (backup_ways c root \<union> E)" log_path root for c root E log_path
proof unfold_locales
  have wider: "guarded_path c S (D \<union> E) p" if "guarded_path c S D p" for S D p
    using that by (auto simp: guarded_path_def)
  let ?g = "guarded_path c (backup_area c root) (backup_ways c root \<union> E)"
  show "?g (joined root s)" if "s \<in> {''current'', ''.versions'', ''.trash''}" for s
    by (rule wider [OF guarded_top [OF that]])
  show "?g q \<and> ?g (q @ ''.syncing'')" if "sanitize_rel_path r = 0" "join3 root ''current'' r = Some q" for r q
    using guarded_join3 [OF that] wider by blast
  show "?g q \<and> ?g (q @ ''.syncing'')"
    if "sanitize_rel_path r = 0" "join4 root ''.versions'' (stamp_text t) r = Some q" for r t q
    using guarded_join4 [OF that(1) _ that(2)] wider by blast
  show "?g q" if "sanitize_rel_path r = 0" "join4 root ''.trash'' (stamp_text t) r = Some q" for r t q
    using guarded_join4 [OF that(1) _ that(2)] wider by blast
  show "state_io_rel (fs_guarded c (backup_area c root) (backup_ways c root \<union> E)) (server_log log_path l m)" for l m
    by (rule logging_kept) (simp add: logs_only_def fs_guarded_def)
qed

text \<open>All lines that are logged go to one log file, and to the standard output.\<close>

definition logs_to :: "path \<Rightarrow> world \<Rightarrow> world \<Rightarrow> bool" where
  "logs_to p w w' \<longleftrightarrow> (\<exists>ls. w_log w' = w_log w @ ls \<and> fst ` set ls \<subseteq> {p, stdout})"

lemma logs_to_refl: "w_log w' = w_log w \<Longrightarrow> logs_to p w w'"
  by (simp add: logs_to_def)

interpretation ltr: world_relation "logs_to p" for p
proof
  show "logs_to p w w" "logs_to p w (rest_script w)" for w by (simp_all add: logs_to_refl)
  show "logs_to p u w" if "logs_to p u v" "logs_to p v w" for u v w
  proof -
    obtain ls ms where "w_log v = w_log u @ ls" "w_log w = w_log v @ ms"
      "fst ` set ls \<subseteq> {p, stdout}" "fst ` set ms \<subseteq> {p, stdout}"
      using \<open>logs_to p u v\<close> \<open>logs_to p v w\<close> unfolding logs_to_def by blast
    then have "w_log w = w_log u @ (ls @ ms) \<and> fst ` set (ls @ ms) \<subseteq> {p, stdout}" by (simp add: image_Un)
    then show ?thesis unfolding logs_to_def by blast
  qed
qed

lemma streams_logs_to: "state_io_rel streams_same m \<Longrightarrow> state_io_rel (logs_to p) m"
  by (auto simp: state_io_rel_def streams_same_def logs_to_refl)

lemma server_log_to: "state_io_rel (logs_to p) (server_log p l m)"
proof -
  have pid: "state_io_rel (logs_to p) get_pid"
    by (rule state_io_relI) (auto simp: get_pid_def ltr.refl)
  have open_log: "state_io_rel (logs_to p) (syscall (\<lambda>w. (Inr () :: errno + unit, w)))"
    by (rule ltr.syscall) (simp add: ltr.refl)
  have line: "state_io_rel (logs_to p) (write_log_record fp msg)" if "fp = p \<or> fp = stdout" for fp msg
    unfolding write_log_record_def format_time_def sys_append_def
    by (intro ltr.rules ltr.calls ltr.syscall) (use that in \<open>auto simp: logs_to_def\<close>)
  have both: "state_io_rel (logs_to p) (write_both fp msg)" if "fp = p \<or> fp = stdout" for fp msg
    unfolding write_both_def using that by (intro ltr.rules line) auto
  show ?thesis unfolding server_log_def Let_def by (intro ltr.rules pid open_log both) (simp_all split: sum.split)
qed

interpretation ltb: backup_relation "logs_to log_path" "\<lambda>_. True" log_path root for log_path root
proof unfold_locales
  show "state_io_rel (logs_to log_path) (ensure_dir_exists p)" "state_io_rel (logs_to log_path) (ensure_parent_dir_exists p)" for p
    by (rule streams_logs_to, rule ssf.ensure_dir [OF TrueI] ssf.ensure_parent [OF TrueI])+
  show "talks fd w w' \<Longrightarrow> logs_to log_path w w'" for fd w w' by (simp add: logs_to_refl talks_simps)
  show "state_io_rel (logs_to log_path) (server_log log_path l m)" for l m by (rule server_log_to)
qed (rule streams_logs_to, rule streams_same_mutators TrueI | simp)+

lemma server_guarded:
  assumes "run_state (run_server config sock clients) w = (r, w')"
  shows "fs_guarded (w_cwd w) (backup_area (w_cwd w) (sc_root config))
      (backup_ways (w_cwd w) (sc_root config) \<union> way_keys (w_cwd w) (sc_log_path config)) w w'"
    and "logs_to (sc_log_path config) w w'"
proof -
  show "fs_guarded (w_cwd w) (backup_area (w_cwd w) (sc_root config))
      (backup_ways (w_cwd w) (sc_root config) \<union> way_keys (w_cwd w) (sc_log_path config)) w w'"
    by (rule gdr.runD [OF gdb.running [OF refl refl guarded_parent] assms]) blast
  show "logs_to (sc_log_path config) w w'"
    by (rule ltr.runD [OF ltb.running [OF refl refl ltb.ensure_parent [OF TrueI]] assms])
qed

end
