(* ===== verification/TransferProperties.thy ===== *)
theory TransferProperties
  imports RemoteSuccess SchedulerLaws Guard
begin

text \<open>
  Properties of the local and the remote mode of \<^verbatim>\<open>src/transfer.c\<close> and of \<^verbatim>\<open>src/server.c\<close>,
  with their witnesses on sample worlds.
\<close>

section \<open>Local mode\<close>

definition plain_file_task :: "sync_task \<Rightarrow> bool" where
  "plain_file_task task \<longleftrightarrow> sanitize_rel_path (t_rel_path task) = 0 \<and> t_is_dir task = 0 \<and>
     t_event_type task \<noteq> EVENT_DELETE \<and> t_event_type task \<noteq> EVENT_RENAME"

lemma plain_file_local: "plain_file_task task \<Longrightarrow> sync_task_local cfg task lfd wid = sync_local_file cfg task lfd wid"
  by (simp add: plain_file_task_def sync_task_local_def sync_task_rest_def)

definition file_task :: sync_task where
  "file_task = (sample_task EVENT_MODIFY ''d/f'')\<lparr>t_mode := 0x8180, t_mtime := 6, t_file_size := 4\<rparr>"

text \<open>C8: A file task that a worker reports as done in local mode has put the source content into
  \<open>current\<close>, whatever calls failed on the way, with one exception: when looking for the source (the
  first call) fails, the source is taken to have disappeared, and the task is reported as done with
  nothing changed. When no call failed, the file also has the permissions and the modification time
  of the task, and the content that was there before is kept below \<open>.versions\<close> under the time of the
  backup; failures of \<open>chmod\<close>, \<open>utime\<close> and of the look at the old file are not reported.\<close>

theorem local_sync_complete:
  assumes "run_state (sync_task_local cfg task lfd wid) w = (0, w')" and "plain_file_task task"
    and "fs_wf (w_fs w)" and "cc_dst_root cfg \<noteq> []"
    and "fs_find w (t_src_path task) = Inr (Reg s ms ts)"
    and "pkey w (t_src_path task) \<notin> backup_area (w_cwd w) (cc_dst_root cfg)"
  shows "if unscripted w
    then (\<exists>m t. fs_get (w_fs w') (pkey w (current_file (cc_dst_root cfg) (t_rel_path task))) = Some (Reg s m t)) \<and>
      (no_failure w \<longrightarrow>
        fs_get (w_fs w') (pkey w (current_file (cc_dst_root cfg) (t_rel_path task))) =
          Some (Reg s (t_mode task AND 0xFFF) (sint (t_mtime task))) \<and>
        (\<forall>old mo to. fs_find w (current_file (cc_dst_root cfg) (t_rel_path task)) = Inr (Reg old mo to) \<longrightarrow>
          (\<exists>m t. fs_get (w_fs w') (pkey w (stamped_file ''.versions'' w (cc_dst_root cfg) (t_rel_path task))) =
            Some (Reg old m t))))
    else w_fs w' = w_fs w"
proof -
  note run = assms(1) [unfolded plain_file_local [OF assms(2)]]
  show ?thesis
    using local_file_content [OF run assms(3-6)] local_file_success(1,2) [OF run assms(3,4) _ assms(5,6)]
    by (cases "unscripted w") auto
qed

lemma local_sync_complete_witness:
  "\<exists>w'. run_state (sync_task_local sample_config file_task (- 1) 1) sample_world = (0, w') \<and>
    fs_get (w_fs w') [''b'', ''current'', ''d'', ''f''] = Some (Reg ''new!'' 0x180 6) \<and>
    (\<exists>m t. fs_get (w_fs w') (pkey sample_world (stamped_file ''.versions'' sample_world ''b'' ''d/f'')) =
      Some (Reg ''old'' m t))"
proof -
  obtain r w' where run: "run_state (sync_task_local sample_config file_task (- 1) 1) sample_world = (r, w')"
    by (rule prod.exhaust)
  have "fst (run_state (sync_task_local sample_config file_task (- 1) 1) sample_world) = 0"
    by code_simp
  then have run0: "run_state (sync_task_local sample_config file_task (- 1) 1) sample_world = (0, w')"
    using run by simp
  have plain: "plain_file_task file_task" by code_simp
  have wf: "fs_wf (w_fs sample_world)" by code_simp
  have src: "fs_find sample_world ''s/d/f'' = Inr (Reg ''new!'' 0x180 6)" by code_simp
  have old: "fs_find sample_world (current_file ''b'' ''d/f'') = Inr (Reg ''old'' 0x1A4 5)" by code_simp
  have mode: "t_mode file_task AND 0xFFF = 0x180" "sint (t_mtime file_task) = 6" by code_simp+
  have key: "pkey sample_world (current_file ''b'' ''d/f'') = [''b'', ''current'', ''d'', ''f'']"
    "pkey sample_world ''s/d/f'' = [''s'', ''d'', ''f'']" by code_simp+
  have parts: "cc_dst_root sample_config = ''b''" "t_src_path file_task = ''s/d/f''"
    "t_rel_path file_task = ''d/f''" "w_cwd sample_world = []"
    by (simp_all add: sample_config_def file_task_def sample_task_def sample_world_def)
  have nf: "no_failure sample_world" by (simp add: no_failure_def sample_world_def)
  have out: "[''s'', ''d'', ''f''] \<notin> backup_area [] ''b''"
    by (simp add: backup_area_def path_key_def joined_def push_comp.simps)
  have un: "unscripted sample_world" by (rule no_failure_unscripted [OF nf])
  show ?thesis
    using local_sync_complete [OF run0 plain wf, of "''new!''" "0x180" 6, unfolded parts key mode]
      run0 nf un src old out by simp
qed

text \<open>C6: A task for a file is done: in a world where no call fails, with room for the file below
  \<open>current\<close>, and below \<open>.versions\<close> when there is an old file, the worker in local mode returns 0,
  the content of the source is in the backup with its metadata, and the old content is kept.\<close>

theorem local_sync_succeeds:
  assumes "room_for (cc_dst_root cfg) (t_rel_path task) w" and "plain_file_task task"
    and "fs_find w (t_src_path task) = Inr (Reg s ms ts)"
    and "pkey w (t_src_path task) \<notin> backup_area (w_cwd w) (cc_dst_root cfg)"
  shows "\<exists>w'. run_state (sync_task_local cfg task lfd wid) w = (0, w') \<and>
    fs_get (w_fs w') (pkey w (current_file (cc_dst_root cfg) (t_rel_path task))) =
      Some (Reg s (t_mode task AND 0xFFF) (sint (t_mtime task))) \<and>
    (\<forall>old mo to. fs_find w (current_file (cc_dst_root cfg) (t_rel_path task)) = Inr (Reg old mo to) \<longrightarrow>
      (\<exists>m t. fs_get (w_fs w') (pkey w (stamped_file ''.versions'' w (cc_dst_root cfg) (t_rel_path task))) =
        Some (Reg old m t)))"
proof -
  have san: "sanitize_rel_path (t_rel_path task) = 0" using assms(2) by (simp add: plain_file_task_def)
  obtain w' where run: "run_state (sync_local_file cfg task lfd wid) w = (0, w')"
    using local_file_succeeds [OF assms(1) san assms(3,4)] by blast
  have "fs_wf (w_fs w)" "cc_dst_root cfg \<noteq> []" "no_failure w"
    using assms(1) by (auto simp: room_for_def calm_def no_failure_def)
  from local_file_success [OF run this assms(3,4)] run show ?thesis
    unfolding plain_file_local [OF assms(2)] by blast
qed

lemma local_sync_succeeds_witness:
  "room_for ''b'' ''d/f'' sample_world \<and>
   (\<exists>w'. run_state (sync_task_local sample_config file_task 6 1) sample_world = (0, w') \<and>
    fs_get (w_fs w') [''b'', ''current'', ''d'', ''f''] = Some (Reg ''new!'' 0x180 6) \<and>
    (\<exists>m t. fs_get (w_fs w') (pkey sample_world (stamped_file ''.versions'' sample_world ''b'' ''d/f'')) =
      Some (Reg ''old'' m t)))"
proof -
  have ready: "room_for ''b'' ''d/f'' sample_world" by code_simp
  have plain: "plain_file_task file_task" by code_simp
  have src: "fs_find sample_world ''s/d/f'' = Inr (Reg ''new!'' 0x180 6)" by code_simp
  have old: "fs_find sample_world (current_file ''b'' ''d/f'') = Inr (Reg ''old'' 0x1A4 5)" by code_simp
  have mode: "t_mode file_task AND 0xFFF = 0x180" "sint (t_mtime file_task) = 6" by code_simp+
  have key: "pkey sample_world (current_file ''b'' ''d/f'') = [''b'', ''current'', ''d'', ''f'']"
    "pkey sample_world ''s/d/f'' = [''s'', ''d'', ''f'']" by code_simp+
  have parts: "cc_dst_root sample_config = ''b''" "t_src_path file_task = ''s/d/f''"
    "t_rel_path file_task = ''d/f''" "w_cwd sample_world = []"
    by (simp_all add: sample_config_def file_task_def sample_task_def sample_world_def)
  have out: "[''s'', ''d'', ''f''] \<notin> backup_area [] ''b''"
    by (simp add: backup_area_def path_key_def joined_def push_comp.simps)
  show ?thesis
    using local_sync_succeeds [of sample_config file_task sample_world "''new!''" "0x180" 6 6 1,
        unfolded parts key mode] ready plain src old out by simp
qed

text \<open>C9: An interrupted local sync is atomic: whatever the script of failures and whatever the
  result, the file below \<open>current\<close> is the one of before or has the whole content of the source. The
  only exception is a task that is reported as failed under a script with an \<open>EXDEV\<close>: its rename may
  have fallen back to copying over the file in place.\<close>

theorem local_sync_old_or_new:
  assumes "run_state (sync_task_local cfg task lfd wid) w = (r, w')" and "plain_file_task task"
    and "fs_wf (w_fs w)" and "cc_dst_root cfg \<noteq> []"
    and "fs_get (w_fs w) (pkey w (t_src_path task)) = Some (Reg s ms ts)"
    and "pkey w (t_src_path task) \<notin> backup_area (w_cwd w) (cc_dst_root cfg)"
    and "fs_get (w_fs w) (pkey w (current_file (cc_dst_root cfg) (t_rel_path task))) = Some n"
  shows "r = 0 \<or> Fail EXDEV \<notin> set (w_script w) \<longrightarrow>
    fs_get (w_fs w') (pkey w (current_file (cc_dst_root cfg) (t_rel_path task))) \<in>
      insert (Some n) {Some (Reg s m t) | m t. True}"
  using local_file_old_or_new [OF assms(1) [unfolded plain_file_local [OF assms(2)]] assms(3,4) _ _ assms(5-7)]
    assms(2) by (auto simp: plain_file_task_def)

lemma sample_outside: "pkey sample_world ''s/d/f'' \<notin> backup_area (w_cwd sample_world) (cc_dst_root sample_config)"
  by (simp add: backup_area_def pkey_def path_key_def joined_def push_comp.simps sample_config_def sample_world_def)

lemma local_sync_old_or_new_witness:
  "\<exists>r w'. run_state (sync_task_local sample_config file_task 6 1)
      (sample_world\<lparr>w_script := [Go, Go, Short 1, Fail EIO]\<rparr>) = (r, w') \<and>
    fs_get (w_fs w') [''b'', ''current'', ''d'', ''f''] \<in>
      insert (Some (Reg ''old'' 0x1A4 5)) {Some (Reg ''new!'' m t) | m t. True}"
proof -
  let ?w = "sample_world\<lparr>w_script := [Go, Go, Short 1, Fail EIO]\<rparr>"
  obtain r w' where run: "run_state (sync_task_local sample_config file_task 6 1) ?w = (r, w')"
    by (rule prod.exhaust)
  have plain: "plain_file_task file_task" by code_simp
  have wf: "fs_wf (w_fs ?w)" by code_simp
  have src: "fs_get (w_fs ?w) (pkey ?w (t_src_path file_task)) = Some (Reg ''new!'' 0x180 6)" by code_simp
  have key: "pkey ?w (current_file (cc_dst_root sample_config) (t_rel_path file_task)) =
    [''b'', ''current'', ''d'', ''f'']" by code_simp
  have old: "fs_get (w_fs ?w) [''b'', ''current'', ''d'', ''f''] = Some (Reg ''old'' 0x1A4 5)" by code_simp
  have out: "pkey ?w (t_src_path file_task) \<notin> backup_area (w_cwd ?w) (cc_dst_root sample_config)"
    using sample_outside by (simp add: file_task_def sample_task_def pkey_def)
  have rest: "cc_dst_root sample_config \<noteq> []" "Fail EXDEV \<notin> set (w_script ?w)"
    by (simp_all add: sample_config_def)
  show ?thesis
    using local_sync_old_or_new [OF run plain wf rest(1) src out, unfolded key, OF old] rest(2) run by blast
qed

text \<open>C38: The temporary name of a file is not reserved: after a file task that is done, nothing is left
  at the name of the file followed by \<open>.syncing\<close>. When the source has an entry of that name too, its
  backup is gone, without a version and without a place in the trash.\<close>

theorem temporary_name_collides:
  assumes "run_state (sync_task_local cfg task lfd wid) w = (0, w')" and "plain_file_task task"
    and "fs_wf (w_fs w)" and "cc_dst_root cfg \<noteq> []" and "no_failure w"
    and "fs_find w (t_src_path task) = Inr (Reg s ms ts)"
    and "pkey w (t_src_path task) \<notin> backup_area (w_cwd w) (cc_dst_root cfg)"
  shows "fs_get (w_fs w') (pkey w (current_file (cc_dst_root cfg) (t_rel_path task @ ''.syncing''))) = None"
  by (rule local_file_success(3) [OF assms(1) [unfolded plain_file_local [OF assms(2)]] assms(3-7)])

definition clashing_world :: world where
  "clashing_world = sample_world\<lparr>w_fs := sample_tree @
     [([''s'', ''d'', ''f.syncing''], Reg ''kept?'' 0x1A4 6),
      ([''b'', ''current'', ''d'', ''f.syncing''], Reg ''kept?'' 0x1A4 6)]\<rparr>"

lemma temporary_name_collides_witness:
  "\<exists>w'. run_state (sync_task_local sample_config file_task (- 1) 1) clashing_world = (0, w') \<and>
    fs_get (w_fs clashing_world) [''b'', ''current'', ''d'', ''f.syncing''] = Some (Reg ''kept?'' 0x1A4 6) \<and>
    fs_get (w_fs w') [''b'', ''current'', ''d'', ''f.syncing''] = None"
proof -
  let ?w = clashing_world
  obtain r w' where run: "run_state (sync_task_local sample_config file_task (- 1) 1) ?w = (r, w')"
    by (rule prod.exhaust)
  have "fst (run_state (sync_task_local sample_config file_task (- 1) 1) ?w) = 0" by code_simp
  then have r: "r = 0" using run by simp
  have plain: "plain_file_task file_task" by code_simp
  have wf: "fs_wf (w_fs ?w)" by code_simp
  have dst: "cc_dst_root sample_config \<noteq> []" by (simp add: sample_config_def)
  have nf: "no_failure ?w" by (simp add: no_failure_def clashing_world_def sample_world_def)
  have src: "fs_find ?w (t_src_path file_task) = Inr (Reg ''new!'' 0x180 6)" by code_simp
  have out: "pkey ?w (t_src_path file_task) \<notin> backup_area (w_cwd ?w) (cc_dst_root sample_config)"
    using sample_outside by (simp add: file_task_def sample_task_def pkey_def clashing_world_def)
  have key: "pkey ?w (current_file (cc_dst_root sample_config) (t_rel_path file_task @ ''.syncing'')) =
    [''b'', ''current'', ''d'', ''f.syncing'']" by code_simp
  have old: "fs_get (w_fs ?w) [''b'', ''current'', ''d'', ''f.syncing''] = Some (Reg ''kept?'' 0x1A4 6)" by code_simp
  show ?thesis
    using temporary_name_collides [OF run [unfolded r] plain wf dst nf src out, unfolded key] run r old by blast
qed

text \<open>C10: A worker in local mode changes nothing outside \<open>current\<close>, \<open>.versions\<close> and \<open>.trash\<close> of the
  backup root, for every task whatever its paths say and for every script of failures; the only things
  it makes elsewhere are missing directories on the way from the working directory to these three.\<close>

theorem local_task_stays_in_backup:
  "fs_guarded (w_cwd w) (backup_area (w_cwd w) (cc_dst_root cfg)) (backup_ways (w_cwd w) (cc_dst_root cfg)) w
     (snd (run_state (sync_task_local cfg task lfd wid) w))"
  using local_task_guarded by (simp add: state_io_rel_def)

section \<open>The server\<close>

text \<open>C1: The server changes nothing outside its backup: for all bytes that clients send on any number
  of connections and all scripts of failures, nothing outside \<open>current\<close>, \<open>.versions\<close> and
  \<open>.trash\<close> of the root changes, the only things made elsewhere are missing directories on the way to these
  three and to the log file, and all lines that are logged go to the log file of the configuration
  and to the standard output. (The log file itself is not part of the file tree of the model: its
  path and its lines are in \<open>w_log\<close>.)\<close>

theorem server_stays_in_root:
  "case run_state (run_server config sock clients) w of (r, w') \<Rightarrow>
     fs_guarded (w_cwd w) (backup_area (w_cwd w) (sc_root config))
       (backup_ways (w_cwd w) (sc_root config) \<union> way_keys (w_cwd w) (sc_log_path config)) w w' \<and>
     logs_to (sc_log_path config) w w'"
  using server_guarded by (auto split: prod.split)





definition whole_world :: world where
  "whole_world = sample_world\<lparr>w_rx := (\<lambda>_. block_bytes (block_header ''hi'' 0 2 0 0x81A4 3, ''hi'') @
     header_bytes (end_header 2 (hash_buffer_fnv1a ''hi'') 0x81A4 3))\<rparr>"


section \<open>Client and server together\<close>

text \<open>C5: What the client reports as sent is in the backup: when the client's transfer of a small file
  returns 0, and the server of the connection reads what the client wrote and the client reads what
  the server wrote, then the file below \<open>current\<close> on the server has exactly the first
  \<open>t_file_size\<close> bytes of the source, for every script of failures on either side.\<close>

theorem small_file_end_to_end:
  assumes "run_state (send_remote_small_file sock cfg task lfd wid) wc = (0, wc')"
    and "run_state (server_handle_connection fd root lp) ws = (r, ws')"
    and "w_rx ws fd = w_tx wc' sock" and "w_rx wc sock = w_tx ws' fd" and "w_tx wc sock = []" and "w_tx ws fd = []"
    and "lfd \<noteq> sock" and "is_cstr (t_rel_path task)" and "\<not> S_ISDIR (t_mode task)"
    and "unat (t_file_size task) < 2 ^ 32" and "fs_wf (w_fs ws)" and "root \<noteq> []"
  shows "\<exists>m t. fs_get (w_fs ws') (pkey ws (current_file root (t_rel_path task))) =
    Some (Reg (take (unat (t_file_size task)) (file_bytes wc (t_src_path task))) m t)"
  using small_file_arrives [OF assms(1,7,5,8,9,10,2,3,4,6,11,12)] .

text \<open>The two sides of the sample transfer, each with the bytes of the other as its input.\<close>

definition remote_config :: client_config where
  "remote_config = sample_config\<lparr>cc_server_ip := ''10.0.0.2'', cc_port := 9090\<rparr>"

definition sending_world :: world where
  "sending_world = sample_world\<lparr>w_rx := (\<lambda>_. [])(4 := header_bytes (ack_header (t_file_size file_task)))\<rparr>"

definition receiving_world :: world where
  "receiving_world = sample_world\<lparr>w_rx := (\<lambda>_. [])
     (7 := small_transcript file_task (hash_buffer_fnv1a ''new!'') ''new!'')\<rparr>"

definition client_ready :: "client_config \<Rightarrow> int \<Rightarrow> int \<Rightarrow> sync_task \<Rightarrow> bytes \<Rightarrow> world \<Rightarrow> bool" where
  "client_ready cfg sock lfd task s w \<longleftrightarrow> w_script w = [] \<and> 0 \<le> sock \<and> lfd \<noteq> sock \<and>
     inet_pton_ok (cc_server_ip cfg) \<and> unat (t_file_size task) = length s \<and> length s \<le> MAX_BLOCK \<and>
     \<not> S_ISDIR (t_mode task) \<and> is_cstr (t_rel_path task) \<and> length (t_rel_path task) \<le> MAX_NET_PATH \<and>
     (case fs_find w (t_src_path task) of Inr (Reg b m t) \<Rightarrow> b = s | _ \<Rightarrow> False)"

lemma client_readyD:
  assumes "client_ready cfg sock lfd task s w"
  obtains m t where "fs_find w (t_src_path task) = Inr (Reg s m t)"
  using assms by (auto simp: client_ready_def split: sum.splits node.splits)

lemma sample_client_ready: "client_ready remote_config 4 6 file_task ''new!'' sending_world"
proof -
  have "client_ready remote_config 4 6 file_task ''new!'' sample_world" by code_simp
  moreover have "fs_find sending_world p = fs_find sample_world p" for p
    by (rule fs_find_same) (simp_all add: sending_world_def)
  ultimately show ?thesis by (simp add: client_ready_def) (simp add: sending_world_def)
qed

lemma sample_room: "room_for ''b'' ''d/f'' receiving_world"
proof -
  have "room_for ''b'' ''d/f'' sample_world" by code_simp
  then show ?thesis using room_same [of receiving_world sample_world] by (simp add: receiving_world_def)
qed

lemma ready_transfer:
  assumes ready: "client_ready cfg sock lfd task s wc" and san: "sanitize_rel_path (t_rel_path task) = 0"
    and room: "room_for root (t_rel_path task) ws" and tx: "w_tx wc sock = []" "w_tx ws fd = []"
    and rx: "w_rx ws fd = small_transcript task (hash_buffer_fnv1a s) s"
      "w_rx wc sock = header_bytes (ack_header (t_file_size task))"
  shows "\<exists>wc' ws'. run_state (send_remote_small_file sock cfg task lfd wid) wc = (0, wc') \<and>
    run_state (server_handle_connection fd root lp) ws = (0, ws') \<and>
    w_tx wc' sock = w_rx ws fd \<and> w_tx ws' fd = w_rx wc sock"
proof -
  obtain m t where src: "fs_find wc (t_src_path task) = Inr (Reg s m t)" by (rule client_readyD [OF ready])
  show ?thesis
    by (rule small_file_succeeds [OF _ src _ _ _ _ _ _ san _ _ room tx rx])
      (use ready in \<open>simp_all add: client_ready_def\<close>)
qed

lemma small_file_end_to_end_witness:
  "\<exists>wc' ws' m t. run_state (send_remote_small_file 4 remote_config file_task 6 1) sending_world = (0, wc') \<and>
    run_state (server_handle_connection 7 ''b'' ''log'') receiving_world = (0, ws') \<and>
    w_tx wc' 4 = w_rx receiving_world 7 \<and> w_tx ws' 7 = w_rx sending_world 4 \<and>
    fs_get (w_fs ws') [''b'', ''current'', ''d'', ''f''] = Some (Reg ''new!'' m t)"
proof -
  have task: "t_rel_path file_task = ''d/f''" "t_src_path file_task = ''s/d/f''" "t_file_size file_task = 4"
    by (simp_all add: file_task_def sample_task_def)
  have tx: "w_tx sending_world 4 = []" "w_tx receiving_world 7 = []"
    by (simp_all add: sending_world_def receiving_world_def sample_world_def)
  have rx: "w_rx receiving_world 7 = small_transcript file_task (hash_buffer_fnv1a ''new!'') ''new!''"
    "w_rx sending_world 4 = header_bytes (ack_header (t_file_size file_task))"
    by (simp_all add: sending_world_def receiving_world_def)
  have san: "sanitize_rel_path (t_rel_path file_task) = 0" by code_simp
  have room: "room_for ''b'' (t_rel_path file_task) receiving_world" using sample_room task by simp
  obtain wc' ws' where R: "run_state (send_remote_small_file 4 remote_config file_task 6 1) sending_world = (0, wc')"
    "run_state (server_handle_connection 7 ''b'' ''log'') receiving_world = (0, ws')"
    "w_tx wc' 4 = w_rx receiving_world 7" "w_tx ws' 7 = w_rx sending_world 4"
    using ready_transfer [OF sample_client_ready san room tx rx] by blast
  have misc: "(6::int) \<noteq> 4" "is_cstr (t_rel_path file_task)" "\<not> S_ISDIR (t_mode file_task)"
    "unat (t_file_size file_task) < 2 ^ 32" "fs_wf (w_fs receiving_world)" "''b'' \<noteq> []"
    using sample_client_ready sample_room by (simp_all add: client_ready_def room_for_def calm_def task)
  have content: "file_bytes sending_world (t_src_path file_task) = ''new!''"
  proof -
    have "file_bytes sample_world ''s/d/f'' = ''new!''" by code_simp
    then show ?thesis by (simp add: task file_bytes_def sending_world_def pkey_def)
  qed
  have key: "pkey receiving_world (current_file ''b'' ''d/f'') = [''b'', ''current'', ''d'', ''f'']"
  proof -
    have "pkey sample_world (current_file ''b'' ''d/f'') = [''b'', ''current'', ''d'', ''f'']" by code_simp
    then show ?thesis by (simp add: receiving_world_def pkey_def)
  qed
  show ?thesis
    using small_file_end_to_end [OF R(1,2) R(3) [symmetric] R(4) [symmetric] tx misc, unfolded content, unfolded task key] R
    by simp
qed

text \<open>C3: The transfer works: a worker in remote mode with a task for a file of at most one block, whose
  client has no failing call and finds the answer in its input, and a connection of a server with room
  for the file that finds the request in its input, both return 0; the output of each is the input of
  the other, and the file below \<open>current\<close> of the server has the content of the source.\<close>

theorem remote_sync_succeeds:
  assumes "client_ready cfg sock lfd task s wc" and "plain_file_task task"
    and "sint (t_file_size task) \<le> cc_hash_threshold cfg"
    and "room_for root (t_rel_path task) ws" and "w_tx wc sock = []" and "w_tx ws fd = []"
    and "w_rx ws fd = small_transcript task (hash_buffer_fnv1a s) s"
    and "w_rx wc sock = header_bytes (ack_header (t_file_size task))"
  shows "\<exists>wc' ws' m t. run_state (sync_task_remote sock cfg task lfd wid) wc = (0, wc') \<and>
    run_state (server_handle_connection fd root lp) ws = (0, ws') \<and>
    w_tx wc' sock = w_rx ws fd \<and> w_tx ws' fd = w_rx wc sock \<and>
    fs_get (w_fs ws') (pkey ws (current_file root (t_rel_path task))) = Some (Reg s m t)"
proof -
  have san: "sanitize_rel_path (t_rel_path task) = 0" using assms(2) by (simp add: plain_file_task_def)
  obtain ms ts where src: "fs_find wc (t_src_path task) = Inr (Reg s ms ts)" by (rule client_readyD [OF assms(1)])
  have sc: "w_script wc = []" and ready: "unat (t_file_size task) = length s" "length s \<le> MAX_BLOCK" "lfd \<noteq> sock"
    "is_cstr (t_rel_path task)" "\<not> S_ISDIR (t_mode task)" using assms(1) by (simp_all add: client_ready_def)
  from ready_transfer [OF assms(1) san assms(4-8)] obtain wc' ws' where
    R: "run_state (send_remote_small_file sock cfg task lfd wid) wc = (0, wc')"
    "run_state (server_handle_connection fd root lp) ws = (0, ws')"
    "w_tx wc' sock = w_rx ws fd" "w_tx ws' fd = w_rx wc sock" by blast
  have bytes: "file_bytes wc (t_src_path task) = s" using fs_find_Inr [OF src] by (simp add: file_bytes_def)
  have size: "unat (t_file_size task) < 2 ^ 32" using ready(1,2) by simp
  have "fs_wf (w_fs ws)" "root \<noteq> []" using assms(4) by (simp_all add: room_for_def calm_def)
  from small_file_arrives [OF R(1) ready(3) assms(5) ready(4,5) size R(2) R(3) [symmetric] R(4) [symmetric] assms(6) this]
  obtain m t where "fs_get (w_fs ws') (pkey ws (current_file root (t_rel_path task))) = Some (Reg s m t)"
    unfolding bytes using ready(1) by auto
  moreover have "run_state (sync_file_remote sock cfg task lfd wid) wc =
      run_state (send_remote_small_file sock cfg task lfd wid) wc"
    using is_regular_exact [of wc "t_src_path task"] src sc open_rd_run [OF sc src] assms(3)
    by (simp add: sync_file_remote_def no_failure_def try_read_lock_def unlock_file_def sys_setlk_def run_syscall)
  then have "run_state (sync_task_remote sock cfg task lfd wid) wc = (0, wc')"
    using R(1) assms(2) by (simp add: sync_task_remote_def plain_file_task_def)
  ultimately show ?thesis using R by blast
qed

lemma remote_sync_succeeds_witness:
  "\<exists>wc' ws' m t. run_state (sync_task_remote 4 remote_config file_task 6 1) sending_world = (0, wc') \<and>
    run_state (server_handle_connection 7 ''b'' ''log'') receiving_world = (0, ws') \<and>
    fs_get (w_fs ws') (pkey receiving_world (current_file ''b'' ''d/f'')) = Some (Reg ''new!'' m t)"
proof -
  have task: "t_rel_path file_task = ''d/f''" by (simp add: file_task_def sample_task_def)
  have plain: "plain_file_task file_task" "sint (t_file_size file_task) \<le> cc_hash_threshold remote_config"
    by code_simp+
  have room: "room_for ''b'' (t_rel_path file_task) receiving_world" using sample_room task by simp
  have io: "w_tx sending_world 4 = []" "w_tx receiving_world 7 = []"
    "w_rx receiving_world 7 = small_transcript file_task (hash_buffer_fnv1a ''new!'') ''new!''"
    "w_rx sending_world 4 = header_bytes (ack_header (t_file_size file_task))"
    by (simp_all add: sending_world_def receiving_world_def sample_world_def)
  show ?thesis
    using remote_sync_succeeds [OF sample_client_ready plain room io, of 1 "''log''"] unfolding task by blast
qed

end
