(* ===== verification/LargeSuccess.thy ===== *)
theory LargeSuccess
  imports RemoteSuccess
begin

text \<open>
  Large files: the blocks that a client sends from an offset on, the offset query, and what becomes of a
  transfer that is resumed after a part of the file had been stored.
\<close>

section \<open>The blocks of a large file\<close>

function large_blocks :: "sync_task \<Rightarrow> 64 word \<Rightarrow> nat \<Rightarrow> bytes \<Rightarrow> nat \<Rightarrow> block list" where
  "large_blocks task hash bs s n =
     (if bs = 0 \<or> length s \<le> n then []
      else let d = take bs (drop n s) in
        (block_header d (word_of_nat n) (t_file_size task) hash (t_mode task) (t_mtime task), d) #
          large_blocks task hash bs s (n + length d))"
  by pat_completeness auto
termination by (relation "measure (\<lambda>(task, hash, bs, s, n). length s - n)") (auto simp: min_def)

declare large_blocks.simps [simp del]

lemma sint_offset: "n < 2 ^ 63 \<Longrightarrow> sint (word_of_nat n :: 64 word) = int n"
  by (simp add: signed_of_nat signed_take_bit_int_eq_self)

lemma send_blocks_calm:
  "w_script w = [] \<Longrightarrow> fs_get (w_fs w) (pkey w (t_src_path task)) = Some (Reg s m t) \<Longrightarrow> 0 < bs \<Longrightarrow>
   \<exists>w'. send_blocks fd task hash bs n (word_of_nat n) w = (0, w') \<and> w_script w' = [] \<and>
     sent fd (concat (map block_bytes (large_blocks task hash bs s n))) w w'"
proof (induction task hash bs s n arbitrary: w rule: large_blocks.induct)
  case (1 task hash bs s n)
  let ?d = "take bs (drop n s)"
  have r: "run_state (sys_fread (t_src_path task) n bs) w = (Inr ?d, w)"
    using "1.prems" by (simp add: sys_fread_def run_syscall transfer_limit.simps max_def)
  show ?case
  proof (cases "length s \<le> n")
    case True
    then show ?thesis using r "1.prems"(1) sent_quiet [OF quiet_refl]
      by (simp add: send_blocks.simps [of _ _ _ _ _ _ w] large_blocks.simps)
  next
    case False
    then have c: "\<not> (bs = 0 \<or> length s \<le> n)" and d: "?d \<noteq> []" using "1.prems"(3) by auto
    let ?h = "block_header ?d (word_of_nat n) (t_file_size task) hash (t_mode task) (t_mtime task)"
    obtain w1 where w1: "run_state (send_file_block fd ?d (word_of_nat n) (t_file_size task) hash (t_mode task)
        (t_mtime task)) w = (0, w1)" "w_script w1 = []" "sent fd (block_bytes (?h, ?d)) w w1"
      using send_block_calm [OF "1.prems"(1)] by blast
    have g: "fs_get (w_fs w1) (pkey w1 (t_src_path task)) = Some (Reg s m t)"
      using w1(3) "1.prems"(2) by (simp add: sent_def pkey_def)
    from "1.IH" [OF c refl w1(2) g "1.prems"(3)] obtain w' where w':
      "send_blocks fd task hash bs (n + length ?d) (word_of_nat (n + length ?d)) w1 = (0, w')" "w_script w' = []"
      "sent fd (concat (map block_bytes (large_blocks task hash bs s (n + length ?d)))) w1 w'" by blast
    have "send_blocks fd task hash bs n (word_of_nat n) w = (0, w')"
      using r d w1(1) w'(1) by (simp add: send_blocks.simps [of _ _ _ _ _ _ w])
    moreover have "large_blocks task hash bs s n = (?h, ?d) # large_blocks task hash bs s (n + length ?d)"
      using c by (subst large_blocks.simps) (simp only: Let_def if_False)
    ultimately show ?thesis using sent_trans [OF w1(3) w'(3)] w'(2) by simp
  qed
qed

text \<open>The blocks are valid and complete the part that is there.\<close>

lemma large_blocks_fit:
  "length s < 2 ^ 63 \<Longrightarrow> bs \<le> MAX_BLOCK \<Longrightarrow> list_all block_fits (large_blocks task hash bs s n)"
proof (induction task hash bs s n rule: large_blocks.induct)
  case (1 task hash bs s n)
  show ?case
  proof (cases "bs = 0 \<or> length s \<le> n")
    case True
    then show ?thesis by (simp add: large_blocks.simps)
  next
    case False
    let ?d = "take bs (drop n s)"
    have l: "length ?d \<le> MAX_BLOCK" "?d \<noteq> []" "n < 2 ^ 63" using False "1.prems" by auto
    have u: "unat (word_of_nat (length ?d) :: 32 word) = length ?d" using l(1) by (simp add: unat_of_nat)
    have "block_fits (block_header ?d (word_of_nat n) (t_file_size task) hash (t_mode task) (t_mtime task), ?d)"
      using l u sint_offset [OF l(3)]
      by (simp add: block_fits_def block_ok_def block_header_def validate_sync_header_def init_sync_header_def
          zero_header_def)
    then show ?thesis using "1.IH" [OF False refl "1.prems"] False
      by (subst large_blocks.simps) (simp add: Let_def)
  qed
qed

lemma large_blocks_complete:
  "length s < 2 ^ 63 \<Longrightarrow> 0 < bs \<Longrightarrow> n \<le> length s \<Longrightarrow>
   apply_blocks (large_blocks task hash bs s n) (take n s) = s"
proof (induction task hash bs s n rule: large_blocks.induct)
  case (1 task hash bs s n)
  show ?case
  proof (cases "bs = 0 \<or> length s \<le> n")
    case True
    then show ?thesis using "1.prems" by (simp add: large_blocks.simps apply_blocks_def)
  next
    case False
    let ?d = "take bs (drop n s)"
    have n: "n < 2 ^ 63" "length (take n s) = n" using False "1.prems" by auto
    then have u: "unat (word_of_nat n :: 64 word) = n" by (simp add: unat_of_nat)
    have "splice n ?d (take n s) = take n s @ ?d" using splice_end [of "take n s" ?d] n(2) by simp
    also have "\<dots> = take (n + length ?d) s" by (simp add: take_add min_def)
    finally have sp: "splice n ?d (take n s) = take (n + length ?d) s" .
    have "apply_blocks (large_blocks task hash bs s n) (take n s) =
        apply_blocks (large_blocks task hash bs s (n + length ?d)) (take (n + length ?d) s)"
      using False u sp by (subst large_blocks.simps) (simp add: Let_def apply_blocks_def block_header_def)
    also have "\<dots> = s" by (rule "1.IH" [OF False refl "1.prems"(1,2)]) (use False in \<open>simp add: min_def; linarith\<close>)
    finally show ?thesis .
  qed
qed

section \<open>The request of the client\<close>

abbreviation offset_header :: "nat \<Rightarrow> sync_header" where
  "offset_header n \<equiv> (init_sync_header MSG_OFFSET_REPLY)\<lparr>h_offset := word_of_nat n\<rparr>"

abbreviation query_header :: "string \<Rightarrow> sync_header" where
  "query_header rel \<equiv> path_header MSG_QUERY_OFFSET rel"

lemma query_header_simps:
  assumes "length rel \<le> MAX_NET_PATH"
  shows "unat (h_path_len (query_header rel)) = length rel" "h_msg_type (query_header rel) = MSG_QUERY_OFFSET"
    "validate_sync_header (query_header rel) = 0"
  using assms by (simp_all add: path_header_def init_sync_header_def zero_header_def unat_of_nat
      validate_sync_header_def)

definition large_request :: "sync_task \<Rightarrow> 64 word \<Rightarrow> nat \<Rightarrow> bytes \<Rightarrow> nat \<Rightarrow> bytes" where
  "large_request task hash bs s n =
     header_bytes (query_header (t_rel_path task)) @ t_rel_path task @
     stream_of (large_blocks task hash bs s n) (end_header (t_file_size task) hash (t_mode task) (t_mtime task))"

lemma query_calm:
  assumes "w_script w = []" and len: "length (t_rel_path task) \<le> MAX_NET_PATH"
    and rx: "w_rx w fd = header_bytes (offset_header n) @ rest"
  obtains w' where "run_state (query_remote_offset fd task) w = (Some (word_of_nat n), w')" "w_script w' = []"
    "w_rx w' fd = rest" "w_tx w' fd = w_tx w fd @ header_bytes (query_header (t_rel_path task)) @ t_rel_path task"
    "w_fs w' = w_fs w" "w_cwd w' = w_cwd w"
proof -
  obtain a where a: "run_state (send_header fd (query_header (t_rel_path task))) w = (0, a)" "w_script a = []"
    "sent fd (header_bytes (query_header (t_rel_path task))) w a" by (rule send_header_calm [OF assms(1)])
  obtain b where b: "run_state (send_path fd (t_rel_path task)) a = (0, b)" "w_script b = []"
    "sent fd (t_rel_path task) a b" by (rule send_path_calm [OF a(2) len])
  note st = sent_trans [OF a(3) b(3)]
  have "validate_sync_header (offset_header n) = 0"
    by (simp add: validate_sync_header_def init_sync_header_def zero_header_def)
  moreover have "w_rx b fd = header_bytes (offset_header n) @ rest" using st rx by (simp add: sent_def)
  ultimately obtain w' where w': "run_state (recv_header fd) b = (Some (offset_header n), w')" "talks fd b w'"
    "w_rx w' fd = rest" "w_script w' = []" "w_tx w' fd = w_tx b fd"
    using recv_header_calm [OF b(2)] by blast
  have "run_state (query_remote_offset fd task) w = (Some (word_of_nat n), w')"
    using a(1) b(1) w'(1) query_header_simps(1) [OF len] len
    by (simp add: query_remote_offset_def send_header_with_path_def Let_def init_sync_header_def)
  then show thesis using that w' st talks_simps(1,2) [OF w'(2)] by (simp add: sent_def)
qed

text \<open>Everything before the last answer is read.\<close>

lemma large_file_requested:
  assumes sc: "w_script w = []" and src: "fs_find w (t_src_path task) = Inr (Reg s ms ts)"
    and ip: "inet_pton_ok (cc_server_ip cfg)" "0 \<le> sock" and rel: "length (t_rel_path task) \<le> MAX_NET_PATH"
    and bs: "0 < cc_block_size cfg" and n: "n < 2 ^ 63" and rx: "w_rx w sock = header_bytes (offset_header n) @ rest"
  obtains f where "w_script f = []" "w_rx f sock = rest"
    "w_tx f sock = w_tx w sock @ large_request task (hash_buffer_fnv1a s) (nat (cc_block_size cfg)) s n"
    "run_state (send_remote_large_file sock cfg task lfd wid) w = run_state (do {
       ok \<leftarrow> wait_for_ack sock;
       (if ok = 0 then do {
          _ \<leftarrow> log_message lfd LOG_INFO (success_text wid task (''large-file resume offset='' @ dec n)
            (hash_buffer_fnv1a s));
          ret ok
        }
        else ret ok)
     }) f"
proof -
  let ?hash = "hash_buffer_fnv1a s" and ?src = "t_src_path task" and ?bs = "nat (cc_block_size cfg)"
  obtain a where a: "run_state (query_remote_offset sock task) w = (Some (word_of_nat n), a)" "w_script a = []"
    "w_rx a sock = rest" "w_tx a sock = w_tx w sock @ header_bytes (query_header (t_rel_path task)) @ t_rel_path task"
    "w_fs a = w_fs w" "w_cwd a = w_cwd w" by (rule query_calm [OF sc rel rx])
  have srca: "fs_find a ?src = Inr (Reg s ms ts)" using fs_find_same [OF a(5,6)] src by simp
  have op: "run_state (sys_open_rd ?src) a = (Inr (), a)" by (rule open_rd_run [OF a(2) srca])
  note hash = hash_file_exact [OF a(2) srca]
  have sk: "run_state (sys_lseek ?src (sint (word_of_nat n :: 64 word))) a = (Inr (), a)"
    using sint_offset [OF n] by (simp add: sys_lseek_def run_syscall a(2))
  have ml: "run_state (sys_malloc ?bs) a = (Inr (), a)" by (simp add: sys_malloc_def run_syscall a(2))
  have u: "unat (word_of_nat n :: 64 word) = n" using n by (simp add: unat_of_nat)
  have "fs_get (w_fs a) (pkey a ?src) = Some (Reg s ms ts)" using fs_find_Inr [OF srca] by simp
  moreover have "0 < ?bs" using bs by simp
  ultimately obtain d where d: "send_blocks sock task ?hash ?bs n (word_of_nat n) a = (0, d)" "w_script d = []"
    "sent sock (concat (map block_bytes (large_blocks task ?hash ?bs s n))) a d"
    using send_blocks_calm [OF a(2)] by blast
  then have sb: "run_state (State (send_blocks sock task ?hash ?bs n (word_of_nat n))) a = (0, d)" by simp
  obtain e where e: "run_state (send_file_end sock (t_file_size task) ?hash (t_mode task) (t_mtime task)) d = (0, e)"
    "w_script e = []" "sent sock (header_bytes (end_header (t_file_size task) ?hash (t_mode task) (t_mtime task))) d e"
    unfolding send_file_end_def by (rule send_header_calm [OF d(2)])
  note st = sent_trans [OF d(3) e(3)]
  have "run_state (send_remote_large_file sock cfg task lfd wid) w = run_state (do {
       ok \<leftarrow> wait_for_ack sock;
       (if ok = 0 then do {
          _ \<leftarrow> log_message lfd LOG_INFO (success_text wid task (''large-file resume offset='' @ dec n) ?hash);
          ret ok
        }
        else ret ok)
     }) e"
    unfolding send_remote_large_file_def with_socket_calm [OF sc ip]
    using a(1) op hash sk ml u by (simp add: and_then_run [OF sb] and_then_run [OF e(1)] cong: if_cong)
  moreover have "w_tx e sock = w_tx w sock @ large_request task ?hash ?bs s n"
    using st a(4) by (simp add: sent_def large_request_def)
  ultimately show thesis using that e(2) st a(3) by (simp add: sent_def)
qed

lemma large_file_sent:
  assumes "w_script w = []" and "fs_find w (t_src_path task) = Inr (Reg s ms ts)"
    and "inet_pton_ok (cc_server_ip cfg)" "0 \<le> sock" and "length (t_rel_path task) \<le> MAX_NET_PATH"
    and "0 < cc_block_size cfg" and "n < 2 ^ 63" and lfd: "lfd \<noteq> sock"
    and rx: "w_rx w sock = header_bytes (offset_header n) @ header_bytes (ack_header off)"
  obtains w' where "run_state (send_remote_large_file sock cfg task lfd wid) w = (0, w')"
    "w_tx w' sock = w_tx w sock @ large_request task (hash_buffer_fnv1a s) (nat (cc_block_size cfg)) s n"
proof -
  obtain f where f: "w_script f = []" "w_rx f sock = header_bytes (ack_header off)"
    "w_tx f sock = w_tx w sock @ large_request task (hash_buffer_fnv1a s) (nat (cc_block_size cfg)) s n"
    "run_state (send_remote_large_file sock cfg task lfd wid) w = run_state (do {
       ok \<leftarrow> wait_for_ack sock;
       (if ok = 0 then do {
          _ \<leftarrow> log_message lfd LOG_INFO (success_text wid task (''large-file resume offset='' @ dec n)
            (hash_buffer_fnv1a s));
          ret ok
        }
        else ret ok)
     }) f" by (rule large_file_requested [OF assms(1-7) rx])
  have "w_rx f sock = header_bytes (ack_header off) @ []" using f(2) by simp
  from wait_for_ack_calm [OF f(1) this] obtain g where g: "run_state (wait_for_ack sock) f = (0, g)"
    "w_tx g sock = w_tx f sock" by blast
  obtain u w' where lg: "run_state (log_message lfd LOG_INFO (success_text wid task
      (''large-file resume offset='' @ dec n) (hash_buffer_fnv1a s))) g = (u, w')" by (rule prod.exhaust)
  have "run_state (send_remote_large_file sock cfg task lfd wid) w = (0, w')" using f(4) g(1) lg by simp
  moreover have "w_tx w' sock = w_tx g sock"
    using talks_elsewhere [OF tkr.runD [OF log_message_talks lg] lfd] by (simp add: sent_def)
  ultimately show thesis using that f(3) g(2) by simp
qed

end
