(* ===== verification/Resume.thy ===== *)
theory Resume
  imports LargeSuccess
begin

text \<open>
  The server's side of a large file: the answer to an offset query, the blocks that are added to the
  temporary file that is there, and the end of a transfer for which no block is left to send.
\<close>

section \<open>The offset query\<close>

abbreviation tmp_file :: "path \<Rightarrow> string \<Rightarrow> path" where
  "tmp_file root rel \<equiv> current_file root rel @ ''.syncing''"

lemma stored_size:
  assumes "w_script w = []" and "file_place w p"
  shows "run_state (get_file_size p) w =
    (if fs_get (w_fs w) (pkey w p) = None then None else Some (int (length (file_bytes w p))), w)"
proof (cases "fs_get (w_fs w) (pkey w p)")
  case None
  then show ?thesis using file_place_find [OF assms(2)] assms(1)
    by (simp add: get_file_size_def sys_stat_def run_syscall)
next
  case (Some n)
  then obtain b m t where "n = Reg b m t" using assms(2) by (auto simp: file_place_def elim: is_reg_nodeE)
  then show ?thesis using Some file_place_find [OF assms(2)] assms(1)
    by (simp add: get_file_size_def sys_stat_def run_syscall file_bytes_def)
qed

lemma query_answered:
  assumes "w_script w = []" and "file_place w (tmp_file root rel)" and "sanitize_rel_path rel = 0"
    and "length (current_file root rel) + 8 < MAX_PATH_LEN"
  obtains w' where "run_state (server_handle_query_offset fd root rel) w = (0, w')" "talks fd w w'" "w_script w' = []"
    "w_tx w' fd = w_tx w fd @ header_bytes (offset_header (length (file_bytes w (tmp_file root rel))))"
    "w_rx w' fd = w_rx w fd"
proof -
  let ?n = "length (file_bytes w (tmp_file root rel))"
  obtain w' where w': "run_state (send_header fd (offset_header ?n)) w = (0, w')" "w_script w' = []"
    "sent fd (header_bytes (offset_header ?n)) w w'" by (rule send_header_calm [OF assms(1)])
  have "(case (if fs_get (w_fs w) (pkey w (tmp_file root rel)) = None then None else Some (int ?n)) of
      None \<Rightarrow> 0 | Some n \<Rightarrow> n) = int ?n" by (simp add: file_bytes_def)
  then have "run_state (server_handle_query_offset fd root rel) w = (0, w')"
    using w'(1) current_and_tmp_fits [OF assms(3,4)] stored_size [OF assms(1,2)]
    by (simp add: server_handle_query_offset_def Let_def)
  then show thesis using that w' tkr.runD [OF send_header_talks w'(1)] by (simp add: sent_def)
qed

text \<open>The first round of a connection that starts with the query.\<close>

lemma query_round:
  assumes sc: "w_script w = []" and fp: "file_place w (tmp_file root rel)" and san: "sanitize_rel_path rel = 0"
    and cs: "is_cstr rel" and net: "length rel \<le> MAX_NET_PATH" and len: "length (current_file root rel) + 8 < MAX_PATH_LEN"
    and rx: "w_rx w fd = header_bytes (query_header rel) @ rel @ rest"
  obtains w' where "connection fd root lp l w = connection fd root lp rel w'" "w_script w' = []"
    "w_rx w' fd = rest" "w_fs w' = w_fs w" "w_cwd w' = w_cwd w" "w_time w' = w_time w" "w_localtime w' = w_localtime w"
    "w_tx w' fd = w_tx w fd @ header_bytes (offset_header (length (file_bytes w (tmp_file root rel))))"
proof -
  note qh = query_header_simps [OF net]
  obtain w1 where w1: "run_state (recv_header fd) w = (Some (query_header rel), w1)" "talks fd w w1"
    "w_rx w1 fd = rel @ rest" "w_script w1 = []" "w_tx w1 fd = w_tx w fd"
    by (rule recv_header_calm [OF sc rx qh(3)])
  have ne: "rel \<noteq> []" using san by (auto simp: sanitize_rel_path_def)
  then have pl: "h_path_len (query_header rel) \<noteq> 0" using qh(1) by auto
  obtain x w2 where p: "run_state (recv_path fd (MAX_NET_PATH + 1) (length rel)) w1 = (x, w2)" by (rule prod.exhaust)
  have x: "x = Some rel" "w_rx w2 fd = rest"
    using recv_path_result(3) [OF p calm_benign [OF w1(4)] _ net w1(3)] net by simp_all
  note t2 = tkr.runD [OF recv_path_talks p]
  note ts = talks_simps [OF tkr.trans [OF w1(2) t2]]
  have sc2: "w_script w2 = []" using talks_simps(15) [OF t2 w1(4)] .
  have fp2: "file_place w2 (tmp_file root rel)" using fp ts(1,7) by (simp add: file_place_def)
  obtain w3 where w3: "run_state (server_handle_query_offset fd root rel) w2 = (0, w3)" "talks fd w2 w3" "w_script w3 = []"
    "w_tx w3 fd = w_tx w2 fd @ header_bytes (offset_header (length (file_bytes w2 (tmp_file root rel))))"
    "w_rx w3 fd = w_rx w2 fd" by (rule query_answered [OF sc2 fp2 san len])
  note t3 = talks_simps [OF w3(2)]
  obtain u w4 where lg: "run_state (server_log lp LOG_INFO
      (''server: msg='' @ msg_type_to_string (h_msg_type (query_header rel)) @ '' path='' @ cstr rel @ '' rc='' @ show_int 0)) w3 = (u, w4)"
    by (rule prod.exhaust)
  have lo: "logs_only w3 w4" by (rule lgr.runD [OF server_log_logs lg])
  have "run_state (connection_round fd root lp l (query_header rel)) w1 = (Inr rel, w4)"
    using qh pl p x(1) w3(1) lg cs by (simp add: connection_round_def handle_message_def)
  then have "connection fd root lp l w = connection fd root lp rel w4"
    using w1(1) by (simp add: connection.simps [of _ _ _ _ w])
  moreover have "w_tx w2 fd = w_tx w fd" using recv_path_result(1) [OF p] w1(5) by simp
  ultimately show thesis
    using that lo w3 x(2) ts(1,2,5,6,14) t3(1,2,5,6) by (auto simp: logs_only_def)
qed

section \<open>No block left\<close>

text \<open>A FILE_END that follows the query is refused, and nothing of the tree changes.\<close>

lemma refuse_calm:
  assumes "w_script w = []"
  obtains w' where "run_state (refuse fd msg) w = (- 1, w')" "talks fd w w'"
    "w_tx w' fd = w_tx w fd @ header_bytes (error_header msg) @ take (unat (h_path_len (error_header msg))) msg"
proof -
  let ?m = "take (unat (h_path_len (error_header msg))) msg"
  obtain w1 where w1: "run_state (send_header fd (error_header msg)) w = (0, w1)" "w_script w1 = []"
    "sent fd (header_bytes (error_header msg)) w w1" by (rule send_header_calm [OF assms])
  obtain r w' where r: "run_state (write_full fd ?m) w1 = (r, w')" by (rule prod.exhaust)
  have tx: "w_tx w' fd = w_tx w1 fd @ ?m"
    using write_full_result(4) [OF r benign_retryable [OF calm_benign [OF w1(2)]]] by simp
  obtain x where s: "run_state (send_error fd msg) w = (x, w')"
    using w1(1) r by (auto simp: send_error_def Let_def)
  then have "run_state (refuse fd msg) w = (- 1, w')" by (simp add: refuse_def)
  then show thesis
    using that [OF _ tkr.runD [OF send_error_talks s]] tx w1(3) by (simp add: sent_def)
qed

lemma end_refused:
  assumes sc: "w_script w = []" and rx: "w_rx w fd = header_bytes e @ rest" and e: "validate_sync_header e = 0"
    "h_msg_type e = MSG_FILE_END" "h_path_len e = 0"
  obtains w' where "connection fd root lp l w = (- 1, w')" "w_fs w' = w_fs w" "w_cwd w' = w_cwd w"
    "w_tx w' fd = w_tx w fd @ header_bytes (error_header ''unknown message type'') @ ''unknown message type''"
proof -
  obtain w1 where w1: "run_state (recv_header fd) w = (Some e, w1)" "talks fd w w1" "w_script w1 = []"
    "w_tx w1 fd = w_tx w fd" using recv_header_calm [OF sc rx e(1)] by blast
  let ?msg = "''unknown message type''"
  obtain w2 where w2: "run_state (refuse fd ?msg) w1 = (- 1, w2)" "talks fd w1 w2"
    "w_tx w2 fd = w_tx w1 fd @ header_bytes (error_header ?msg) @ take (unat (h_path_len (error_header ?msg))) ?msg"
    by (rule refuse_calm [OF w1(3)])
  have pl: "take (unat (h_path_len (error_header ?msg))) ?msg = ?msg"
    by (simp add: error_header_def init_sync_header_def Let_def)
  obtain u w3 where lg: "run_state (server_log lp LOG_ERROR (''server: msg='' @ msg_type_to_string (h_msg_type e) @
      '' path='' @ cstr [] @ '' rc='' @ show_int (- 1))) w2 = (u, w3)" by (rule prod.exhaust)
  have lo: "logs_only w2 w3" by (rule lgr.runD [OF server_log_logs lg])
  have "run_state (connection_round fd root lp l e) w1 = (Inl (- 1), w3)"
    using e w2(1) lg by (simp add: connection_round_def handle_message_def)
  then have "connection fd root lp l w = (- 1, w3)" using w1(1) by (simp add: connection.simps [of _ _ _ _ w])
  then show thesis
    using that lo w2(3) w1(4) pl talks_simps(1,2) [OF w1(2)] talks_simps(1,2) [OF w2(2)]
    by (auto simp: logs_only_def)
qed

section \<open>Adding to the temporary file\<close>

text \<open>The room stays when only the temporary file is written.\<close>

lemma room_while_writing:
  assumes room: "room_for root rel w" and san: "sanitize_rel_path rel = 0" and "calm w'" and clock: "clock_kept w w'"
    and same: "fs_same (w_cwd w) {pkey w (tmp_file root rel)} w w'"
    and reg: "is_reg_node (fs_get (w_fs w') (pkey w' (tmp_file root rel)))"
  shows "room_for root rel w'"
proof -
  let ?cur = "current_file root rel" and ?v = "stamped_file ''.versions'' w root rel"
  have root: "root \<noteq> []" and rep: "replaceable w ?cur" using room by (simp_all add: room_for_def)
  have pk: "pkey w' p = pkey w p" for p using same by (simp add: fs_same_def pkey_def)
  have kept: "fs_get (w_fs w') k = fs_get (w_fs w) k" if "k \<noteq> pkey w (tmp_file root rel)" for k
    using same that by (simp add: fs_same_def)
  have dn: "?cur \<noteq> []" using rep by (simp add: replaceable_def file_place_def)
  have ct: "pkey w ?cur \<noteq> pkey w (tmp_file root rel)" using tmp_not_dst [OF dn, of w] by auto
  have pc: "parents_clear w' p" if "parents_clear w p" "pkey w (tmp_file root rel) \<notin> parent_keys w p" for p
    using that kept unfolding parents_clear_def list_all_iff pk by (metis imageI)
  have fp: "file_place w' p" if "file_place w p" "pkey w p \<noteq> pkey w (tmp_file root rel)" for p
    using same_file_place [OF that(1) same] that(2) by simp
  have ft: "file_place w' (tmp_file root rel)" using rep reg by (auto simp: replaceable_def file_place_def)
  have rep': "replaceable w' ?cur"
    using rep fp ft ct pc replaceable_own(2) [OF rep] by (simp add: replaceable_def)
  have "version_ready w' root rel"
  proof (cases "fs_get (w_fs w') (pkey w' ?cur) = None")
    case True
    then show ?thesis by (simp add: version_ready_def)
  next
    case False
    then have "fs_get (w_fs w) (pkey w ?cur) \<noteq> None" using kept [OF ct] by (simp add: pk)
    then have V: "length (stamp_text (w_localtime w (w_time w))) < 64" "replaceable w ?v"
      using room by (simp_all add: room_for_def version_ready_def)
    have "prefix (path_key (w_cwd w) root @ [''current'']) (pkey w (tmp_file root rel))"
      unfolding current_syncing [OF san] pkey_def using dotdot_suffix [OF sanitize_no_dotdot [OF san]] root
        joined_sub_nonempty [of "''current''" root]
      by (simp add: path_key_joined [of "joined root ''current''"] key_sub)
    from version_apart [OF root san V(2) refl this]
    have ap: "pkey w (tmp_file root rel) \<notin> parent_keys w ?v" "pkey w ?v \<noteq> pkey w (tmp_file root rel)"
      "pkey w (?v @ ''.syncing'') \<noteq> pkey w (tmp_file root rel)" by auto
    have "replaceable w' ?v" using V(2) fp ap pc by (simp add: replaceable_def)
    moreover have "stamped_file ''.versions'' w' root rel = ?v" using clock by (simp add: stamped_file_def clock_kept_def)
    ultimately show ?thesis using V(1) clock by (simp add: version_ready_def clock_kept_def)
  qed
  then show ?thesis using assms(3) root rep' by (simp add: room_for_def)
qed

lemma opened_kept:
  assumes "calm w" and "parents_there w dst" and fp: "file_place w (dst @ ''.syncing'')"
  obtains w' m t where "run_state (sys_open_wr (dst @ ''.syncing'') False mo) w = (Inr (), w')" "calm w'"
    "fs_same (w_cwd w) {pkey w (dst @ ''.syncing'')} w w'" "w_cwd w' = w_cwd w"
    "fs_get (w_fs w') (pkey w (dst @ ''.syncing'')) = Some (Reg (file_bytes w (dst @ ''.syncing'')) m t)"
proof -
  let ?tmp = "dst @ ''.syncing''"
  have pt: "parents_there w ?tmp" using assms(2) by (simp add: parents_there_def)
  obtain w' where o: "run_state (sys_open_wr ?tmp False mo) w = (Inr (), w')" by (rule open_wr_run [OF assms(1) pt fp])
  note e = open_wr_Inr [OF o]
  have same: "fs_same (w_cwd w) {pkey w ?tmp} w w'" using e by (simp add: fs_same_def)
  have "\<exists>m t. fs_get (w_fs w') (pkey w ?tmp) = Some (Reg (file_bytes w ?tmp) m t)"
    using e fp by (cases "fs_get (w_fs w) (pkey w ?tmp)") (auto simp: file_place_def file_bytes_def elim: is_reg_nodeE)
  then show thesis using that [OF o calm_opened [OF assms(1) fp o] same] e by blast
qed

lemma first_block_calm:
  assumes calm: "calm w" and rx: "w_rx w fd = d @ rest" and fits: "block_fits (h, d)" and hh: "h_block_hash h = hash_buffer_fnv1a d"
    and g: "fs_get (w_fs w) (pkey w out) = Some (Reg b mo ti)"
  obtains w' t where "run_state (first_block_stored fd h out) w = (True, w')" "calm w'" "w_rx w' fd = rest"
    "fs_same (w_cwd w) {pkey w out} w w'" "fs_get (w_fs w') (pkey w' out) = Some (Reg (splice (unat (h_offset h)) d b) mo t)"
proof -
  have sc: "w_script w = []" using calm by (simp add: calm_def)
  have h: "unat (h_data_len h) = length d" "0 \<le> sint (h_offset h)"
    using fits by (auto simp: block_fits_def block_ok_def)
  obtain w1 w' t where S: "run_state (read_full fd (length d)) w = (Some d, w1)"
    "run_state (sys_pwrite out d (h_offset h)) w1 = (Inr (length d), w')" "w_rx w' fd = rest" "w_cwd w' = w_cwd w"
    "fs_get (w_fs w') (pkey w' out) = Some (Reg (splice (unat (h_offset h)) d b) mo t)"
    using read_and_store [OF sc rx h(2) g] by blast
  have run: "run_state (first_block_stored fd h out) w = (True, w')"
    using h(1) hh S(1,2) by (simp add: first_block_stored_def)
  have same: "fs_same (w_cwd w) {pkey w out} w w'" by (rule fsr.runD [OF fsb.first_block run]) (simp add: pkey_def)
  have "w_cwd w \<noteq> pkey w out" using calm g by (auto simp: calm_def)
  moreover have "fs_confined (w_cwd w) {pkey w out} w w'" using same by (auto simp: fs_same_def fs_confined_def)
  ultimately have "calm w'"
    using calm_kept [OF calm wfr.runD [OF wwf.first_block [OF TrueI] run] sur.runD [OF sub.first_block [OF TrueI] run]] by blast
  then show thesis using that run S(3,5) same by blast
qed

section \<open>A large file\<close>

interpretation ckb: block_relation clock_kept "\<lambda>_. True"
proof unfold_locales
  show "state_io_rel clock_kept (sys_fwrite p pos d)" for p pos d by (rule clock_kept_mutators(3))
  show "state_io_rel clock_kept (read_full fd n)" for fd n
    by (rule state_io_relI) (simp add: clock_kept_def talks_simps(5,6) [OF tkr.runD [OF read_full_talks]])
qed

lemma tmp_not_in_versions:
  assumes "root \<noteq> []" and "sanitize_rel_path rel = 0"
  shows "path_key c (tmp_file root rel) \<notin> versions_area c root"
  unfolding current_syncing [OF assms(2)]
  using dotdot_suffix [OF sanitize_no_dotdot [OF assms(2)]] assms(1) joined_sub_nonempty [of "''current''" root]
  by (simp add: path_key_joined [of "joined root ''current''"] key_sub versions_area_def)

lemma large_tx: "run_state (large_transfer fd h root rel tmp dst) w = (r, w') \<Longrightarrow> w_tx w' = w_tx w"
proof -
  assume run: "run_state (large_transfer fd h root rel tmp dst) w = (r, w')"
  have "state_io_rel tx_same (large_transfer fd h root rel tmp dst)"
    unfolding large_transfer_def Let_def
    by (intro txr.rules txr.recv_until_end txr.first_block txr.calls txr.looking txr.safe_rename txr.set_metadata
        tx_versions TrueI)
  then show ?thesis using txr.runD [OF _ run] by (simp add: tx_same_def)
qed

text \<open>The blocks have been received: the state before the old version is kept.\<close>

lemma large_received:
  assumes room: "room_for root rel w" and san: "sanitize_rel_path rel = 0"
    and g: "fs_get (w_fs w) (pkey w (tmp_file root rel)) = Some (Reg b mo ti)"
    and blk: "block_fits (h, d)" "h_block_hash h = hash_buffer_fnv1a d"
    and fits: "stream_fits a bs e (apply_blocks ((h, d) # bs) b)" and rx: "w_rx w fd = d @ stream_of bs e @ rest"
  obtains w1 w2 t where "run_state (first_block_stored fd h (tmp_file root rel)) w = (True, w1)"
    "recv_blocks fd (tmp_file root rel) 0 w1 = ((0, e), w2)" "room_for root rel w2"
    "fs_same (w_cwd w) {pkey w (tmp_file root rel)} w w2"
    "fs_get (w_fs w2) (pkey w2 (tmp_file root rel)) = Some (Reg (apply_blocks ((h, d) # bs) b) mo t)"
proof -
  let ?tmp = "tmp_file root rel"
  have calm: "calm w" using room by (simp add: room_for_def)
  obtain w1 t1 where w1: "run_state (first_block_stored fd h ?tmp) w = (True, w1)" "calm w1"
    "w_rx w1 fd = stream_of bs e @ rest" "fs_same (w_cwd w) {pkey w ?tmp} w w1"
    "fs_get (w_fs w1) (pkey w1 ?tmp) = Some (Reg (splice (unat (h_offset h)) d b) mo t1)"
    by (rule first_block_calm [OF calm rx blk g])
  have ap: "apply_blocks ((h, d) # bs) b = apply_blocks bs (splice (unat (h_offset h)) d b)"
    by (simp add: apply_blocks_def)
  obtain w2 t2 where w2: "recv_blocks fd ?tmp 0 w1 = ((0, e), w2)" "calm w2" "fs_same (w_cwd w1) {pkey w1 ?tmp} w1 w2"
    "fs_get (w_fs w2) (pkey w2 ?tmp) = Some (Reg (apply_blocks ((h, d) # bs) b) mo t2)"
    using recv_blocks_stored [OF w1(2,5) fits [unfolded ap] _ w1(3)] unfolding ap by blast
  have same: "fs_same (w_cwd w) {pkey w ?tmp} w w2"
    using w1(4) w2(3) by (simp add: fs_same_def pkey_def)
  have "clock_kept w w2"
    by (rule ckr.trans [OF ckr.runD [OF ckb.first_block [OF TrueI] w1(1)] ckb.recv_blocks [OF w2(1) TrueI]])
  then have "room_for root rel w2"
    by (rule room_while_writing [OF room san w2(2) _ same]) (simp add: w2(4))
  then show thesis using that w1(1) w2(1,4) same by blast
qed

lemma large_transfer_calm:
  assumes room: "room_for root rel w" and san: "sanitize_rel_path rel = 0" and pt: "parents_there w (current_file root rel)"
    and g: "fs_get (w_fs w) (pkey w (tmp_file root rel)) = Some (Reg b mo ti)"
    and blk: "block_fits (h, d)" "h_block_hash h = hash_buffer_fnv1a d"
    and fits: "stream_fits (h_total_hash h) bs e (apply_blocks ((h, d) # bs) b)"
    and rx: "w_rx w fd = d @ stream_of bs e @ rest"
  obtains w' m t where "run_state (large_transfer fd h root rel (tmp_file root rel) (current_file root rel)) w = (0, w')"
    "w_script w' = []" "fs_get (w_fs w') (pkey w (current_file root rel)) = Some (Reg (apply_blocks ((h, d) # bs) b) m t)"
proof -
  let ?cur = "current_file root rel" and ?tmp = "tmp_file root rel" and ?b = "apply_blocks ((h, d) # bs) b"
  obtain w1 w2 t2 where R: "run_state (first_block_stored fd h ?tmp) w = (True, w1)"
    "recv_blocks fd ?tmp 0 w1 = ((0, e), w2)" "room_for root rel w2" "fs_same (w_cwd w) {pkey w ?tmp} w w2"
    "fs_get (w_fs w2) (pkey w2 ?tmp) = Some (Reg ?b mo t2)" by (rule large_received [OF room san g blk fits rx])
  have r2: "calm w2" "root \<noteq> []" "replaceable w2 ?cur" "version_ready w2 root rel" using R(3) by (simp_all add: room_for_def)
  have sc2: "w_script w2 = []" using r2(1) by (simp add: calm_def)
  have fsy: "run_state (sys_fsync ?tmp) w2 = (Inr (), w2)" by (simp add: sys_fsync_def run_syscall sc2)
  have "fs_find w2 ?tmp = Inr (Reg ?b mo t2)"
    using R(5) r2(3) by (auto simp: fs_find_def file_place_def replaceable_def)
  note hash = hash_file_exact [OF sc2 this]
  obtain w3 where w3: "run_state (backup_old_version root rel) w2 = (0, w3)" "calm w3" "replaceable w3 ?cur"
    by (rule backup_succeeds [OF r2(1,2) san r2(3,4)])
  have cur: "length ?cur + 8 < MAX_PATH_LEN" "?cur \<noteq> []" "''..'' \<notin> set (split_on slash ?cur)"
    using r2(3) by (simp_all add: replaceable_def file_place_def)
  have conf: "fs_confined (w_cwd w2) (versions_area (w_cwd w2) root) w2 w3" by (rule backup_only_versions [OF w3(1)])
  have pk: "pkey w3 p = pkey w2 p" "pkey w2 p = pkey w p" for p
    using confined_pkey [OF conf] R(4) by (simp_all add: fs_same_def pkey_def)
  have g3: "fs_get (w_fs w3) (pkey w3 ?tmp) = Some (Reg ?b mo t2)"
    using confined_keeps [OF conf] tmp_not_in_versions [OF r2(2) san, of "w_cwd w2"] R(5) pk(1) by (simp add: pkey_def)
  have "parents_there w2 ?cur" by (rule parents_same [OF pt R(4)]) (simp add: g)
  note pt3 = parents_after_backup [OF this w3(1) r2(2) san cur(3)]
  have fp3: "file_place w3 ?cur" "file_place w3 ?tmp" using w3(3) by (simp_all add: replaceable_def)
  obtain w4 m4 t4 where w4: "run_state (safe_rename_or_copy_unlink ?tmp ?cur) w3 = (0, w4)" "calm w4"
    "fs_get (w_fs w4) (pkey w3 ?cur) = Some (Reg ?b m4 t4)" by (rule replace_target [OF w3(2) pt3 fp3 cur(1,2) g3])
  obtain x w5 where md: "run_state (set_file_metadata ?cur (h_mode h) (sint (h_mtime h))) w4 = (x, w5)"
    by (rule prod.exhaust)
  have "run_state (large_transfer fd h root rel ?tmp ?cur) w = (0, w5)"
    using R(1,2) fsy hash w3(1) w4(1) md fits
    by (cases "h_total_hash e = 0"; cases "h_total_hash h = 0")
      (simp_all add: large_transfer_def recv_file_blocks_until_end_def Let_def stream_fits_def)
  moreover have "w_script w5 = []"
    using w4(2) script_stays_empty [OF _ sur.runD [OF suf.set_metadata [OF TrueI] md]] by (simp add: calm_def)
  moreover obtain m t where "fs_get (w_fs w5) (pkey w ?cur) = Some (Reg ?b m t)"
    using metadata_content [OF md w4(3)] pk by auto
  ultimately show thesis using that by blast
qed

text \<open>The handler of a block that starts a stream.\<close>

lemma handle_large_calm:
  assumes room: "room_for root rel w" and san: "sanitize_rel_path rel = 0"
    and blk: "block_fits (h, d)" "h_block_hash h = hash_buffer_fnv1a d"
    and fits: "stream_fits (h_total_hash h) bs e (apply_blocks ((h, d) # bs) (file_bytes w (tmp_file root rel)))"
    and rx: "w_rx w fd = d @ stream_of bs e @ rest"
  obtains w' m t where "run_state (handle_large_block_stream fd h root rel) w = (0, w')" "w_script w' = []"
    "w_tx w' fd = w_tx w fd @ header_bytes (ack_header (h_file_size h))"
    "fs_get (w_fs w') (pkey w (current_file root rel)) =
       Some (Reg (apply_blocks ((h, d) # bs) (file_bytes w (tmp_file root rel))) m t)"
proof -
  let ?cur = "current_file root rel" and ?tmp = "tmp_file root rel" and ?mo = "if h_mode h \<noteq> 0 then h_mode h else 0x1A4"
  have R: "calm w" "root \<noteq> []" "replaceable w ?cur" using room by (simp_all add: room_for_def)
  have cur: "length ?cur + 8 < MAX_PATH_LEN" "length ?cur < MAX_PATH_LEN" "parents_clear w ?cur" "?cur \<noteq> []"
    using R(3) by (simp_all add: replaceable_def file_place_def)
  obtain w1 where w1: "run_state (ensure_parent_dir_exists ?cur) w = (0, w1)" "calm w1" "parents_there w1 ?cur"
    "fs_confined (w_cwd w) {} w w1" "fs_same (w_cwd w) (parent_keys w ?cur) w w1"
    by (rule ensure_parent_succeeds [OF R(1) cur(3,2,4)])
  note s1 = ssr.runD [OF ssf.ensure_parent [OF TrueI] w1(1)] and k1 = ckr.runD [OF ckf.ensure_parent [OF TrueI] w1(1)]
  have room1: "room_for root rel w1" by (rule room_kept [OF room san w1(2,4) k1 w1(5)])
  have b1: "file_bytes w1 ?tmp = file_bytes w ?tmp"
    using w1(5) replaceable_own(2) [OF R(3)] confined_pkey [OF w1(4)] by (simp add: file_bytes_def fs_same_def)
  have ft1: "file_place w1 ?tmp" using room1 by (simp add: room_for_def replaceable_def)
  obtain w2 m2 t2 where w2: "run_state (sys_open_wr ?tmp False ?mo) w1 = (Inr (), w2)" "calm w2"
    "fs_same (w_cwd w1) {pkey w1 ?tmp} w1 w2" "w_cwd w2 = w_cwd w1"
    "fs_get (w_fs w2) (pkey w1 ?tmp) = Some (Reg (file_bytes w1 ?tmp) m2 t2)"
    by (rule opened_kept [OF w1(2,3) ft1])
  note s2 = ssr.runD [OF ssf.open_wr [OF TrueI] w2(1)] and k2 = ckr.runD [OF clock_kept_mutators(2) w2(1)]
  have pk: "pkey w2 p = pkey w1 p" "pkey w1 p = pkey w p" for p
    using w2(4) confined_pkey [OF w1(4)] by (simp_all add: pkey_def)
  have g2: "fs_get (w_fs w2) (pkey w2 ?tmp) = Some (Reg (file_bytes w ?tmp) m2 t2)" using w2(5) b1 pk(1) by simp
  have room2: "room_for root rel w2"
    by (rule room_while_writing [OF room1 san w2(2) k2 w2(3)]) (simp add: g2)
  have pt2: "parents_there w2 ?cur"
    by (rule parents_same [OF w1(3) w2(3)]) (use file_place_not_dir [OF ft1] in simp)
  have st: "w_rx w2 = w_rx w" "w_tx w2 = w_tx w" using s1 s2 by (simp_all add: streams_same_def)
  have rx2: "w_rx w2 fd = d @ stream_of bs e @ rest" using rx st by simp
  obtain w3 m t where w3: "run_state (large_transfer fd h root rel ?tmp ?cur) w2 = (0, w3)" "w_script w3 = []"
    "fs_get (w_fs w3) (pkey w2 ?cur) = Some (Reg (apply_blocks ((h, d) # bs) (file_bytes w ?tmp)) m t)"
    by (rule large_transfer_calm [OF room2 san pt2 g2 blk fits rx2])
  have tx3: "w_tx w3 = w_tx w" using large_tx [OF w3(1)] st by simp
  obtain w4 where w4: "run_state (accept_with fd (h_file_size h)) w3 = (0, w4)" "talks fd w3 w4" "w_script w4 = []"
    "w_tx w4 fd = w_tx w3 fd @ header_bytes (ack_header (h_file_size h))" by (rule accept_calm [OF w3(2)])
  have "w_script w2 = []" using w2(2) by (simp add: calm_def)
  then have "run_state (handle_large_block_stream fd h root rel) w = (0, w4)"
    using current_and_tmp_fits [OF san cur(1)] w1(1) w2(1) w3(1) w4(1)
    by (simp add: handle_large_block_stream_def sys_malloc_def run_syscall)
  then show thesis using that w4(3,4) tx3 w3(3) pk talks_simps(1) [OF w4(2)] by simp
qed

text \<open>A stream of blocks is the second round of a connection.\<close>

lemma connection_block:
  assumes room: "room_for root rel w" and san: "sanitize_rel_path rel = 0"
    and blk: "block_fits (h, d)" "h_block_hash h = hash_buffer_fnv1a d" "h_path_len h = 0"
    and fits: "stream_fits (h_total_hash h) bs e (apply_blocks ((h, d) # bs) (file_bytes w (tmp_file root rel)))"
    and rx: "w_rx w fd = stream_of ((h, d) # bs) e @ rest"
  obtains w' m t where "connection fd root lp rel w = (0, w')"
    "w_tx w' fd = w_tx w fd @ header_bytes (ack_header (h_file_size h))"
    "fs_get (w_fs w') (pkey w (current_file root rel)) =
       Some (Reg (apply_blocks ((h, d) # bs) (file_bytes w (tmp_file root rel))) m t)"
proof -
  have sc: "w_script w = []" using room by (simp add: room_for_def calm_def)
  have h: "validate_sync_header h = 0" "h_msg_type h = MSG_FILE_BLOCK"
    using blk(1) by (auto simp: block_fits_def block_ok_def)
  have "w_rx w fd = header_bytes h @ d @ stream_of bs e @ rest" using rx by (simp add: block_bytes_def)
  from recv_header_calm [OF sc this h(1)] obtain w1 where w1: "run_state (recv_header fd) w = (Some h, w1)" "talks fd w w1"
    "w_rx w1 fd = d @ stream_of bs e @ rest" "w_script w1 = []" "w_tx w1 fd = w_tx w fd" by blast
  note ts = talks_simps [OF w1(2)]
  have room1: "room_for root rel w1" using room room_same [of w1 w] ts(1,2,5,6) w1(4) sc by simp
  have fits1: "stream_fits (h_total_hash h) bs e (apply_blocks ((h, d) # bs) (file_bytes w1 (tmp_file root rel)))"
    using fits ts(14) by simp
  obtain w2 m t where w2: "run_state (handle_large_block_stream fd h root rel) w1 = (0, w2)" "w_script w2 = []"
    "w_tx w2 fd = w_tx w1 fd @ header_bytes (ack_header (h_file_size h))"
    "fs_get (w_fs w2) (pkey w1 (current_file root rel)) =
       Some (Reg (apply_blocks ((h, d) # bs) (file_bytes w1 (tmp_file root rel))) m t)"
    by (rule handle_large_calm [OF room1 san blk(1,2) fits1 w1(3)])
  obtain u w3 where lg: "run_state (server_log lp LOG_INFO (''server: msg='' @ msg_type_to_string (h_msg_type h) @
      '' path='' @ cstr [] @ '' rc='' @ show_int 0)) w2 = (u, w3)" by (rule prod.exhaust)
  have lo: "logs_only w2 w3" by (rule lgr.runD [OF server_log_logs lg])
  have ne: "rel \<noteq> []" using san by (auto simp: sanitize_rel_path_def)
  have "run_state (connection_round fd root lp rel h) w1 = (Inl 0, w3)"
    using h blk(3) w2(1) lg ne by (simp add: connection_round_def handle_message_def)
  then have "connection fd root lp rel w = (0, w3)" using w1(1) by (simp add: connection.simps [of _ _ _ _ w])
  then show thesis using that lo w2(3,4) w1(5) ts(7,14) by (simp add: logs_only_def)
qed

section \<open>Client and server\<close>

text \<open>What a client needs to send a large file, and what the server then finds.\<close>

definition large_ready :: "client_config \<Rightarrow> int \<Rightarrow> int \<Rightarrow> sync_task \<Rightarrow> bytes \<Rightarrow> world \<Rightarrow> bool" where
  "large_ready cfg sock lfd task s w \<longleftrightarrow> w_script w = [] \<and> 0 \<le> sock \<and> lfd \<noteq> sock \<and>
     inet_pton_ok (cc_server_ip cfg) \<and> 0 < cc_block_size cfg \<and> nat (cc_block_size cfg) \<le> MAX_BLOCK \<and>
     length s < 2 ^ 63 \<and> sint (t_file_size task) > cc_hash_threshold cfg \<and>
     length (t_rel_path task) \<le> MAX_NET_PATH \<and>
     (case fs_find w (t_src_path task) of Inr (Reg b m t) \<Rightarrow> b = s | _ \<Rightarrow> False)"

lemma large_readyD:
  assumes "large_ready cfg sock lfd task s w"
  obtains m t where "fs_find w (t_src_path task) = Inr (Reg s m t)"
  using assms by (auto simp: large_ready_def split: sum.splits node.splits)

text \<open>A task for such a file is a transfer of a large file.\<close>

lemma large_task:
  assumes "large_ready cfg sock lfd task s w" and "sanitize_rel_path (t_rel_path task) = 0" and "t_is_dir task = 0"
    and "t_event_type task \<noteq> EVENT_DELETE" and "t_event_type task \<noteq> EVENT_RENAME"
  shows "run_state (sync_task_remote sock cfg task lfd wid) w = run_state (send_remote_large_file sock cfg task lfd wid) w"
proof -
  obtain m t where src: "fs_find w (t_src_path task) = Inr (Reg s m t)" by (rule large_readyD [OF assms(1)])
  have sc: "w_script w = []" and th: "sint (t_file_size task) > cc_hash_threshold cfg"
    using assms(1) by (simp_all add: large_ready_def)
  have "run_state (sync_file_remote sock cfg task lfd wid) w = run_state (send_remote_large_file sock cfg task lfd wid) w"
    using is_regular_exact [of w "t_src_path task"] src sc open_rd_run [OF sc src] th
    by (simp add: sync_file_remote_def no_failure_def try_read_lock_def unlock_file_def sys_setlk_def run_syscall)
  then show ?thesis using assms(2-5) by (simp add: sync_task_remote_def)
qed

abbreviation request_of :: "client_config \<Rightarrow> sync_task \<Rightarrow> bytes \<Rightarrow> nat \<Rightarrow> bytes" where
  "request_of cfg task s n \<equiv> large_request task (hash_buffer_fnv1a s) (nat (cc_block_size cfg)) s n"

lemma end_header_simps:
  "h_msg_type (end_header sz hash mo mt) = MSG_FILE_END" "validate_sync_header (end_header sz hash mo mt) = 0"
  "h_path_len (end_header sz hash mo mt) = 0" "h_total_hash (end_header sz hash mo mt) = hash"
  by (simp_all add: end_header_def validate_sync_header_def init_sync_header_def zero_header_def)

text \<open>The rest of a file completes the stored part.\<close>

lemma large_file_resumed:
  assumes ready: "large_ready cfg sock lfd task s wc" and san: "sanitize_rel_path (t_rel_path task) = 0"
    and cs: "is_cstr (t_rel_path task)" and room: "room_for root (t_rel_path task) ws"
    and part: "file_bytes ws (tmp_file root (t_rel_path task)) = take n s" "n < length s"
    and tx: "w_tx wc sock = []" "w_tx ws fd = []"
    and rx: "w_rx ws fd = request_of cfg task s n"
      "w_rx wc sock = header_bytes (offset_header n) @ header_bytes (ack_header (t_file_size task))"
  shows "\<exists>wc' ws' m t. run_state (send_remote_large_file sock cfg task lfd wid) wc = (0, wc') \<and>
    run_state (server_handle_connection fd root lp) ws = (0, ws') \<and>
    w_tx wc' sock = w_rx ws fd \<and> w_tx ws' fd = w_rx wc sock \<and>
    fs_get (w_fs ws') (pkey ws (current_file root (t_rel_path task))) = Some (Reg s m t)"
proof -
  let ?hash = "hash_buffer_fnv1a s" and ?bs = "nat (cc_block_size cfg)" and ?rel = "t_rel_path task"
  let ?e = "end_header (t_file_size task) ?hash (t_mode task) (t_mtime task)"
  have L: "w_script wc = []" "0 \<le> sock" "lfd \<noteq> sock" "inet_pton_ok (cc_server_ip cfg)" "0 < cc_block_size cfg"
    "?bs \<le> MAX_BLOCK" "length s < 2 ^ 63" "length ?rel \<le> MAX_NET_PATH" "n < 2 ^ 63" "0 < ?bs"
    using ready part(2) by (simp_all add: large_ready_def)
  obtain ms ts where src: "fs_find wc (t_src_path task) = Inr (Reg s ms ts)" by (rule large_readyD [OF ready])
  obtain wc' where c: "run_state (send_remote_large_file sock cfg task lfd wid) wc = (0, wc')"
    "w_tx wc' sock = w_tx wc sock @ request_of cfg task s n"
    by (rule large_file_sent [OF L(1) src L(4,2,8,5,9,3) rx(2)])
  have R: "calm ws" "replaceable ws (current_file root ?rel)" using room by (simp_all add: room_for_def)
  have sc: "w_script ws = []" and cur: "length (current_file root ?rel) + 8 < MAX_PATH_LEN"
    and fp: "file_place ws (tmp_file root ?rel)"
    using R by (simp_all add: calm_def replaceable_def)
  have qrx: "w_rx ws fd = header_bytes (query_header ?rel) @ ?rel @ stream_of (large_blocks task ?hash ?bs s n) ?e"
    using rx(1) by (simp add: large_request_def)
  obtain w1 where w1: "connection fd root lp [] ws = connection fd root lp ?rel w1" "w_script w1 = []"
    "w_rx w1 fd = stream_of (large_blocks task ?hash ?bs s n) ?e" "w_fs w1 = w_fs ws" "w_cwd w1 = w_cwd ws"
    "w_time w1 = w_time ws" "w_localtime w1 = w_localtime ws"
    "w_tx w1 fd = w_tx ws fd @ header_bytes (offset_header (length (file_bytes ws (tmp_file root ?rel))))"
    by (rule query_round [OF sc fp san cs L(8) cur qrx])
  have room1: "room_for root ?rel w1" using room room_same [of w1 ws] w1(2,4-7) sc by simp
  have pk: "pkey w1 p = pkey ws p" for p using w1(5) by (simp add: pkey_def)
  have part1: "file_bytes w1 (tmp_file root ?rel) = take n s" using part(1) w1(4) pk by (simp add: file_bytes_def)
  let ?d = "take ?bs (drop n s)"
  let ?h = "block_header ?d (word_of_nat n) (t_file_size task) ?hash (t_mode task) (t_mtime task)"
  let ?rest = "large_blocks task ?hash ?bs s (n + length ?d)"
  have lb: "large_blocks task ?hash ?bs s n = (?h, ?d) # ?rest"
    using part(2) L(10) by (subst large_blocks.simps) (simp add: Let_def)
  note all = large_blocks_fit [OF L(7,6), of task ?hash n, unfolded lb]
  have h: "h_block_hash ?h = hash_buffer_fnv1a ?d" "h_path_len ?h = 0" "h_total_hash ?h = ?hash"
    "h_file_size ?h = t_file_size task" by (simp_all add: block_header_def init_sync_header_def zero_header_def)
  have "apply_blocks ((?h, ?d) # ?rest) (take n s) = s"
    using large_blocks_complete [OF L(7,10), of n task ?hash] part(2) by (simp add: lb)
  then have ap: "apply_blocks ((?h, ?d) # ?rest) (file_bytes w1 (tmp_file root ?rel)) = s" unfolding part1 .
  have fits: "stream_fits (h_total_hash ?h) ?rest ?e (apply_blocks ((?h, ?d) # ?rest) (file_bytes w1 (tmp_file root ?rel)))"
    unfolding ap using all by (simp add: stream_fits_def end_header_simps h(3))
  have srx: "w_rx w1 fd = stream_of ((?h, ?d) # ?rest) ?e @ []" using w1(3) lb by simp
  have blk: "block_fits (?h, ?d)" using all by simp
  obtain ws' m t where s: "connection fd root lp ?rel w1 = (0, ws')"
    "w_tx ws' fd = w_tx w1 fd @ header_bytes (ack_header (h_file_size ?h))"
    "fs_get (w_fs ws') (pkey w1 (current_file root ?rel)) =
      Some (Reg (apply_blocks ((?h, ?d) # ?rest) (file_bytes w1 (tmp_file root ?rel))) m t)"
    by (rule connection_block [OF room1 san blk h(1,2) fits srx])
  have "run_state (server_handle_connection fd root lp) ws = (0, ws')"
    using w1(1) s(1) by (simp add: server_handle_connection_def)
  moreover have "w_tx ws' fd = w_rx wc sock" using s(2) w1(8) tx(2) part rx(2) h(4) by (simp add: min_def)
  moreover have "fs_get (w_fs ws') (pkey ws (current_file root ?rel)) = Some (Reg s m t)" using s(3) ap pk by simp
  ultimately show ?thesis using c tx(1) rx(1) by auto
qed

text \<open>When the stored part is not shorter than the file, client and server fail and nothing has changed.\<close>

abbreviation unknown_answer :: bytes where
  "unknown_answer \<equiv> header_bytes (error_header ''unknown message type'') @ ''unknown message type''"

lemma large_file_stuck:
  assumes ready: "large_ready cfg sock lfd task s wc" and san: "sanitize_rel_path (t_rel_path task) = 0"
    and cs: "is_cstr (t_rel_path task)" and sc: "w_script ws = []" and fp: "file_place ws (tmp_file root (t_rel_path task))"
    and cur: "length (current_file root (t_rel_path task)) + 8 < MAX_PATH_LEN"
    and part: "length (file_bytes ws (tmp_file root (t_rel_path task))) = n" "length s \<le> n" "n < 2 ^ 63"
    and tx: "w_tx wc sock = []" "w_tx ws fd = []"
    and rx: "w_rx ws fd = request_of cfg task s n" "w_rx wc sock = header_bytes (offset_header n) @ unknown_answer"
  shows "\<exists>wc' ws'. run_state (send_remote_large_file sock cfg task lfd wid) wc = (- 1, wc') \<and>
    run_state (server_handle_connection fd root lp) ws = (- 1, ws') \<and>
    w_tx wc' sock = w_rx ws fd \<and> w_tx ws' fd = w_rx wc sock \<and> w_fs ws' = w_fs ws \<and> w_cwd ws' = w_cwd ws"
proof -
  let ?hash = "hash_buffer_fnv1a s" and ?bs = "nat (cc_block_size cfg)" and ?rel = "t_rel_path task"
  let ?e = "end_header (t_file_size task) ?hash (t_mode task) (t_mtime task)"
  have L: "w_script wc = []" "0 \<le> sock" "inet_pton_ok (cc_server_ip cfg)" "0 < cc_block_size cfg" "length ?rel \<le> MAX_NET_PATH"
    using ready by (simp_all add: large_ready_def)
  obtain ms ts where src: "fs_find wc (t_src_path task) = Inr (Reg s ms ts)" by (rule large_readyD [OF ready])
  obtain f where f: "w_script f = []" "w_rx f sock = unknown_answer" "w_tx f sock = w_tx wc sock @ request_of cfg task s n"
    "run_state (send_remote_large_file sock cfg task lfd wid) wc = run_state (do {
       ok \<leftarrow> wait_for_ack sock;
       (if ok = 0 then do {
          _ \<leftarrow> log_message lfd LOG_INFO (success_text wid task (''large-file resume offset='' @ dec n) ?hash);
          ret ok
        }
        else ret ok)
     }) f" by (rule large_file_requested [OF L(1) src L(3,2,5,4) part(3) rx(2)])
  have "validate_sync_header (error_header ''unknown message type'') = 0"
    by (simp add: validate_sync_header_def error_header_def init_sync_header_def zero_header_def Let_def)
  from recv_header_calm [OF f(1,2) this] obtain g where g:
    "run_state (recv_header sock) f = (Some (error_header ''unknown message type''), g)" "w_tx g sock = w_tx f sock" by blast
  have "run_state (wait_for_ack sock) f = (- 1, g)"
    using g(1) by (simp add: wait_for_ack_def error_header_def init_sync_header_def Let_def)
  then have c: "run_state (send_remote_large_file sock cfg task lfd wid) wc = (- 1, g)" using f(4) by simp
  have "large_blocks task ?hash ?bs s n = []" using part(2) by (simp add: large_blocks.simps)
  then have qrx: "w_rx ws fd = header_bytes (query_header ?rel) @ ?rel @ header_bytes ?e @ []"
    using rx(1) by (simp add: large_request_def)
  obtain w1 where w1: "connection fd root lp [] ws = connection fd root lp ?rel w1" "w_script w1 = []"
    "w_rx w1 fd = header_bytes ?e @ []" "w_fs w1 = w_fs ws" "w_cwd w1 = w_cwd ws"
    "w_tx w1 fd = w_tx ws fd @ header_bytes (offset_header (length (file_bytes ws (tmp_file root ?rel))))"
    by (rule query_round [OF sc fp san cs L(5) cur qrx])
  obtain ws' where s: "connection fd root lp ?rel w1 = (- 1, ws')" "w_fs ws' = w_fs w1" "w_cwd ws' = w_cwd w1"
    "w_tx ws' fd = w_tx w1 fd @ unknown_answer"
    by (rule end_refused [OF w1(2,3) end_header_simps(2,1,3)])
  have "run_state (server_handle_connection fd root lp) ws = (- 1, ws')"
    using w1(1) s(1) by (simp add: server_handle_connection_def)
  moreover have "w_tx ws' fd = w_rx wc sock" using s(4) w1(6) tx(2) part(1) rx(2) by simp
  moreover have "w_tx g sock = w_rx ws fd" using g(2) f(3) tx(1) rx(1) by simp
  ultimately show ?thesis using c s(2,3) w1(4,5) by auto
qed

end
