(* ===== verification/ResumeProperties.thy ===== *)
theory ResumeProperties
  imports Resume TransferProperties
begin

text \<open>
  Properties of the transfer of large files by \<^verbatim>\<open>send_remote_large_file\<close> of \<^verbatim>\<open>src/transfer.c\<close> and
  \<^verbatim>\<open>handle_large_block_stream\<close> of \<^verbatim>\<open>src/server.c\<close>, with their witnesses.
\<close>

text \<open>C4: A broken transfer is resumed: when the server has the first \<open>n\<close> bytes of a large file in its
  temporary file (none for a new transfer), the client, which has no failing call and finds the offset
  \<open>n\<close> and an acknowledgement in its input, and a connection of a server with room for the file, which
  finds the request for that offset in its input, both return 0; the output of each is the input of
  the other, and the file below \<open>current\<close> has the content of the source.\<close>

theorem large_file_resumes:
  assumes "large_ready cfg sock lfd task s wc" and "plain_file_task task" and "is_cstr (t_rel_path task)"
    and "room_for root (t_rel_path task) ws"
    and "file_bytes ws (tmp_file root (t_rel_path task)) = take n s" and "n < length s"
    and "w_tx wc sock = []" and "w_tx ws fd = []" and "w_rx ws fd = request_of cfg task s n"
    and "w_rx wc sock = header_bytes (offset_header n) @ header_bytes (ack_header (t_file_size task))"
  shows "\<exists>wc' ws' m t. run_state (sync_task_remote sock cfg task lfd wid) wc = (0, wc') \<and>
    run_state (server_handle_connection fd root lp) ws = (0, ws') \<and>
    w_tx wc' sock = w_rx ws fd \<and> w_tx ws' fd = w_rx wc sock \<and>
    fs_get (w_fs ws') (pkey ws (current_file root (t_rel_path task))) = Some (Reg s m t)"
proof -
  have plain: "sanitize_rel_path (t_rel_path task) = 0" "t_is_dir task = 0" "t_event_type task \<noteq> EVENT_DELETE"
    "t_event_type task \<noteq> EVENT_RENAME" using assms(2) by (simp_all add: plain_file_task_def)
  show ?thesis
    using large_file_resumed [OF assms(1) plain(1) assms(3-10)] unfolding large_task [OF assms(1) plain] .
qed

definition large_config :: client_config where
  "large_config = remote_config\<lparr>cc_hash_threshold := 2, cc_block_size := 2\<rparr>"

text \<open>The backup with a temporary file of the sample file that holds \<open>b\<close>.\<close>

definition partial_world :: "bytes \<Rightarrow> world" where
  "partial_world b = sample_world
     \<lparr>w_fs := sample_tree @ [([''b'', ''current'', ''d'', ''f.syncing''], Reg b 0x180 8)]\<rparr>"

definition asking_world :: "bytes \<Rightarrow> world" where
  "asking_world x = sample_world\<lparr>w_rx := (\<lambda>_. [])(4 := x)\<rparr>"

definition serving_world :: "bytes \<Rightarrow> nat \<Rightarrow> world" where
  "serving_world b n = (partial_world b)\<lparr>w_rx := (\<lambda>_. [])(7 := request_of large_config file_task ''new!'' n)\<rparr>"

lemma sample_large_ready: "large_ready large_config 4 6 file_task ''new!'' (asking_world x)"
proof -
  have "large_ready large_config 4 6 file_task ''new!'' sample_world" by code_simp
  moreover have "fs_find (asking_world x) p = fs_find sample_world p" for p
    by (rule fs_find_same) (simp_all add: asking_world_def)
  ultimately show ?thesis by (simp add: large_ready_def) (simp add: asking_world_def)
qed

lemma serving_simps [simp]:
  "w_fs (serving_world b n) = w_fs (partial_world b)" "w_cwd (serving_world b n) = w_cwd (partial_world b)"
  "w_script (serving_world b n) = w_script (partial_world b)" "w_time (serving_world b n) = w_time (partial_world b)"
  "w_localtime (serving_world b n) = w_localtime (partial_world b)"
  "pkey (serving_world b n) p = pkey (partial_world b) p"
  "w_rx (serving_world b n) 7 = request_of large_config file_task ''new!'' n" "w_tx (serving_world b n) fd = []"
  by (simp_all add: serving_world_def pkey_def partial_world_def sample_world_def)

lemma asking_simps [simp]: "w_rx (asking_world x) 4 = x" "w_tx (asking_world x) fd = []"
  by (simp_all add: asking_world_def sample_world_def)

lemma large_file_resumes_witness:
  "\<exists>wc' ws' m t. run_state (sync_task_remote 4 large_config file_task 6 1)
      (asking_world (header_bytes (offset_header 1) @ header_bytes (ack_header (t_file_size file_task)))) = (0, wc') \<and>
    run_state (server_handle_connection 7 ''b'' ''log'') (serving_world ''n'' 1) = (0, ws') \<and>
    fs_get (w_fs ws') [''b'', ''current'', ''d'', ''f''] = Some (Reg ''new!'' m t)"
proof -
  have task: "t_rel_path file_task = ''d/f''" by (simp add: file_task_def sample_task_def)
  have plain: "plain_file_task file_task" "is_cstr (t_rel_path file_task)" by code_simp+
  have "room_for ''b'' ''d/f'' (partial_world ''n'')" by code_simp
  then have room: "room_for ''b'' (t_rel_path file_task) (serving_world ''n'' 1)"
    unfolding task by (subst room_same [of _ "partial_world ''n''"]) simp_all
  have "file_bytes (partial_world ''n'') (tmp_file ''b'' ''d/f'') = ''n''" by code_simp
  then have part: "file_bytes (serving_world ''n'' 1) (tmp_file ''b'' (t_rel_path file_task)) = take 1 ''new!''"
    unfolding task by (simp add: file_bytes_def)
  have n: "1 < length ''new!''" by simp
  have key: "pkey (serving_world ''n'' 1) (current_file ''b'' ''d/f'') = [''b'', ''current'', ''d'', ''f'']"
  proof -
    have "pkey (partial_world ''n'') (current_file ''b'' ''d/f'') = [''b'', ''current'', ''d'', ''f'']" by code_simp
    then show ?thesis by simp
  qed
  show ?thesis
    using large_file_resumes [OF sample_large_ready plain room part n asking_simps(2) serving_simps(8,7) asking_simps(1),
        of 1 "''log''"] unfolding task key by blast
qed

text \<open>C37: A transfer whose temporary file is complete is stuck: when the temporary file on the server is
  not shorter than the source, because the connection broke before the end message or because a
  transfer failed its hash check, the client finds no block to send after the offset, the end message is
  refused as an unknown message, both sides fail, and nothing of the server's tree has changed, so that
  every retry of the file ends in the same way.\<close>

theorem large_resume_wedged:
  assumes "large_ready cfg sock lfd task s wc" and "plain_file_task task" and "is_cstr (t_rel_path task)"
    and "w_script ws = []" and "file_place ws (tmp_file root (t_rel_path task))"
    and "length (current_file root (t_rel_path task)) + 8 < MAX_PATH_LEN"
    and "length (file_bytes ws (tmp_file root (t_rel_path task))) = n" and "length s \<le> n" and "n < 2 ^ 63"
    and "w_tx wc sock = []" and "w_tx ws fd = []" and "w_rx ws fd = request_of cfg task s n"
    and "w_rx wc sock = header_bytes (offset_header n) @ unknown_answer"
  shows "\<exists>wc' ws'. run_state (sync_task_remote sock cfg task lfd wid) wc = (- 1, wc') \<and>
    run_state (server_handle_connection fd root lp) ws = (- 1, ws') \<and>
    w_tx wc' sock = w_rx ws fd \<and> w_tx ws' fd = w_rx wc sock \<and> w_fs ws' = w_fs ws \<and> w_cwd ws' = w_cwd ws"
proof -
  have plain: "sanitize_rel_path (t_rel_path task) = 0" "t_is_dir task = 0" "t_event_type task \<noteq> EVENT_DELETE"
    "t_event_type task \<noteq> EVENT_RENAME" using assms(2) by (simp_all add: plain_file_task_def)
  show ?thesis
    using large_file_stuck [OF assms(1) plain(1) assms(3-13)] unfolding large_task [OF assms(1) plain] .
qed

lemma large_resume_wedged_witness:
  "\<exists>wc' ws'. run_state (sync_task_remote 4 large_config file_task 6 1)
      (asking_world (header_bytes (offset_header 4) @ unknown_answer)) = (- 1, wc') \<and>
    run_state (server_handle_connection 7 ''b'' ''log'') (serving_world ''new?'' 4) = (- 1, ws') \<and>
    w_fs ws' = w_fs (partial_world ''new?'')"
proof -
  let ?p = "partial_world ''new?''" and ?w = "serving_world ''new?'' 4"
  have task: "t_rel_path file_task = ''d/f''" by (simp add: file_task_def sample_task_def)
  have plain: "plain_file_task file_task" "is_cstr (t_rel_path file_task)" by code_simp+
  have "file_place ?p (tmp_file ''b'' ''d/f'')" "length (file_bytes ?p (tmp_file ''b'' ''d/f'')) = 4"
    by code_simp+
  then have place: "file_place ?w (tmp_file ''b'' (t_rel_path file_task))"
    and part: "length (file_bytes ?w (tmp_file ''b'' (t_rel_path file_task))) = 4"
    unfolding task by (simp_all add: file_bytes_def file_place_def)
  have room: "length (current_file ''b'' (t_rel_path file_task)) + 8 < MAX_PATH_LEN"
    unfolding task by (simp add: joined_def)
  have sc: "w_script ?w = []" by (simp add: partial_world_def sample_world_def)
  have n: "length ''new!'' \<le> 4" "(4::nat) < 2 ^ 63" by simp_all
  show ?thesis
    using large_resume_wedged [OF sample_large_ready plain sc place room part n asking_simps(2) serving_simps(8,7)
        asking_simps(1), of 1 "''log''"] by simp blast
qed

end
