(* ===== verification/Monitor.thy ===== *)
theory Monitor
  imports Slots TransferLocal Sockets
begin

text \<open>
  \<^verbatim>\<open>src/monitor.c\<close>: the process that turns changes of the source tree into tasks on the event
  pipe. Its static variables are the record \<open>monitor\<close>. The watch numbers the kernel gives
  (\<open>wd_of\<close>) and what it reports (\<open>wakeup\<close>s) are inputs.
\<close>

section \<open>State\<close>

record watch_item =
  wi_wd :: int
  wi_path :: path

record file_snapshot =
  s_used :: bool
  s_seen :: bool
  s_rel_path :: string
  s_src_path :: path
  s_size :: "64 word"
  s_mtime :: "64 word"
  s_mode :: "32 word"
  s_is_dir :: "32 word"

text \<open>\<open>m_items\<close> are the first \<^verbatim>\<open>watch_count\<close> watch items.\<close>

record monitor =
  m_items :: "watch_item list"
  m_snapshots :: "file_snapshot list"
  m_inotify_fd :: int
  m_root :: path
  m_log_fd :: int

abbreviation MAX_WATCHES :: nat where "MAX_WATCHES \<equiv> 4096"
abbreviation MAX_SNAPSHOTS :: nat where "MAX_SNAPSHOTS \<equiv> 8192"

definition empty_snapshot :: file_snapshot where
  "empty_snapshot = \<lparr>s_used = False, s_seen = False, s_rel_path = [], s_src_path = [], s_size = 0,
     s_mtime = 0, s_mode = 0, s_is_dir = 0\<rparr>"

definition initial_monitor :: monitor where
  "initial_monitor = \<lparr>m_items = [], m_snapshots = replicate MAX_SNAPSHOTS empty_snapshot,
     m_inotify_fd = - 1, m_root = [], m_log_fd = - 1\<rparr>"

text \<open>The path of a known watch is replaced (and cut to its buffer); a new one is refused when the
  table is full or the path does not fit.\<close>

definition add_watch_item :: "watch_item list \<Rightarrow> int \<Rightarrow> path \<Rightarrow> int \<times> watch_item list" where
  "add_watch_item items wd p =
     (if wd < 0 then (- 1, items)
      else case index_of (\<lambda>x. wi_wd x = wd) items of
        Some i \<Rightarrow> (0, items[i := (items ! i)\<lparr>wi_path := fst (snprintf_s MAX_PATH_LEN p)\<rparr>])
      | None \<Rightarrow>
          if length items \<ge> MAX_WATCHES then (- 1, items)
          else if snd (snprintf_s MAX_PATH_LEN p) \<ge> MAX_PATH_LEN then (- 1, items)
          else (0, items @ [\<lparr>wi_wd = wd, wi_path = fst (snprintf_s MAX_PATH_LEN p)\<rparr>]))"

definition find_path_by_wd :: "watch_item list \<Rightarrow> int \<Rightarrow> path option" where
  "find_path_by_wd items wd = map_option (\<lambda>i. wi_path (items ! i)) (index_of (\<lambda>x. wi_wd x = wd) items)"

definition snapshot_find :: "file_snapshot list \<Rightarrow> string \<Rightarrow> nat option" where
  "snapshot_find table rel = index_of (\<lambda>s. s_used s \<and> s_rel_path s = rel) table"

definition snapshot_alloc :: "file_snapshot list \<Rightarrow> nat option" where
  "snapshot_alloc table = index_of (\<lambda>s. \<not> s_used s) table"

definition snapshot_mark_all_unseen :: "file_snapshot list \<Rightarrow> file_snapshot list" where
  "snapshot_mark_all_unseen table = map (\<lambda>s. if s_used s then s\<lparr>s_seen := False\<rparr> else s) table"

definition snapshot_of_task :: "sync_task \<Rightarrow> file_snapshot" where
  "snapshot_of_task task = \<lparr>s_used = True, s_seen = True,
     s_rel_path = fst (snprintf_s MAX_PATH_LEN (t_rel_path task)),
     s_src_path = fst (snprintf_s MAX_PATH_LEN (t_src_path task)), s_size = t_file_size task,
     s_mtime = t_mtime task, s_mode = t_mode task, s_is_dir = t_is_dir task\<rparr>"

definition snapshot_update_from_task :: "file_snapshot list \<Rightarrow> nat \<Rightarrow> sync_task \<Rightarrow> file_snapshot list" where
  "snapshot_update_from_task table idx task = table[idx := snapshot_of_task task]"

interpretation sn: slot_table s_used s_rel_path empty_snapshot
  by unfold_locales (simp add: empty_snapshot_def)

definition snapshot_lookup :: "file_snapshot list \<Rightarrow> string \<Rightarrow> file_snapshot option" where
  "snapshot_lookup = slot_lookup s_used s_rel_path"

section \<open>Tasks\<close>

definition emit_task :: "int \<Rightarrow> sync_task \<Rightarrow> int prog" where
  "emit_task event_fd task = do {
     r \<leftarrow> write_full event_fd (task_bytes task);
     ret (if r = int task_size then 0 else - 1)
   }"

text \<open>\<open>None\<close> is the return value -1, after which no caller looks at the task. There are no symbolic
  links in the model, so \<^verbatim>\<open>lstat\<close> is \<^verbatim>\<open>stat\<close>.\<close>

definition build_task_from_path :: "32 word \<Rightarrow> path \<Rightarrow> path \<Rightarrow> sync_task option prog" where
  "build_task_from_path event_type root p =
     (if snd (snprintf_s MAX_PATH_LEN p) \<ge> MAX_PATH_LEN then ret None
      else case get_relative_path [] MAX_PATH_LEN root p of (rc, rel) \<Rightarrow>
        if rc < 0 then ret None
        else do {
          let task = init_sync_task\<lparr>t_event_type := event_type, t_src_path := p, t_rel_path := rel\<rparr>;
          st \<leftarrow> sys_stat p;
          ret (Some (case st of
             Inl _ \<Rightarrow> task
           | Inr s \<Rightarrow> task\<lparr>t_file_size := word_of_int (st_size s), t_mode := st_mode s,
               t_mtime := word_of_int (st_mtime s),
               t_is_dir := (if S_ISDIR (st_mode s) then 1 else 0)\<rparr>))
        })"

definition emit_delete_task :: "path \<Rightarrow> path \<Rightarrow> 32 word \<Rightarrow> int \<Rightarrow> int prog" where
  "emit_delete_task root p is_dir event_fd =
     (if snd (snprintf_s MAX_PATH_LEN p) \<ge> MAX_PATH_LEN then ret (- 1)
      else case get_relative_path [] MAX_PATH_LEN root p of (rc, rel) \<Rightarrow>
        if rc < 0 then ret (- 1)
        else emit_task event_fd (init_sync_task\<lparr>t_event_type := EVENT_DELETE, t_is_dir := is_dir,
          t_src_path := p, t_rel_path := rel\<rparr>))"

section \<open>Walking the tree\<close>

text \<open>Names that a directory can have as entries.\<close>

definition entry_name :: "string \<Rightarrow> bool" where
  "entry_name n \<longleftrightarrow> n \<noteq> [] \<and> slash \<notin> set n"

text \<open>\<^verbatim>\<open>opendir\<close> and the whole sequence of \<^verbatim>\<open>readdir\<close>.\<close>

definition dir_entries :: "world \<Rightarrow> path \<Rightarrow> string list" where
  "dir_entries w p = [''.'', ''..''] @ filter entry_name (fs_children (w_fs w) (pkey w p))"

definition sys_listdir :: "path \<Rightarrow> (errno + string list) prog" where
  "sys_listdir p = syscall (\<lambda>w.
     (case fs_find w p of
        Inl e \<Rightarrow> Inl e
      | Inr n \<Rightarrow> if is_dir_node (Some n) then Inr (dir_entries w p) else Inl ENOTDIR, w))"

text \<open>The path of an entry that a walk looks at; \<^verbatim>\<open>readdir\<close> gives no name that is empty or has a
  slash.\<close>

definition entry_path :: "path \<Rightarrow> string \<Rightarrow> path option" where
  "entry_path dir name =
     (if name = ''.'' \<or> name = ''..'' \<or> \<not> entry_name name then None else join_path MAX_PATH_LEN dir name)"

lemma entry_path_longer:
  assumes "entry_path dir name = Some p"
  shows "length dir < length p \<and> length p < MAX_PATH_LEN"
proof -
  have n: "entry_name name" and j: "join_path MAX_PATH_LEN dir name = Some p"
    using assms by (auto simp: entry_path_def split: if_splits)
  have p: "p = joined dir name" "length p < MAX_PATH_LEN" using join_path_Some [OF j] by blast+
  have "dropWhile (\<lambda>c. c = slash) name = name" using n by (cases name) (auto simp: entry_name_def)
  then have "length dir < length (joined dir name)"
    using n by (auto simp: joined_def entry_name_def Let_def)
  then show ?thesis using p by simp
qed

text \<open>
  The recursion the three scans share. \<open>enter\<close> is what is done with a directory that could be
  opened (\<open>False\<close> gives it up), \<open>visit\<close> what is done with an entry (\<open>True\<close> descends into it). The
  result is -1 for a directory that was not walked, and the callers ignore it for subdirectories.
\<close>

type_synonym 's visitor = "path \<Rightarrow> 's \<Rightarrow> (bool \<times> 's) prog"

function
  walk :: "'s visitor \<Rightarrow> 's visitor \<Rightarrow> path \<Rightarrow> 's \<Rightarrow> world \<Rightarrow> (int \<times> 's) \<times> world" and
  walk_entries :: "'s visitor \<Rightarrow> 's visitor \<Rightarrow> path \<Rightarrow> string list \<Rightarrow> 's \<Rightarrow> world \<Rightarrow> 's \<times> world"
where
  "walk enter visit dir st w =
     (case run_state (sys_listdir dir) w of
        (Inl e, w1) \<Rightarrow> ((- 1, st), w1)
      | (Inr names, w1) \<Rightarrow>
          (case run_state (enter dir st) w1 of
             ((False, st1), w2) \<Rightarrow> ((- 1, st1), w2)
           | ((True, st1), w2) \<Rightarrow>
               (case walk_entries enter visit dir names st1 w2 of (st2, w3) \<Rightarrow> ((0, st2), w3))))"
| "walk_entries enter visit dir [] st w = (st, w)"
| "walk_entries enter visit dir (name # names) st w =
     (case entry_path dir name of
        None \<Rightarrow> walk_entries enter visit dir names st w
      | Some p \<Rightarrow>
          (case run_state (visit p st) w of
             ((False, st1), w1) \<Rightarrow> walk_entries enter visit dir names st1 w1
           | ((True, st1), w1) \<Rightarrow>
               (case walk enter visit p st1 w1 of
                  (r, w2) \<Rightarrow> walk_entries enter visit dir names (snd r) w2)))"
  by pat_completeness auto
termination
  by (relation "measures
      [\<lambda>x. MAX_PATH_LEN - (case x of Inl (e, v, dir, s, w) \<Rightarrow> length dir | Inr (e, v, dir, ns, s, w) \<Rightarrow> length dir),
       \<lambda>x. case x of Inl _ \<Rightarrow> 1 | Inr _ \<Rightarrow> 0,
       \<lambda>x. case x of Inl _ \<Rightarrow> 0 | Inr (e, v, dir, ns, s, w) \<Rightarrow> length ns]")
    (auto dest: entry_path_longer)

declare walk.simps [simp del] walk_entries.simps [simp del]

section \<open>The scans\<close>

definition no_enter :: "'s visitor" where
  "no_enter dir st = ret (True, st)"

text \<open>\<^verbatim>\<open>inotify_add_watch\<close>: the kernel's number for the directory.\<close>

definition sys_add_watch :: "(world \<Rightarrow> path \<Rightarrow> int) \<Rightarrow> path \<Rightarrow> (errno + int) prog" where
  "sys_add_watch wd_of p = syscall (\<lambda>w. (map_sum id (\<lambda>_. wd_of w p) (fs_find w p), w))"

definition watch_enter :: "(world \<Rightarrow> path \<Rightarrow> int) \<Rightarrow> monitor visitor" where
  "watch_enter wd_of dir m = do {
     r \<leftarrow> sys_add_watch wd_of dir;
     (case r of
        Inl _ \<Rightarrow> ret (False, m)
      | Inr wd \<Rightarrow>
          if wd < 0 then ret (False, m)
          else do {
            _ \<leftarrow> log_message (m_log_fd m) LOG_INFO (''monitor: watch added '' @ dir);
            ret (True, m\<lparr>m_items := snd (add_watch_item (m_items m) wd dir)\<rparr>)
          })
   }"

definition watch_visit :: "monitor visitor" where
  "watch_visit p m = do {
     d \<leftarrow> is_directory p;
     ret (d, m)
   }"

definition add_watch_recursive :: "(world \<Rightarrow> path \<Rightarrow> int) \<Rightarrow> path \<Rightarrow> monitor \<Rightarrow> (int \<times> monitor) prog" where
  "add_watch_recursive wd_of dir_path m = State (walk (watch_enter wd_of) watch_visit dir_path m)"

definition store_snapshot :: "monitor \<Rightarrow> nat option \<Rightarrow> sync_task \<Rightarrow> monitor" where
  "store_snapshot m idx task =
     (case idx of
        None \<Rightarrow> m
      | Some i \<Rightarrow> m\<lparr>m_snapshots := snapshot_update_from_task (m_snapshots m) i task\<rparr>)"

definition snapshot_index :: "monitor \<Rightarrow> string \<Rightarrow> nat option" where
  "snapshot_index m rel =
     (case snapshot_find (m_snapshots m) rel of
        Some i \<Rightarrow> Some i
      | None \<Rightarrow> snapshot_alloc (m_snapshots m))"

definition scan_visit :: "(world \<Rightarrow> path \<Rightarrow> int) \<Rightarrow> path \<Rightarrow> int \<Rightarrow> monitor visitor" where
  "scan_visit wd_of root event_fd p m = do {
     t \<leftarrow> build_task_from_path EVENT_FULLSCAN root p;
     m1 \<leftarrow> (case t of
        None \<Rightarrow> ret m
      | Some task \<Rightarrow> do {
          _ \<leftarrow> emit_task event_fd task;
          _ \<leftarrow> log_message (m_log_fd m) LOG_DEBUG (''monitor: fullscan emit '' @ t_rel_path task);
          ret (store_snapshot m (snapshot_index m (t_rel_path task)) task)
        });
     d \<leftarrow> is_directory p;
     if d \<and> m_inotify_fd m1 \<ge> 0 then do {
       r \<leftarrow> add_watch_recursive wd_of p m1;
       ret (d, snd r)
     }
     else ret (d, m1)
   }"

definition scan_directory_and_emit_tasks ::
  "(world \<Rightarrow> path \<Rightarrow> int) \<Rightarrow> path \<Rightarrow> path \<Rightarrow> int \<Rightarrow> monitor \<Rightarrow> (int \<times> monitor) prog" where
  "scan_directory_and_emit_tasks wd_of root dir event_fd m =
     State (walk no_enter (scan_visit wd_of root event_fd) dir m)"

text \<open>What polling does with the task of one entry.\<close>

definition snapshot_differs :: "file_snapshot \<Rightarrow> sync_task \<Rightarrow> bool" where
  "snapshot_differs s task \<longleftrightarrow> s_size s \<noteq> t_file_size task \<or> s_mtime s \<noteq> t_mtime task \<or> s_mode s \<noteq> t_mode task"

definition poll_task :: "int \<Rightarrow> sync_task \<Rightarrow> monitor \<Rightarrow> monitor prog" where
  "poll_task event_fd task m =
     (case snapshot_find (m_snapshots m) (t_rel_path task) of
        None \<Rightarrow>
          (case snapshot_alloc (m_snapshots m) of
             None \<Rightarrow> ret m
           | Some idx \<Rightarrow> do {
               _ \<leftarrow> emit_task event_fd (task\<lparr>t_event_type := EVENT_CREATE\<rparr>);
               _ \<leftarrow> log_message (m_log_fd m) LOG_DEBUG (''monitor: poll create '' @ t_rel_path task);
               ret (store_snapshot m (Some idx) (task\<lparr>t_event_type := EVENT_CREATE\<rparr>))
             })
      | Some idx \<Rightarrow>
          if snapshot_differs (m_snapshots m ! idx) task then do {
            _ \<leftarrow> emit_task event_fd (task\<lparr>t_event_type := EVENT_MODIFY\<rparr>);
            _ \<leftarrow> log_message (m_log_fd m) LOG_DEBUG (''monitor: poll modify '' @ t_rel_path task);
            ret (store_snapshot m (Some idx) (task\<lparr>t_event_type := EVENT_MODIFY\<rparr>))
          }
          else ret (m\<lparr>m_snapshots := (m_snapshots m)[idx := (m_snapshots m ! idx)\<lparr>s_seen := True\<rparr>]\<rparr>))"

definition poll_visit :: "path \<Rightarrow> int \<Rightarrow> monitor visitor" where
  "poll_visit root event_fd p m = do {
     t \<leftarrow> build_task_from_path EVENT_MODIFY root p;
     (case t of
        None \<Rightarrow> ret (False, m)
      | Some task \<Rightarrow> do {
          m1 \<leftarrow> poll_task event_fd task m;
          ret (t_is_dir task \<noteq> 0, m1)
        })
   }"

definition poll_scan_path :: "path \<Rightarrow> path \<Rightarrow> int \<Rightarrow> monitor \<Rightarrow> monitor prog" where
  "poll_scan_path root dir event_fd m = do {
     r \<leftarrow> State (walk no_enter (poll_visit root event_fd) dir m);
     ret (snd r)
   }"

definition deletion_task :: "file_snapshot \<Rightarrow> sync_task" where
  "deletion_task s = init_sync_task\<lparr>t_event_type := EVENT_DELETE, t_is_dir := s_is_dir s,
     t_rel_path := fst (snprintf_s MAX_PATH_LEN (s_rel_path s)),
     t_src_path := fst (snprintf_s MAX_PATH_LEN (s_src_path s))\<rparr>"

fun drop_unseen :: "int \<Rightarrow> int \<Rightarrow> file_snapshot list \<Rightarrow> file_snapshot list prog" where
  "drop_unseen event_fd log_fd [] = ret []"
| "drop_unseen event_fd log_fd (s # table) =
     (if s_used s \<and> \<not> s_seen s then do {
        _ \<leftarrow> emit_task event_fd (deletion_task s);
        _ \<leftarrow> log_message log_fd LOG_DEBUG (''monitor: poll delete '' @ t_rel_path (deletion_task s));
        rest \<leftarrow> drop_unseen event_fd log_fd table;
        ret (empty_snapshot # rest)
      }
      else do {
        rest \<leftarrow> drop_unseen event_fd log_fd table;
        ret (s # rest)
      })"

definition poll_scan_and_emit_changes :: "path \<Rightarrow> int \<Rightarrow> monitor \<Rightarrow> monitor prog" where
  "poll_scan_and_emit_changes root event_fd m = do {
     m1 \<leftarrow> poll_scan_path root root event_fd
       (m\<lparr>m_snapshots := snapshot_mark_all_unseen (m_snapshots m)\<rparr>);
     table \<leftarrow> drop_unseen event_fd (m_log_fd m1) (m_snapshots m1);
     ret (m1\<lparr>m_snapshots := table\<rparr>)
   }"

section \<open>Events\<close>

record inotify_event =
  ev_wd :: "32 word"
  ev_mask :: "32 word"
  ev_cookie :: "32 word"
  ev_len :: "32 word"
  ev_name :: string

record move_record =
  mv_cookie :: "32 word"
  mv_old_path :: path
  mv_old_rel_path :: string
  mv_is_dir :: "32 word"
  mv_ts_ms :: int

definition empty_move :: move_record where
  "empty_move = \<lparr>mv_cookie = 0, mv_old_path = [], mv_old_rel_path = [], mv_is_dir = 0, mv_ts_ms = 0\<rparr>"

abbreviation IN_MODIFY :: "32 word" where "IN_MODIFY \<equiv> 0x2"
abbreviation IN_CLOSE_WRITE :: "32 word" where "IN_CLOSE_WRITE \<equiv> 0x8"
abbreviation IN_MOVED_FROM :: "32 word" where "IN_MOVED_FROM \<equiv> 0x40"
abbreviation IN_MOVED_TO :: "32 word" where "IN_MOVED_TO \<equiv> 0x80"
abbreviation IN_CREATE :: "32 word" where "IN_CREATE \<equiv> 0x100"
abbreviation IN_DELETE :: "32 word" where "IN_DELETE \<equiv> 0x200"
abbreviation IN_ISDIR :: "32 word" where "IN_ISDIR \<equiv> 0x40000000"

definition flagged :: "inotify_event \<Rightarrow> 32 word \<Rightarrow> bool" where
  "flagged ev bits \<longleftrightarrow> ev_mask ev AND bits \<noteq> 0"

text \<open>A directory that appeared is watched and scanned at once.\<close>

definition new_directory :: "(world \<Rightarrow> path \<Rightarrow> int) \<Rightarrow> path \<Rightarrow> int \<Rightarrow> monitor \<Rightarrow> monitor prog" where
  "new_directory wd_of p event_fd m = do {
     a \<leftarrow> add_watch_recursive wd_of p m;
     s \<leftarrow> scan_directory_and_emit_tasks wd_of (m_root m) p event_fd (snd a);
     ret (snd s)
   }"

definition handle_moved_to ::
  "(world \<Rightarrow> path \<Rightarrow> int) \<Rightarrow> inotify_event \<Rightarrow> path \<Rightarrow> int \<Rightarrow> move_record \<Rightarrow> monitor \<Rightarrow>
   (int \<times> move_record \<times> monitor) prog" where
  "handle_moved_to wd_of ev p event_fd move m = do {
     t \<leftarrow> build_task_from_path EVENT_RENAME (m_root m) p;
     (case t of
        None \<Rightarrow> ret (- 1, move, m)
      | Some built \<Rightarrow> do {
          let task = (if mv_cookie move \<noteq> 0 \<and> mv_cookie move = ev_cookie ev
            then built\<lparr>t_old_rel_path := fst (snprintf_s MAX_PATH_LEN (mv_old_rel_path move))\<rparr> else built);
          _ \<leftarrow> emit_task event_fd task;
          _ \<leftarrow> log_message (m_log_fd m) LOG_INFO
            (''monitor: rename '' @ t_old_rel_path task @ '' -> '' @ t_rel_path task);
          m1 \<leftarrow> (if flagged ev IN_ISDIR then new_directory wd_of p event_fd m else ret m);
          ret (0, empty_move, m1)
        })
   }"

definition handle_event ::
  "(world \<Rightarrow> path \<Rightarrow> int) \<Rightarrow> inotify_event \<Rightarrow> int \<Rightarrow> move_record \<Rightarrow> monitor \<Rightarrow>
   (int \<times> move_record \<times> monitor) prog" where
  "handle_event wd_of ev event_fd move m =
     (case find_path_by_wd (m_items m) (sint (ev_wd ev)) of
        None \<Rightarrow> ret (0, move, m)
      | Some parent \<Rightarrow>
          if ev_len ev = 0 then ret (0, move, m)
          else case join_path MAX_PATH_LEN parent (ev_name ev) of
            None \<Rightarrow> ret (- 1, move, m)
          | Some p \<Rightarrow>
              (let is_dir = (if flagged ev IN_ISDIR then 1 else 0 :: 32 word) in
               if flagged ev IN_MOVED_FROM then do {
                 now \<leftarrow> current_time_ms;
                 ret (0, \<lparr>mv_cookie = ev_cookie ev, mv_old_path = fst (snprintf_s MAX_PATH_LEN p),
                   mv_old_rel_path = snd (get_relative_path [] MAX_PATH_LEN (m_root m) p),
                   mv_is_dir = is_dir, mv_ts_ms = now\<rparr>, m)
               }
               else if flagged ev IN_MOVED_TO then handle_moved_to wd_of ev p event_fd move m
               else if flagged ev IN_DELETE then do {
                 _ \<leftarrow> emit_delete_task (m_root m) p is_dir event_fd;
                 _ \<leftarrow> log_message (m_log_fd m) LOG_INFO (''monitor: delete '' @ p);
                 ret (0, move, m)
               }
               else if flagged ev IN_CREATE then do {
                 t \<leftarrow> build_task_from_path EVENT_CREATE (m_root m) p;
                 _ \<leftarrow> (case t of
                    None \<Rightarrow> ret ()
                  | Some task \<Rightarrow> do {
                      _ \<leftarrow> emit_task event_fd task;
                      log_message (m_log_fd m) LOG_INFO (''monitor: create '' @ t_rel_path task)
                    });
                 m1 \<leftarrow> (if flagged ev IN_ISDIR then new_directory wd_of p event_fd m else ret m);
                 ret (0, move, m1)
               }
               else if (flagged ev IN_CLOSE_WRITE \<or> flagged ev IN_MODIFY) \<and> \<not> flagged ev IN_ISDIR then do {
                 t \<leftarrow> build_task_from_path EVENT_MODIFY (m_root m) p;
                 _ \<leftarrow> (case t of
                    None \<Rightarrow> ret ()
                  | Some task \<Rightarrow> do {
                      _ \<leftarrow> emit_task event_fd task;
                      log_message (m_log_fd m) LOG_DEBUG (''monitor: modify '' @ t_rel_path task)
                    });
                 ret (0, move, m)
               }
               else ret (0, move, m)))"

section \<open>The process\<close>

text \<open>The image of an event: four numbers and a name that fills \<open>ev_len\<close> bytes with NULs.\<close>

definition event_bytes :: "inotify_event \<Rightarrow> bytes" where
  "event_bytes ev = u32_bytes (ev_wd ev) @ u32_bytes (ev_mask ev) @ u32_bytes (ev_cookie ev) @
     u32_bytes (ev_len ev) @ char_array (unat (ev_len ev)) (ev_name ev)"

definition event_of :: "bytes \<Rightarrow> inotify_event" where
  "event_of b = \<lparr>ev_wd = u32_at 0 b, ev_mask = u32_at 4 b, ev_cookie = u32_at 8 b, ev_len = u32_at 12 b,
     ev_name = cstr (take (unat (u32_at 12 b)) (drop 16 b))\<rparr>"

text \<open>The walk over a buffer that \<^verbatim>\<open>read\<close> filled; the kernel stores whole events.\<close>

function parse_events :: "bytes \<Rightarrow> inotify_event list" where
  "parse_events b =
     (if b = [] then [] else event_of b # parse_events (drop (16 + unat (ev_len (event_of b))) b))"
  by pat_completeness auto
termination by (relation "measure length") auto

declare parse_events.simps [simp del]

fun handle_events ::
  "(world \<Rightarrow> path \<Rightarrow> int) \<Rightarrow> inotify_event list \<Rightarrow> int \<Rightarrow> move_record \<Rightarrow> monitor \<Rightarrow>
   (move_record \<times> monitor) prog" where
  "handle_events wd_of [] event_fd move m = ret (move, m)"
| "handle_events wd_of (ev # evs) event_fd move m = do {
     r \<leftarrow> handle_event wd_of ev event_fd move m;
     handle_events wd_of evs event_fd (fst (snd r)) (snd (snd r))
   }"

text \<open>
  What the kernel reports: the outcomes of \<^verbatim>\<open>select\<close>, and with a readable descriptor the outcomes
  of the \<^verbatim>\<open>read\<close>s that follow, of which the one after the last is \<^verbatim>\<open>EAGAIN\<close>.
\<close>

datatype wakeup = Interrupted | Select_failed | Timed_out | Readable "(errno + bytes) list"

text \<open>\<open>Inl\<close> is the exit status of the process.\<close>

fun drain_reads ::
  "(world \<Rightarrow> path \<Rightarrow> int) \<Rightarrow> (errno + bytes) list \<Rightarrow> int \<Rightarrow> move_record \<Rightarrow> monitor \<Rightarrow>
   (int + move_record \<times> monitor) prog" where
  "drain_reads wd_of [] event_fd move m = ret (Inr (move, m))"
| "drain_reads wd_of (Inl e # reads) event_fd move m =
     (if e = EINTR then drain_reads wd_of reads event_fd move m
      else if e = EAGAIN then ret (Inr (move, m))
      else do {
        _ \<leftarrow> log_message (m_log_fd m) LOG_ERROR (''monitor: read inotify failed: '' @ strerror e);
        ret (Inl 1)
      })"
| "drain_reads wd_of (Inr buf # reads) event_fd move m = do {
     r \<leftarrow> handle_events wd_of (parse_events buf) event_fd move m;
     drain_reads wd_of reads event_fd (fst r) (snd r)
   }"

definition expire_move :: "int \<Rightarrow> move_record \<Rightarrow> monitor \<Rightarrow> move_record prog" where
  "expire_move event_fd move m =
     (if mv_cookie move = 0 then ret move
      else do {
        now \<leftarrow> current_time_ms;
        if now - mv_ts_ms move > 2000 then do {
          _ \<leftarrow> emit_delete_task (m_root m) (mv_old_path move) (mv_is_dir move) event_fd;
          ret empty_move
        }
        else ret move
      })"

text \<open>The exit status, \<open>None\<close> while the process runs on.\<close>

fun monitor_loop ::
  "(world \<Rightarrow> path \<Rightarrow> int) \<Rightarrow> wakeup list \<Rightarrow> int \<Rightarrow> move_record \<Rightarrow> monitor \<Rightarrow> (int option \<times> monitor) prog" where
  "monitor_loop wd_of [] event_fd move m = ret (None, m)"
| "monitor_loop wd_of (wk # wks) event_fd move m =
     (case wk of
        Interrupted \<Rightarrow> monitor_loop wd_of wks event_fd move m
      | Select_failed \<Rightarrow> ret (Some 0, m)
      | Timed_out \<Rightarrow> do {
          move1 \<leftarrow> expire_move event_fd move m;
          m1 \<leftarrow> poll_scan_and_emit_changes (m_root m) event_fd m;
          monitor_loop wd_of wks event_fd move1 m1
        }
      | Readable reads \<Rightarrow> do {
          r \<leftarrow> drain_reads wd_of reads event_fd move m;
          (case r of
             Inl status \<Rightarrow> ret (Some status, m)
           | Inr s \<Rightarrow> monitor_loop wd_of wks event_fd (fst s) (snd s))
        })"

text \<open>\<open>inotify_fd\<close> is the descriptor \<^verbatim>\<open>inotify_init1\<close> gives, \<open>last_error\<close> what the library calls of a
  failed \<^verbatim>\<open>add_watch_recursive\<close> have left in \<^verbatim>\<open>errno\<close>.\<close>

definition monitor_process ::
  "(world \<Rightarrow> path \<Rightarrow> int) \<Rightarrow> int \<Rightarrow> errno \<Rightarrow> wakeup list \<Rightarrow> path \<Rightarrow> int \<Rightarrow> int \<Rightarrow> (int option \<times> monitor) prog" where
  "monitor_process wd_of inotify_fd last_error wks src_root event_write_fd log_write_fd = do {
     let m0 = initial_monitor\<lparr>m_log_fd := log_write_fd, m_root := fst (snprintf_s MAX_PATH_LEN src_root)\<rparr>;
     i \<leftarrow> syscall (\<lambda>w. (Inr () :: errno + unit, w));
     (case i of
        Inl e \<Rightarrow> do {
          _ \<leftarrow> log_message log_write_fd LOG_ERROR (''monitor: inotify_init failed: '' @ strerror e);
          ret (Some 1, m0)
        }
      | Inr _ \<Rightarrow> do {
          a \<leftarrow> add_watch_recursive wd_of src_root (m0\<lparr>m_inotify_fd := inotify_fd\<rparr>);
          _ \<leftarrow> (if fst a < 0
            then log_message log_write_fd LOG_ERROR
              (''monitor: add_watch_recursive failed: '' @ strerror last_error) else ret ());
          s \<leftarrow> scan_directory_and_emit_tasks wd_of src_root src_root event_write_fd (snd a);
          _ \<leftarrow> log_message log_write_fd LOG_INFO (''monitor: initial scan completed root='' @ src_root);
          monitor_loop wd_of wks event_write_fd empty_move (snd s)
        })
   }"

end
