(* ===== verification/MonitorLaws.thy ===== *)
theory MonitorLaws
  imports Monitor
begin

text \<open>
  What the tables of the monitor are, that walking a directory tree looks at every entry once, and
  what the scans put on the event pipe.
\<close>

section \<open>The watch table\<close>

text \<open>No watch number has two entries, and no path is longer than its buffer.\<close>

definition watches_ok :: "watch_item list \<Rightarrow> bool" where
  "watches_ok items \<longleftrightarrow> distinct (map wi_wd items) \<and> length items \<le> MAX_WATCHES \<and>
     (\<forall>x \<in> set items. length (wi_path x) < MAX_PATH_LEN)"

lemma index_of_cong: "length xs = length ys \<Longrightarrow> (\<And>i. i < length xs \<Longrightarrow> P (xs ! i) = Q (ys ! i)) \<Longrightarrow>
   index_of P xs = index_of Q ys"
proof (induction xs ys rule: list_induct2')
  case (4 x xs y ys)
  have "P x = Q y" using 4(3) [of 0] by simp
  moreover have "index_of P xs = index_of Q ys"
    using 4(2) 4(3) [of "Suc i" for i] by (intro 4(1)) auto
  ultimately show ?case by simp
qed simp_all

lemma index_of_append:
  "index_of P (xs @ ys) =
     (case index_of P xs of Some i \<Rightarrow> Some i | None \<Rightarrow> map_option ((+) (length xs)) (index_of P ys))"
  by (induction xs) (auto simp: option.map_comp comp_def map_option_case split: option.splits)

lemma add_watch_item_cases:
  assumes "add_watch_item items wd p = (r, items')"
  obtains (same) "r = - 1" "items' = items"
  | (new) "r = 0" "items' = items @ [\<lparr>wi_wd = wd, wi_path = take 511 p\<rparr>]"
      "index_of (\<lambda>x. wi_wd x = wd) items = None" "length items < MAX_WATCHES"
  | (old) i where "r = 0" "index_of (\<lambda>x. wi_wd x = wd) items = Some i"
      "items' = items[i := (items ! i)\<lparr>wi_path := take 511 p\<rparr>]"
proof (cases "wd < 0")
  case True
  then show ?thesis using assms same by (simp add: add_watch_item_def)
next
  case False
  show ?thesis
  proof (cases "index_of (\<lambda>x. wi_wd x = wd) items")
    case None
    then show ?thesis using assms False same new
      by (cases "length items \<ge> MAX_WATCHES"; cases "length p \<ge> MAX_PATH_LEN")
        (simp_all add: add_watch_item_def snprintf_s_def)
  next
    case (Some i)
    then show ?thesis using assms False old by (simp add: add_watch_item_def snprintf_s_def)
  qed
qed

lemma find_new_watch:
  assumes "index_of (\<lambda>x. wi_wd x = wd) items = None"
  shows "find_path_by_wd (items @ [\<lparr>wi_wd = wd, wi_path = q\<rparr>]) = (find_path_by_wd items)(wd \<mapsto> q)"
proof
  fix v
  show "find_path_by_wd (items @ [\<lparr>wi_wd = wd, wi_path = q\<rparr>]) v = ((find_path_by_wd items)(wd \<mapsto> q)) v"
    using assms index_of_Some [of "\<lambda>x. wi_wd x = v" items]
    by (cases "index_of (\<lambda>x. wi_wd x = v) items")
      (auto simp: find_path_by_wd_def index_of_append nth_append)
qed

lemma find_replaced_watch:
  assumes "index_of (\<lambda>x. wi_wd x = wd) items = Some i"
  shows "find_path_by_wd (items[i := (items ! i)\<lparr>wi_path := q\<rparr>]) = (find_path_by_wd items)(wd \<mapsto> q)"
proof
  fix v
  let ?new = "items[i := (items ! i)\<lparr>wi_path := q\<rparr>]"
  note i = index_of_Some [OF assms]
  have idx: "index_of (\<lambda>x. wi_wd x = v) ?new = index_of (\<lambda>x. wi_wd x = v) items"
  proof (rule index_of_cong)
    show "(wi_wd (?new ! j) = v) = (wi_wd (items ! j) = v)" if "j < length ?new" for j
      using that by (cases "j = i") simp_all
  qed simp
  show "find_path_by_wd ?new v = ((find_path_by_wd items)(wd \<mapsto> q)) v"
  proof (cases "v = wd")
    case True
    then show ?thesis using assms i idx by (simp add: find_path_by_wd_def)
  next
    case False
    then have "index_of (\<lambda>x. wi_wd x = v) items \<noteq> Some i"
      using i index_of_Some [of "\<lambda>x. wi_wd x = v" items i] by auto
    then show ?thesis using False idx
      by (cases "index_of (\<lambda>x. wi_wd x = v) items") (auto simp: find_path_by_wd_def)
  qed
qed

lemma add_watch_item_spec:
  assumes ok: "watches_ok items" and run: "add_watch_item items wd p = (r, items')"
  shows "watches_ok items' \<and> (if r = 0 then find_path_by_wd items' = (find_path_by_wd items)(wd \<mapsto> take 511 p)
    else r = - 1 \<and> items' = items)"
  using run
proof (cases rule: add_watch_item_cases)
  case same
  then show ?thesis using ok by simp
next
  case new
  have "watches_ok items'" using new ok by (auto simp: watches_ok_def index_of_None)
  then show ?thesis using new find_new_watch by simp
next
  case (old i)
  have i: "i < length items" using index_of_Some [OF old(2)] by simp
  have ids: "map wi_wd items' = map wi_wd items" using i by (simp add: old(3) map_update list_update_same_conv)
  have "length (wi_path x) < MAX_PATH_LEN" if "x \<in> set items'" for x
    using that ok set_update_subset_insert [of items i] unfolding old(3) watches_ok_def by fastforce
  then have "watches_ok items'" using ok ids old(3) by (simp add: watches_ok_def)
  then show ?thesis using old find_replaced_watch by simp
qed

section \<open>The events of a buffer\<close>

definition event_ok :: "inotify_event \<Rightarrow> bool" where
  "event_ok ev \<longleftrightarrow> is_cstr (ev_name ev) \<and> (length (ev_name ev) < unat (ev_len ev) \<or> ev_len ev = 0 \<and> ev_name ev = [])"

lemma length_event_bytes: "event_ok ev \<Longrightarrow> length (event_bytes ev) = 16 + unat (ev_len ev)"
  by (auto simp: event_bytes_def event_ok_def char_array_def)

lemma event_of_bytes: "event_ok ev \<Longrightarrow> event_of (event_bytes ev @ r) = ev"
proof -
  assume ok: "event_ok ev"
  have n: "length (char_array (unat (ev_len ev)) (ev_name ev)) = unat (ev_len ev)"
    using ok by (auto simp: event_ok_def char_array_def)
  have "cstr (char_array (unat (ev_len ev)) (ev_name ev)) = ev_name ev"
    using ok cstr_char_array [of "ev_name ev" "unat (ev_len ev)"]
    by (auto simp: event_ok_def) (simp add: char_array_def cstr_def)
  then show ?thesis using n by (simp add: event_of_def event_bytes_def)
qed

lemma parse_event_bytes:
  "\<forall>ev \<in> set evs. event_ok ev \<Longrightarrow> parse_events (concat (map event_bytes evs)) = evs"
proof (induction evs)
  case Nil
  then show ?case by (simp add: parse_events.simps)
next
  case (Cons ev evs)
  then have ok: "event_ok ev" by simp
  have "event_bytes ev \<noteq> []" using length_event_bytes [OF ok] by auto
  then show ?case
    using Cons event_of_bytes [OF ok, of "concat (map event_bytes evs)"] length_event_bytes [OF ok]
    by (subst parse_events.simps) (simp add: drop_append)
qed

section \<open>Walking a tree\<close>

lemma walk_step:
  "run_state (sys_listdir dir) w = (x, w1) \<Longrightarrow> walk enter visit dir st w =
     (case x of
        Inl e \<Rightarrow> ((- 1, st), w1)
      | Inr names \<Rightarrow>
          (case run_state (enter dir st) w1 of
             ((False, st1), w2) \<Rightarrow> ((- 1, st1), w2)
           | ((True, st1), w2) \<Rightarrow>
               (case walk_entries enter visit dir names st1 w2 of (st2, w3) \<Rightarrow> ((0, st2), w3))))"
  by (subst walk.simps) (simp split: sum.split)

lemma entries_Nil: "walk_entries enter visit dir [] st w = (st, w)"
  by (simp add: walk_entries.simps)

lemma entries_skip:
  "entry_path dir name = None \<Longrightarrow>
   walk_entries enter visit dir (name # names) st w = walk_entries enter visit dir names st w"
  by (simp add: walk_entries.simps)

lemma entries_visit:
  "entry_path dir name = Some p \<Longrightarrow> run_state (visit p st) w = ((b, st1), w1) \<Longrightarrow>
   walk_entries enter visit dir (name # names) st w =
     (if b then (case walk enter visit p st1 w1 of (r, w2) \<Rightarrow> walk_entries enter visit dir names (snd r) w2)
      else walk_entries enter visit dir names st1 w1)"
  by (simp add: walk_entries.simps split: bool.split)

text \<open>
  A relation kept by what is done with a directory and with an entry is kept by the walk; it may
  rest on an invariant of the state that is passed along.
\<close>

definition keeps_both :: "('s \<Rightarrow> bool) \<Rightarrow> (world \<Rightarrow> world \<Rightarrow> bool) \<Rightarrow> 's visitor \<Rightarrow> bool" where
  "keeps_both P R v \<longleftrightarrow>
     (\<forall>p s w b s' w'. P s \<longrightarrow> run_state (v p s) w = ((b, s'), w') \<longrightarrow> P s' \<and> R w w')"

context world_relation
begin

lemma listing: "run_state (sys_listdir dir) w = (x, w1) \<Longrightarrow> R w w1"
proof (rule runD)
  show "state_io_rel R (sys_listdir dir)" unfolding sys_listdir_def by (rule syscall) (simp only: snd_conv refl)
qed

lemma walking_inv:
  "keeps_both P R enter \<longrightarrow> keeps_both P R visit \<longrightarrow> P st \<longrightarrow>
     P (snd (fst (walk enter visit dir st w))) \<and> R w (snd (walk enter visit dir st w))"
  "keeps_both P R enter \<longrightarrow> keeps_both P R visit \<longrightarrow> P st \<longrightarrow>
     P (fst (walk_entries enter visit dir names st w)) \<and> R w (snd (walk_entries enter visit dir names st w))"
proof (induction enter visit dir st w and enter visit dir names st w rule: walk_walk_entries.induct)
  case (1 enter visit dir st w)
  show ?case
  proof (intro impI)
    assume e: "keeps_both P R enter" and v: "keeps_both P R visit" and p: "P st"
    obtain x w1 where l: "run_state (sys_listdir dir) w = (x, w1)" by (rule prod.exhaust)
    have r1: "R w w1" by (rule listing [OF l])
    show "P (snd (fst (walk enter visit dir st w))) \<and> R w (snd (walk enter visit dir st w))"
    proof (cases x)
      case (Inl a)
      then show ?thesis using r1 p by (simp add: walk_step [OF l])
    next
      case (Inr names)
      obtain b st1 w2 where n: "run_state (enter dir st) w1 = ((b, st1), w2)" by (metis prod.collapse)
      have p1: "P st1" and "R w1 w2" using e p n unfolding keeps_both_def by blast+
      with r1 have r2: "R w w2" using trans by blast
      show ?thesis
      proof (cases b)
        case True
        obtain st2 w3 where k: "walk_entries enter visit dir names st1 w2 = (st2, w3)" by (rule prod.exhaust)
        have "P st2 \<and> R w2 w3"
          using "1.IH" [OF l [symmetric] Inr n [symmetric] HOL.refl] True e v p1 k by simp
        then show ?thesis using Inr n True k r2 trans [of w w2 w3] by (simp add: walk_step [OF l])
      next
        case False
        then show ?thesis using Inr n r2 p1 by (simp add: walk_step [OF l])
      qed
    qed
  qed
next
  case (2 enter visit dir st w)
  show ?case by (simp add: entries_Nil refl)
next
  case (3 enter visit dir name names st w)
  show ?case
  proof (intro impI)
    assume e: "keeps_both P R enter" and v: "keeps_both P R visit" and p: "P st"
    show "P (fst (walk_entries enter visit dir (name # names) st w)) \<and>
        R w (snd (walk_entries enter visit dir (name # names) st w))"
    proof (cases "entry_path dir name")
      case None
      then show ?thesis using "3.IH"(1) [OF None] e v p by (simp add: entries_skip)
    next
      case (Some q)
      obtain b st1 w1 where n: "run_state (visit q st) w = ((b, st1), w1)" by (metis prod.collapse)
      have p1: "P st1" and r1: "R w w1" using v p n unfolding keeps_both_def by blast+
      note step = entries_visit [of dir name q visit, OF Some n]
      show ?thesis
      proof (cases b)
        case True
        obtain r w2 where k: "walk enter visit q st1 w1 = (r, w2)" by (rule prod.exhaust)
        have k2: "P (snd r)" "R w1 w2" using "3.IH"(2) [OF Some n [symmetric] HOL.refl] True e v p1 k by simp_all
        obtain st3 w3 where m: "walk_entries enter visit dir names (snd r) w2 = (st3, w3)" by (rule prod.exhaust)
        have "P st3 \<and> R w2 w3"
          using "3.IH"(3) [OF Some n [symmetric] HOL.refl _ k [symmetric]] True e v k2 m by simp
        then show ?thesis using True k m k2 r1 trans [of w w1 w2] trans [of w w2 w3] by (simp add: step)
      next
        case False
        obtain st3 w3 where m: "walk_entries enter visit dir names st1 w1 = (st3, w3)" by (rule prod.exhaust)
        have "P st3 \<and> R w1 w3" using "3.IH"(4) [OF Some n [symmetric] HOL.refl] False e v p1 m by simp
        then show ?thesis using False m r1 trans [of w w1 w3] by (simp add: step)
      qed
    qed
  qed
qed

lemma walking:
  assumes "\<And>d s. state_io_rel R (enter d s)" and "\<And>p s. state_io_rel R (visit p s)"
  shows "R w (snd (walk enter visit dir st w))"
proof -
  have "keeps_both (\<lambda>_. True) R enter" "keeps_both (\<lambda>_. True) R visit"
    unfolding keeps_both_def using runD [OF assms(1)] runD [OF assms(2)] by blast+
  then show ?thesis using walking_inv(1) [of "\<lambda>_. True" enter visit st] by simp
qed

end

section \<open>The entries of a tree\<close>

definition is_dir_at :: "world \<Rightarrow> path \<Rightarrow> bool" where
  "is_dir_at w p = (case fs_find w p of Inl _ \<Rightarrow> False | Inr n \<Rightarrow> is_dir_node (Some n))"

text \<open>The paths a walk looks at, each directory before its entries; \<open>into\<close> says which are descended
  into.\<close>

function tree_paths :: "(path \<Rightarrow> bool) \<Rightarrow> world \<Rightarrow> path \<Rightarrow> path list" where
  "tree_paths into w dir = concat (map (\<lambda>name.
     case entry_path dir name of
       None \<Rightarrow> []
     | Some p \<Rightarrow> p # (if into p then tree_paths into w p else [])) (dir_entries w dir))"
  by pat_completeness auto
termination
  by (relation "measure (\<lambda>(into, w, dir). MAX_PATH_LEN - length dir)") (auto dest: entry_path_longer)

declare tree_paths.simps [simp del]

definition tree_entry :: "(path \<Rightarrow> bool) \<Rightarrow> world \<Rightarrow> path \<Rightarrow> string \<Rightarrow> path list" where
  "tree_entry into w dir name =
     (case entry_path dir name of
        None \<Rightarrow> []
      | Some p \<Rightarrow> p # (if into p then tree_paths into w p else []))"

lemma tree_entries: "tree_paths into w dir = concat (map (tree_entry into w dir) (dir_entries w dir))"
  by (subst tree_paths.simps) (simp add: tree_entry_def [abs_def])

text \<open>A sequence of visits, with calls in between that only use up the script.\<close>

inductive visits :: "'s visitor \<Rightarrow> path list \<Rightarrow> 's \<Rightarrow> world \<Rightarrow> 's \<Rightarrow> world \<Rightarrow> bool" for visit where
  no_more: "quiet w w' \<Longrightarrow> visits visit [] st w st w'"
| one: "quiet w w1 \<Longrightarrow> run_state (visit p st) w1 = ((b, st1), w2) \<Longrightarrow> visits visit ps st1 w2 st2 w3 \<Longrightarrow>
    visits visit (p # ps) st w st2 w3"

inductive_cases visits_NilE: "visits visit [] st w st' w'"
inductive_cases visits_ConsE: "visits visit (p # ps) st w st' w'"

lemma visits_quiet: "quiet w w1 \<Longrightarrow> visits visit ps st w1 st' w' \<Longrightarrow> visits visit ps st w st' w'"
proof (cases ps)
  case Nil
  assume "quiet w w1" "visits visit ps st w1 st' w'"
  then show ?thesis unfolding Nil by (auto elim!: visits_NilE intro: visits.no_more qr.trans)
next
  case (Cons p qs)
  assume "quiet w w1" "visits visit ps st w1 st' w'"
  then show ?thesis unfolding Cons by (auto elim!: visits_ConsE intro: visits.one qr.trans)
qed

lemma visits_append:
  "visits visit ps st w st1 w1 \<Longrightarrow> visits visit qs st1 w1 st2 w2 \<Longrightarrow> visits visit (ps @ qs) st w st2 w2"
proof (induction rule: visits.induct)
  case (no_more w w' st)
  then show ?case using visits_quiet by simp
next
  case (one w wa p st b st1 wb ps st2 w3)
  then show ?case by (simp add: visits.one)
qed

text \<open>
  Walks in a tree that does not change, without failures: \<open>inv\<close> is an invariant of the worlds, and
  \<open>into\<close> the entries that the visitor descends into.
\<close>

locale tree_walk =
  fixes visit :: "'s visitor" and into :: "path \<Rightarrow> bool" and inv :: "world \<Rightarrow> bool" and w0 :: world
  assumes inv_quiet: "inv w \<Longrightarrow> quiet w w' \<Longrightarrow> inv w'"
    and inv_tree: "inv w \<Longrightarrow> no_failure w \<and> tree_same w0 w"
    and inv_visit: "inv w \<Longrightarrow> run_state (visit p st) w = ((b, st'), w') \<Longrightarrow> inv w' \<and> b = into p"
    and into_dir: "into p \<Longrightarrow> is_dir_at w0 p"
begin

lemma inv_visits: "visits visit ps st w st' w' \<Longrightarrow> inv w \<Longrightarrow> inv w'"
  by (induction rule: visits.induct) (auto dest: inv_quiet inv_visit)

lemma list_ok:
  assumes "inv w" and "is_dir_at w0 dir"
  shows "\<exists>w1. run_state (sys_listdir dir) w = (Inr (dir_entries w0 dir), w1) \<and> quiet w w1"
proof -
  have nf: "no_failure w" and t: "w_fs w = w_fs w0" "w_cwd w = w_cwd w0"
    using inv_tree [OF assms(1)] by (simp_all add: tree_same_def)
  obtain n where "fs_find w0 dir = Inr n" "is_dir_node (Some n)"
    using assms(2) by (auto simp: is_dir_at_def split: sum.splits)
  moreover have "fs_find (rest_script w) dir = fs_find w0 dir"
    "dir_entries (rest_script w) dir = dir_entries w0 dir"
    using t by (simp_all add: fs_find_def pkey_def dir_entries_def)
  ultimately show ?thesis
    by (simp add: sys_listdir_def syscall_no_failure [OF nf] qr.script)
qed

lemma walk_visits:
  "inv w \<longrightarrow> is_dir_at w0 dir \<longrightarrow> visit' = visit \<longrightarrow>
     (\<exists>st' w'. walk no_enter visit' dir st w = ((0, st'), w') \<and> visits visit (tree_paths into w0 dir) st w st' w')"
  "inv w \<longrightarrow> visit' = visit \<longrightarrow>
     (\<exists>st' w'. walk_entries no_enter visit' dir names st w = (st', w') \<and>
        visits visit (concat (map (tree_entry into w0 dir) names)) st w st' w')"
proof (induction "no_enter :: 's visitor" visit' dir st w and "no_enter :: 's visitor" visit' dir names st w
    rule: walk_walk_entries.induct)
  case (1 visit' dir st w)
  show ?case
  proof (intro impI)
    assume i: "inv w" and d: "is_dir_at w0 dir" and v: "visit' = visit"
    from list_ok [OF i d] obtain w1 where l: "run_state (sys_listdir dir) w = (Inr (dir_entries w0 dir), w1)"
      and q: "quiet w w1" by blast
    have n: "run_state (no_enter dir st) w1 = ((True, st), w1)" by (simp add: no_enter_def)
    have "inv w1" using inv_quiet [OF i q] .
    then obtain st' w' where "walk_entries no_enter visit' dir (dir_entries w0 dir) st w1 = (st', w')"
      "visits visit (concat (map (tree_entry into w0 dir) (dir_entries w0 dir))) st w1 st' w'"
      using "1.hyps" [OF l [symmetric] HOL.refl n [symmetric] HOL.refl] v by auto
    then show "\<exists>st' w'. walk no_enter visit' dir st w = ((0, st'), w') \<and>
        visits visit (tree_paths into w0 dir) st w st' w'"
      using n visits_quiet [OF q] by (simp add: walk_step [OF l] tree_entries)
  qed
next
  case (2 visit' dir st w)
  show ?case by (simp add: entries_Nil visits.no_more quiet_refl)
next
  case (3 visit' dir name names st w)
  show ?case
  proof (intro impI)
    assume i: "inv w" and v: "visit' = visit"
    show "\<exists>st' w'. walk_entries no_enter visit' dir (name # names) st w = (st', w') \<and>
        visits visit (concat (map (tree_entry into w0 dir) (name # names))) st w st' w'"
    proof (cases "entry_path dir name")
      case None
      then show ?thesis using "3.hyps"(1) [OF None] i v by (simp add: entries_skip tree_entry_def)
    next
      case (Some p)
      obtain b st1 w1 where n: "run_state (visit p st) w = ((b, st1), w1)" by (metis prod.collapse)
      have i1: "inv w1" and b: "b = into p" using inv_visit [OF i n] by auto
      note e = entries_visit [of dir name p visit, OF Some n, where enter = no_enter and names = names]
      have n': "run_state (visit' p st) w = ((b, st1), w1)" using n v by simp
      show ?thesis
      proof (cases b)
        case True
        then have d: "is_dir_at w0 p" using b into_dir by simp
        obtain st2 w2 where k: "walk no_enter visit' p st1 w1 = ((0, st2), w2)"
          and k2: "visits visit (tree_paths into w0 p) st1 w1 st2 w2"
          using "3.hyps"(2) [OF Some n' [symmetric] HOL.refl] True i1 d v by auto
        have "inv w2" using inv_visits [OF k2 i1] .
        then obtain st' w' where r: "walk_entries no_enter visit' dir names st2 w2 = (st', w')"
          "visits visit (concat (map (tree_entry into w0 dir) names)) st2 w2 st' w'"
          using "3.hyps"(3) [OF Some n' [symmetric] HOL.refl _ k [symmetric]] True v by auto
        have "visits visit (p # tree_paths into w0 p @ concat (map (tree_entry into w0 dir) names)) st w st' w'"
          by (rule visits.one [OF quiet_refl n visits_append [OF k2 r(2)]])
        then show ?thesis using e True k r v b Some by (simp add: tree_entry_def)
      next
        case False
        then obtain st' w' where r: "walk_entries no_enter visit' dir names st1 w1 = (st', w')"
          "visits visit (concat (map (tree_entry into w0 dir) names)) st1 w1 st' w'"
          using "3.hyps"(4) [OF Some n' [symmetric] HOL.refl] i1 v by auto
        have "visits visit (p # concat (map (tree_entry into w0 dir) names)) st w st' w'"
          by (rule visits.one [OF quiet_refl n r(2)])
        then show ?thesis using e False r v b Some by (simp add: tree_entry_def)
      qed
    qed
  qed
qed

end

end
