(* ===== verification/PollLaws.thy ===== *)
theory PollLaws
  imports MonitorLaws FileProperties
begin

text \<open>
  Polling: the walk looks at every entry below the root once, and what it sends is the difference
  between the table of snapshots and the tree.
\<close>

section \<open>The paths of a walk\<close>

definition dir_slash :: "path \<Rightarrow> path" where
  "dir_slash dir = joined dir []"

lemma entry_nameD: "entry_name n \<Longrightarrow> n \<noteq> [] \<and> hd n \<noteq> slash \<and> last n \<noteq> slash"
  by (auto simp: entry_name_def dest: hd_in_set last_in_set)

lemma joined_entry: "entry_name n \<Longrightarrow> joined dir n = dir_slash dir @ n"
  by (cases n) (auto simp: joined_def dir_slash_def entry_name_def Let_def)

lemma entry_path_Some:
  assumes "entry_path dir n = Some p"
  shows "entry_name n" and "p = dir_slash dir @ n" and "dir_slash p = p @ [slash]"
    and "n \<noteq> ''.''" and "n \<noteq> ''..''" and "length p < MAX_PATH_LEN"
proof -
  have *: "entry_name n" "n \<noteq> ''.''" "n \<noteq> ''..''" "join_path MAX_PATH_LEN dir n = Some p"
    using assms by (auto simp: entry_path_def split: if_splits)
  have p: "p = joined dir n" "length p < MAX_PATH_LEN" using join_path_Some [OF *(4)] by blast+
  then have p': "p = dir_slash dir @ n" using joined_entry [OF *(1)] by simp
  have "last p \<noteq> slash" "p \<noteq> []" using p' entry_nameD [OF *(1)] by simp_all
  then show "dir_slash p = p @ [slash]" by (simp add: dir_slash_def joined_def Let_def)
  show "entry_name n" "p = dir_slash dir @ n" "n \<noteq> ''.''" "n \<noteq> ''..''" "length p < MAX_PATH_LEN"
    using * p' p by simp_all
qed

lemma entry_path_distinct: "entry_path dir n = Some p \<Longrightarrow> entry_path dir m = Some p \<Longrightarrow> n = m"
  using entry_path_Some(2) [of dir n p] entry_path_Some(2) [of dir m p] by simp

inductive tree_reach :: "(path \<Rightarrow> bool) \<Rightarrow> world \<Rightarrow> path \<Rightarrow> path \<Rightarrow> bool" for into w dir where
  child: "n \<in> set (dir_entries w dir) \<Longrightarrow> entry_path dir n = Some p \<Longrightarrow> tree_reach into w dir p"
| deeper: "tree_reach into w dir p \<Longrightarrow> into p \<Longrightarrow> n \<in> set (dir_entries w p) \<Longrightarrow> entry_path p n = Some q \<Longrightarrow>
    tree_reach into w dir q"

lemma tree_reach_under:
  "tree_reach into w p q \<Longrightarrow> into p \<Longrightarrow> n \<in> set (dir_entries w dir) \<Longrightarrow> entry_path dir n = Some p \<Longrightarrow>
   tree_reach into w dir q"
  by (induction rule: tree_reach.induct) (auto intro: tree_reach.intros)

lemma tree_paths_mem:
  "q \<in> set (tree_paths into w dir) \<longleftrightarrow> (\<exists>n \<in> set (dir_entries w dir). q \<in> set (tree_entry into w dir n))"
  by (simp add: tree_entries)

lemma tree_entry_mem:
  "q \<in> set (tree_entry into w dir n) \<longleftrightarrow>
     (\<exists>p. entry_path dir n = Some p \<and> (q = p \<or> into p \<and> q \<in> set (tree_paths into w p)))"
  by (cases "entry_path dir n") (auto simp: tree_entry_def)

lemmas tree_mem = tree_paths_mem tree_entry_mem

lemma tree_paths_reach: "q \<in> set (tree_paths into w dir) \<Longrightarrow> tree_reach into w dir q"
proof (induction into w dir rule: tree_paths.induct)
  case (1 into w dir)
  then obtain n p where n: "n \<in> set (dir_entries w dir)" "entry_path dir n = Some p"
    "q = p \<or> into p \<and> q \<in> set (tree_paths into w p)"
    unfolding tree_paths_mem [of q into w dir] tree_entry_mem by blast
  then show ?case using "1.IH" [OF n(1,2)] tree_reach_under tree_reach.child by blast
qed

lemma reach_tree_paths: "tree_reach into w dir q \<Longrightarrow> q \<in> set (tree_paths into w dir)"
proof -
  have down: "p \<in> set (tree_paths into w dir) \<Longrightarrow> into p \<Longrightarrow> n \<in> set (dir_entries w p) \<Longrightarrow>
      entry_path p n = Some q \<Longrightarrow> q \<in> set (tree_paths into w dir)" for p n q
  proof (induction into w dir rule: tree_paths.induct)
    case (1 into w dir)
    then obtain k r where k: "k \<in> set (dir_entries w dir)" "entry_path dir k = Some r"
      "p = r \<or> into r \<and> p \<in> set (tree_paths into w r)"
      unfolding tree_paths_mem [of p into w dir] tree_entry_mem by blast
    have "into r \<and> q \<in> set (tree_paths into w r)"
    proof (cases "p = r")
      case True
      then show ?thesis using "1.prems"(2-4) unfolding tree_paths_mem [of q into w r] tree_entry_mem by blast
    next
      case False
      then show ?thesis using "1.IH" [OF k(1,2)] k(3) "1.prems"(2-4) by blast
    qed
    then show ?case using k(1,2) unfolding tree_paths_mem [of q into w dir] tree_entry_mem by blast
  qed
  show "tree_reach into w dir q \<Longrightarrow> q \<in> set (tree_paths into w dir)"
  proof (induction rule: tree_reach.induct)
    case (child n p)
    then show ?case unfolding tree_paths_mem [of p into w dir] tree_entry_mem by blast
  next
    case (deeper p n q)
    then show ?case using down by blast
  qed
qed

lemma set_tree_paths: "set (tree_paths into w dir) = {q. tree_reach into w dir q}"
  using tree_paths_reach reach_tree_paths by blast

lemma tree_paths_prefix:
  "q \<in> set (tree_paths into w dir) \<Longrightarrow> \<exists>z. q = dir_slash dir @ z \<and> z \<noteq> [] \<and> hd z \<noteq> slash \<and> length q < MAX_PATH_LEN"
proof (induction into w dir rule: tree_paths.induct)
  case (1 into w dir)
  then obtain n p where n: "n \<in> set (dir_entries w dir)" "entry_path dir n = Some p"
    "q = p \<or> into p \<and> q \<in> set (tree_paths into w p)"
    unfolding tree_paths_mem [of q into w dir] tree_entry_mem by blast
  note e = entry_path_Some [OF n(2)]
  have nz: "n \<noteq> []" "hd n \<noteq> slash" using entry_nameD [OF e(1)] by simp_all
  from n(3) show ?case
  proof
    assume "q = p"
    then show ?thesis using e(2,6) nz by auto
  next
    assume "into p \<and> q \<in> set (tree_paths into w p)"
    then obtain z where "q = (p @ [slash]) @ z" "length q < MAX_PATH_LEN"
      using "1.IH" [OF n(1,2)] e(3) by auto
    then show ?thesis using e(2) nz by auto
  qed
qed

text \<open>The first name behind the directory tells the entries apart.\<close>

lemma tree_entry_name:
  assumes "q \<in> set (tree_entry into w dir n)"
  shows "takeWhile (\<lambda>c. c \<noteq> slash) (drop (length (dir_slash dir)) q) = n"
proof -
  obtain p where p: "entry_path dir n = Some p" "q = p \<or> into p \<and> q \<in> set (tree_paths into w p)"
    using assms by (auto simp: tree_entry_mem)
  note e = entry_path_Some [OF p(1)]
  have ns: "c \<noteq> slash" if "c \<in> set n" for c using e(1) that by (auto simp: entry_name_def)
  have n: "takeWhile (\<lambda>c. c \<noteq> slash) n = n" "takeWhile (\<lambda>c. c \<noteq> slash) (n @ slash # z) = n" for z
    using ns by (simp_all add: takeWhile_append2)
  from p(2) obtain z where "q = p \<or> q = p @ slash # z"
    using tree_paths_prefix [of q into w p] e(3) by auto
  then show ?thesis using n e(2) by (elim disjE) simp_all
qed

lemma distinct_concat_map:
  "distinct ns \<Longrightarrow> (\<And>n. n \<in> set ns \<Longrightarrow> distinct (f n)) \<Longrightarrow> (\<And>n m x. x \<in> set (f n) \<Longrightarrow> x \<in> set (f m) \<Longrightarrow> n = m) \<Longrightarrow>
   distinct (concat (map f ns))"
  by (induction ns) auto

lemma children_mem: "c \<in> set (fs_children fs k) \<longleftrightarrow> k @ [c] \<in> set (map fst fs)"
proof
  assume "c \<in> set (fs_children fs k)"
  then obtain a n where "(a, n) \<in> set fs" "a \<noteq> []" "butlast a = k" "last a = c"
    by (auto simp: fs_children_def split: if_splits)
  then show "k @ [c] \<in> set (map fst fs)" by (auto intro!: image_eqI [of _ _ "(a, n)"])
next
  assume "k @ [c] \<in> set (map fst fs)"
  then obtain n where "(k @ [c], n) \<in> set fs" by auto
  then show "c \<in> set (fs_children fs k)" by (force simp: fs_children_def)
qed

lemma children_Cons:
  "fs_children ((a, n) # fs) k =
     (if a \<noteq> [] \<and> butlast a = k then last a # fs_children fs k else fs_children fs k)"
  by (simp add: fs_children_def)

lemma children_distinct: "distinct (map fst fs) \<Longrightarrow> distinct (fs_children fs k)"
proof (induction fs)
  case Nil
  then show ?case by (simp add: fs_children_def)
next
  case (Cons x fs)
  obtain a n where x: "x = (a, n)" by (cases x)
  have "last a \<notin> set (fs_children fs k)" if "a \<noteq> []" "butlast a = k"
  proof -
    have "k @ [last a] = a" using that by auto
    then show ?thesis using Cons.prems x by (simp add: children_mem)
  qed
  then show ?case using Cons x by (simp add: children_Cons)
qed

lemma tree_entries_children:
  "tree_paths into w dir =
     concat (map (tree_entry into w dir) (filter entry_name (fs_children (w_fs w) (pkey w dir))))"
  by (simp add: tree_entries dir_entries_def tree_entry_def entry_path_def)

lemma tree_paths_distinct:
  assumes "fs_wf (w_fs w)"
  shows "distinct (tree_paths into w dir)"
  using assms
proof (induction into w dir rule: tree_paths.induct)
  case (1 into w dir)
  have "distinct (filter entry_name (fs_children (w_fs w) (pkey w dir)))"
    using children_distinct "1.prems" by (simp add: fs_wf_def)
  moreover have "distinct (tree_entry into w dir n)"
    if "n \<in> set (filter entry_name (fs_children (w_fs w) (pkey w dir)))" for n
  proof (cases "entry_path dir n")
    case None
    then show ?thesis by (simp add: tree_entry_def)
  next
    case (Some p)
    have "n \<in> set (dir_entries w dir)" using that by (simp add: dir_entries_def)
    moreover have "p \<notin> set (tree_paths into w p)"
      using tree_paths_prefix [of p into w p] entry_path_Some(3) [OF Some] by auto
    ultimately show ?thesis using Some "1.IH" [OF _ Some] "1.prems" by (simp add: tree_entry_def)
  qed
  moreover have "n = m" if "x \<in> set (tree_entry into w dir n)" "x \<in> set (tree_entry into w dir m)" for n m x
    using tree_entry_name [OF that(1)] tree_entry_name [OF that(2)] by simp
  ultimately show ?case unfolding tree_entries_children by (rule distinct_concat_map)
qed

section \<open>The task of a path\<close>

definition task_at :: "world \<Rightarrow> 32 word \<Rightarrow> path \<Rightarrow> path \<Rightarrow> sync_task option" where
  "task_at w ev root p =
     (if length p \<ge> MAX_PATH_LEN \<or> fst (get_relative_path [] MAX_PATH_LEN root p) < 0 then None
      else let task = init_sync_task\<lparr>t_event_type := ev, t_src_path := p,
             t_rel_path := snd (get_relative_path [] MAX_PATH_LEN root p)\<rparr> in
        Some (case fs_find w p of
            Inl _ \<Rightarrow> task
          | Inr n \<Rightarrow> task\<lparr>t_file_size := word_of_int (st_size (node_stat n)), t_mode := st_mode (node_stat n),
              t_mtime := word_of_int (st_mtime (node_stat n)),
              t_is_dir := (if is_dir_node (Some n) then 1 else 0)\<rparr>))"

lemma fs_find_tree: "tree_same w0 w \<Longrightarrow> fs_find w p = fs_find w0 p"
  by (simp add: tree_same_def fs_find_def pkey_def)


lemma build_task_run:
  assumes "no_failure w" and "tree_same w0 w"
  shows "\<exists>w1. run_state (build_task_from_path ev root p) w = (task_at w0 ev root p, w1) \<and> quiet w w1"
proof -
  have st: "run_state (sys_stat p) w = (map_sum id node_stat (fs_find w0 p), rest_script w)"
    using fs_find_tree [OF assms(2), of p] by (simp add: sys_stat_def syscall_no_failure [OF assms(1)] fs_find_rest)
  show ?thesis
  proof (cases "length p \<ge> MAX_PATH_LEN \<or> fst (get_relative_path [] MAX_PATH_LEN root p) < 0")
    case True
    then show ?thesis
      by (intro exI [of _ w]) (auto simp: build_task_from_path_def task_at_def snprintf_s_def quiet_refl
          split: prod.splits)
  next
    case False
    then show ?thesis
      by (intro exI [of _ "rest_script w"])
        (auto simp: build_task_from_path_def task_at_def snprintf_s_def st qr.script Let_def S_ISDIR_node
          split: prod.splits sum.splits)
  qed
qed

text \<open>The relative path of an entry below the root is what follows the root.\<close>

definition one_slash :: "path \<Rightarrow> bool" where
  "one_slash root \<longleftrightarrow> root \<noteq> [] \<and> length root \<le> Suc (length (strip_trailing root))"

lemma task_at_below:
  assumes root: "one_slash root" and q: "q \<in> set (tree_paths into w root)"
    and t: "task_at w0 ev root q = Some t"
  shows "q = dir_slash root @ t_rel_path t \<and> t_src_path t = q \<and> t_event_type t = ev \<and>
    length (t_rel_path t) < MAX_PATH_LEN \<and> t_old_rel_path t = [] \<and> length q < MAX_PATH_LEN"
proof -
  obtain z where z: "q = dir_slash root @ z" "z \<noteq> []" "hd z \<noteq> slash" "length q < MAX_PATH_LEN"
    using tree_paths_prefix [OF q] by blast
  have j: "q = joined root z" using z(1-3) by (cases z) (auto simp: dir_slash_def joined_def Let_def)
  have f: "snd (get_relative_path [] MAX_PATH_LEN root q) = t_rel_path t" "t_src_path t = q"
    "t_event_type t = ev" "t_old_rel_path t = []" "\<not> fst (get_relative_path [] MAX_PATH_LEN root q) < 0"
    using t by (auto simp: task_at_def Let_def init_sync_task_def split: if_splits sum.splits)
  have "length z < MAX_PATH_LEN" using z(1,4) by simp
  then have "t_rel_path t = z"
    using get_relative_joined [OF _ _ z(2,3), of root MAX_PATH_LEN "[]"] root f(1) j by (simp add: one_slash_def)
  then show ?thesis using z f by auto
qed

section \<open>Polling the entries\<close>

text \<open>Worlds without failures in which the tree stays as it is.\<close>

definition undisturbed :: "world \<Rightarrow> world \<Rightarrow> bool" where
  "undisturbed w0 w \<longleftrightarrow> no_failure w \<and> tree_same w0 w"

definition keeps_calm :: "world \<Rightarrow> world \<Rightarrow> bool" where
  "keeps_calm w w' \<longleftrightarrow> tree_same w w' \<and> (no_failure w \<longrightarrow> no_failure w')"

interpretation kcr: world_relation keeps_calm
  by unfold_locales (auto simp: keeps_calm_def tree_same_def dest: no_failure_rest)

lemma talks_keeps_calm: "talks fd w w' \<Longrightarrow> keeps_calm w w'"
  by (simp add: keeps_calm_def talks_tree no_failure_talks)

lemma talking_keeps_calm: "state_io_rel (talks fd) m \<Longrightarrow> state_io_rel keeps_calm m"
  by (auto simp: state_io_rel_def intro: talks_keeps_calm)

lemma undisturbed_calm: "undisturbed w0 w \<Longrightarrow> keeps_calm w w' \<Longrightarrow> undisturbed w0 w'"
  by (auto simp: undisturbed_def keeps_calm_def tree_same_def)

lemma emit_talks: "state_io_rel (talks fd) (emit_task fd t)"
  unfolding emit_task_def by (intro tkr.rules write_full_talks)

lemmas calm_rules = talking_keeps_calm [OF emit_talks] talking_keeps_calm [OF log_message_talks]

lemma poll_task_calm: "state_io_rel keeps_calm (poll_task fd task m)"
  unfolding poll_task_def by (intro kcr.rules calm_rules)

definition poll_into :: "path \<Rightarrow> world \<Rightarrow> path \<Rightarrow> bool" where
  "poll_into root w p = (case task_at w EVENT_MODIFY root p of None \<Rightarrow> False | Some t \<Rightarrow> t_is_dir t \<noteq> 0)"

lemma poll_into_dir: "poll_into root w p \<Longrightarrow> is_dir_at w p"
  by (auto simp: poll_into_def task_at_def is_dir_at_def Let_def init_sync_task_def
      split: option.splits sum.splits if_splits)

lemma poll_visit_run:
  assumes "undisturbed w0 w" and "run_state (poll_visit root fd p m) w = ((b, m'), w')"
  shows "\<exists>w1. quiet w w1 \<and> (case task_at w0 EVENT_MODIFY root p of
      None \<Rightarrow> m' = m \<and> w' = w1 \<and> \<not> b
    | Some t \<Rightarrow> run_state (poll_task fd t m) w1 = (m', w') \<and> b = (t_is_dir t \<noteq> 0))"
proof -
  obtain w1 where w1: "run_state (build_task_from_path EVENT_MODIFY root p) w =
      (task_at w0 EVENT_MODIFY root p, w1)" "quiet w w1"
    using build_task_run assms(1) unfolding undisturbed_def by blast
  have "case task_at w0 EVENT_MODIFY root p of
      None \<Rightarrow> m' = m \<and> w' = w1 \<and> \<not> b
    | Some t \<Rightarrow> run_state (poll_task fd t m) w1 = (m', w') \<and> b = (t_is_dir t \<noteq> 0)"
    using assms(2) w1(1)
    by (cases "task_at w0 EVENT_MODIFY root p") (auto simp: poll_visit_def split: prod.splits)
  then show ?thesis using w1(2) by blast
qed

lemma quiet_keeps_calm: "quiet w w' \<Longrightarrow> keeps_calm w w'"
  by (rule kcr.quiet)

interpretation pw: tree_walk "poll_visit root fd" "poll_into root w0" "undisturbed w0" w0 for root fd w0
proof
  show "undisturbed w0 w \<Longrightarrow> quiet w w' \<Longrightarrow> undisturbed w0 w'" for w w'
    by (rule undisturbed_calm [OF _ quiet_keeps_calm])
  show "undisturbed w0 w \<Longrightarrow> no_failure w \<and> tree_same w0 w" for w by (simp add: undisturbed_def)
  show "poll_into root w0 p \<Longrightarrow> is_dir_at w0 p" for p by (rule poll_into_dir)
  fix w p m b m' w'
  assume u: "undisturbed w0 w" and r: "run_state (poll_visit root fd p m) w = ((b, m'), w')"
  from poll_visit_run [OF u r] obtain w1 where w1: "quiet w w1" and
    c: "case task_at w0 EVENT_MODIFY root p of
      None \<Rightarrow> m' = m \<and> w' = w1 \<and> \<not> b
    | Some t \<Rightarrow> run_state (poll_task fd t m) w1 = (m', w') \<and> b = (t_is_dir t \<noteq> 0)" by blast
  have u1: "undisturbed w0 w1" by (rule undisturbed_calm [OF u quiet_keeps_calm [OF w1]])
  show "undisturbed w0 w' \<and> b = poll_into root w0 p"
  proof (cases "task_at w0 EVENT_MODIFY root p")
    case None
    then show ?thesis using c u1 by (simp add: poll_into_def)
  next
    case (Some t)
    then have "run_state (poll_task fd t m) w1 = (m', w')" using c by simp
    then have "keeps_calm w1 w'" by (rule kcr.runD [OF poll_task_calm])
    then show ?thesis using undisturbed_calm [OF u1] c Some by (simp add: poll_into_def)
  qed
qed

section \<open>What polling stores and sends\<close>

type_synonym snapshots = "string \<Rightarrow> file_snapshot option"

definition poll_emits :: "snapshots \<Rightarrow> sync_task \<Rightarrow> sync_task list" where
  "poll_emits \<sigma> t =
     (case \<sigma> (t_rel_path t) of
        None \<Rightarrow> [t\<lparr>t_event_type := EVENT_CREATE\<rparr>]
      | Some s \<Rightarrow> if snapshot_differs s t then [t\<lparr>t_event_type := EVENT_MODIFY\<rparr>] else [])"

definition poll_stores :: "snapshots \<Rightarrow> sync_task \<Rightarrow> file_snapshot" where
  "poll_stores \<sigma> t =
     (case \<sigma> (t_rel_path t) of
        None \<Rightarrow> snapshot_of_task t
      | Some s \<Rightarrow> if snapshot_differs s t then snapshot_of_task t else s\<lparr>s_seen := True\<rparr>)"

definition task_clean :: "sync_task \<Rightarrow> bool" where
  "task_clean t \<longleftrightarrow> length (t_rel_path t) < MAX_PATH_LEN \<and> length (t_src_path t) < MAX_PATH_LEN"

lemma snapshot_of_event [simp]: "snapshot_of_task (t\<lparr>t_event_type := e\<rparr>) = snapshot_of_task t"
  by (simp add: snapshot_of_task_def)

lemma snapshot_of_simps:
  assumes "task_clean t"
  shows "s_used (snapshot_of_task t)" "s_rel_path (snapshot_of_task t) = t_rel_path t"
    "s_seen (snapshot_of_task t)" "\<not> snapshot_differs (snapshot_of_task t) t"
  using assms by (simp_all add: snapshot_of_task_def snprintf_s_def snapshot_differs_def task_clean_def)

text \<open>There is room when the used keys and those still to come fit the table.\<close>

definition room :: "string set \<Rightarrow> file_snapshot list \<Rightarrow> bool" where
  "room S table \<longleftrightarrow> finite S \<and> card S \<le> length table \<and> dom (snapshot_lookup table) \<subseteq> S"

lemma alloc_room:
  assumes "room S table" and "sn.unique table" and "r \<in> S" and "snapshot_lookup table r = None"
  shows "\<exists>i. snapshot_alloc table = Some i"
proof (rule ccontr)
  assume "\<not> ?thesis"
  then have used: "\<forall>x \<in> set table. s_used x" by (auto simp: snapshot_alloc_def index_of_None)
  have inj: "inj_on (\<lambda>i. s_rel_path (table ! i)) {..<length table}"
    using assms(2) used by (auto simp: inj_on_def sn.unique_def)
  have sub: "(\<lambda>i. s_rel_path (table ! i)) ` {..<length table} \<subseteq> S - {r}"
  proof
    fix k assume "k \<in> (\<lambda>i. s_rel_path (table ! i)) ` {..<length table}"
    then obtain i where i: "i < length table" "k = s_rel_path (table ! i)" by auto
    then have "snapshot_lookup table k = Some (table ! i)"
      using sn.lookup_nth [OF assms(2)] used by (simp add: snapshot_lookup_def)
    then show "k \<in> S - {r}" using assms(1,4) by (auto simp: room_def)
  qed
  have fin: "finite S" using assms(1) by (simp add: room_def)
  have "length table \<le> card (S - {r})"
    using card_mono [OF _ sub] card_image [OF inj] fin by simp
  also have "\<dots> < card S" using fin assms(3) by (intro psubset_card_mono) auto
  finally show False using assms(1) by (simp add: room_def)
qed

text \<open>The slot a snapshot is stored in.\<close>

lemma find_lookup:
  assumes "sn.unique table"
  shows "snapshot_find table r = Some i \<Longrightarrow> i < length table \<and> snapshot_lookup table r = Some (table ! i) \<and>
      s_used (table ! i) \<and> s_rel_path (table ! i) = r"
    and "snapshot_find table r = None \<Longrightarrow> snapshot_lookup table r = None"
proof -
  show "i < length table \<and> snapshot_lookup table r = Some (table ! i) \<and>
      s_used (table ! i) \<and> s_rel_path (table ! i) = r" if "snapshot_find table r = Some i"
    using index_of_Some [OF that [unfolded snapshot_find_def]] sn.lookup_nth [OF assms]
    by (auto simp: snapshot_lookup_def)
  show "snapshot_find table r = None \<Longrightarrow> snapshot_lookup table r = None"
    by (auto simp: snapshot_find_def index_of_None snapshot_lookup_def sn.lookup_None)
qed

lemma stored:
  assumes "sn.unique table" and "s_used x" and "i < length table"
    and "snapshot_find table (s_rel_path x) = Some i \<or>
      snapshot_find table (s_rel_path x) = None \<and> snapshot_alloc table = Some i"
  shows "sn.unique (table[i := x]) \<and> snapshot_lookup (table[i := x]) = (snapshot_lookup table)(s_rel_path x \<mapsto> x)"
proof -
  have "slot_for s_used s_rel_path table (s_rel_path x) = Some i"
    using assms(4) by (auto simp: slot_for_def snapshot_find_def snapshot_alloc_def)
  from sn.store [OF assms(1) this assms(2)] show ?thesis by (simp add: snapshot_lookup_def)
qed

lemma no_failure_retryable: "no_failure w \<Longrightarrow> retryable w"
  by (rule benign_retryable [OF no_failure_benign])

lemma emit_run:
  assumes "no_failure w" and "run_state (emit_task fd t) w = (r, w')"
  shows "r = 0 \<and> w_tx w' fd = w_tx w fd @ task_bytes t \<and> no_failure w'"
proof -
  obtain x where x: "run_state (write_full fd (task_bytes t)) w = (x, w')"
    and r: "r = (if x = int task_size then 0 else - 1)"
    using assms(2) by (auto simp: emit_task_def split: prod.splits)
  show ?thesis
    using write_full_result(4) [OF x no_failure_retryable [OF assms(1)]] r
      no_failure_talks [OF assms(1) tkr.runD [OF emit_talks assms(2)]] by simp
qed

lemma emit_log_run:
  assumes "no_failure w" and "run_state (emit_task fd t) w = (r, w1)"
    and "run_state (log_message lfd l txt) w1 = (u, w')" and "lfd \<noteq> fd"
  shows "w_tx w' fd = w_tx w fd @ task_bytes t \<and> no_failure w'"
proof -
  have t: "talks lfd w1 w'" by (rule tkr.runD [OF log_message_talks assms(3)])
  have e: "w_tx w1 fd = w_tx w fd @ task_bytes t" "no_failure w1" using emit_run [OF assms(1,2)] by simp_all
  then show ?thesis using talks_simps(9) [OF t, of fd] assms(4) no_failure_talks [OF _ t] by simp
qed

definition polled :: "int \<Rightarrow> string set \<Rightarrow> monitor \<Rightarrow> world \<Rightarrow> sync_task list \<Rightarrow> snapshots \<Rightarrow> monitor \<Rightarrow> world \<Rightarrow> bool" where
  "polled fd S m w out \<sigma> m' w' \<longleftrightarrow> m' = m\<lparr>m_snapshots := m_snapshots m'\<rparr> \<and>
     length (m_snapshots m') = length (m_snapshots m) \<and> sn.unique (m_snapshots m') \<and>
     room S (m_snapshots m') \<and> snapshot_lookup (m_snapshots m') = \<sigma> \<and> no_failure w' \<and>
     w_tx w' fd = w_tx w fd @ concat (map task_bytes out)"

lemma room_store:
  "room S table \<Longrightarrow> r \<in> S \<Longrightarrow> snapshot_lookup table' = (snapshot_lookup table)(r \<mapsto> x) \<Longrightarrow>
   length table' = length table \<Longrightarrow> room S table'"
  by (auto simp: room_def)

lemma poll_task_effect:
  assumes nf: "no_failure w" and run: "run_state (poll_task fd t m) w = (m', w')" and fd: "m_log_fd m \<noteq> fd"
    and clean: "task_clean t" and u: "sn.unique (m_snapshots m)" and rm: "room S (m_snapshots m)"
    and S: "t_rel_path t \<in> S"
  defines "\<sigma> \<equiv> snapshot_lookup (m_snapshots m)"
  shows "polled fd S m w (poll_emits \<sigma> t) (\<sigma>(t_rel_path t \<mapsto> poll_stores \<sigma> t)) m' w'"
proof -
  let ?T = "m_snapshots m"
  note of_task = snapshot_of_simps [OF clean]
  have put: "polled fd S m w out (\<sigma>(t_rel_path t \<mapsto> x)) (m\<lparr>m_snapshots := ?T[i := x]\<rparr>) w'"
    if "s_used x" "s_rel_path x = t_rel_path t" "i < length ?T" "no_failure w'"
      "snapshot_find ?T (t_rel_path t) = Some i \<or> snapshot_find ?T (t_rel_path t) = None \<and> snapshot_alloc ?T = Some i"
      "w_tx w' fd = w_tx w fd @ concat (map task_bytes out)" for x i out
    using stored [OF u that(1,3)] that room_store [OF rm S] by (simp add: polled_def \<sigma>_def)
  show ?thesis
  proof (cases "snapshot_find ?T (t_rel_path t)")
    case None
    then have n: "\<sigma> (t_rel_path t) = None" using find_lookup(2) [OF u] by (simp add: \<sigma>_def)
    then obtain i where i: "snapshot_alloc ?T = Some i" using alloc_room [OF rm u S] by (auto simp: \<sigma>_def)
    let ?t = "t\<lparr>t_event_type := EVENT_CREATE\<rparr>"
    obtain r w1 where e: "run_state (emit_task fd ?t) w = (r, w1)" by (rule prod.exhaust)
    obtain l w2 where l: "run_state (log_message (m_log_fd m) LOG_DEBUG (''monitor: poll create '' @ t_rel_path t)) w1 =
      (l, w2)" by (rule prod.exhaust)
    have w': "w' = w2" "m' = m\<lparr>m_snapshots := ?T[i := snapshot_of_task t]\<rparr>"
      using run None i e l by (simp_all add: poll_task_def store_snapshot_def snapshot_update_from_task_def)
    have "i < length ?T" using i index_of_Some by (fastforce simp: snapshot_alloc_def)
    then show ?thesis
      using put [of "snapshot_of_task t" i "[?t]"] of_task emit_log_run [OF nf e l fd] None i n w'
      by (simp add: poll_emits_def poll_stores_def)
  next
    case (Some i)
    note f = find_lookup(1) [OF u Some]
    have s: "\<sigma> (t_rel_path t) = Some (?T ! i)" using f by (simp add: \<sigma>_def)
    show ?thesis
    proof (cases "snapshot_differs (?T ! i) t")
      case True
      let ?t = "t\<lparr>t_event_type := EVENT_MODIFY\<rparr>"
      obtain r w1 where e: "run_state (emit_task fd ?t) w = (r, w1)" by (rule prod.exhaust)
      obtain l w2 where l: "run_state (log_message (m_log_fd m) LOG_DEBUG (''monitor: poll modify '' @ t_rel_path t)) w1 =
        (l, w2)" by (rule prod.exhaust)
      have w': "w' = w2" "m' = m\<lparr>m_snapshots := ?T[i := snapshot_of_task t]\<rparr>"
        using run Some True e l by (simp_all add: poll_task_def store_snapshot_def snapshot_update_from_task_def)
      then show ?thesis
        using put [of "snapshot_of_task t" i "[?t]"] of_task emit_log_run [OF nf e l fd] Some s f True
        by (simp add: poll_emits_def poll_stores_def)
    next
      case False
      then have "w' = w" "m' = m\<lparr>m_snapshots := ?T[i := (?T ! i)\<lparr>s_seen := True\<rparr>]\<rparr>"
        using run Some by (simp_all add: poll_task_def)
      then show ?thesis
        using put [of "(?T ! i)\<lparr>s_seen := True\<rparr>" i "[]"] Some s f False nf
        by (simp add: poll_emits_def poll_stores_def)
    qed
  qed
qed

text \<open>A sequence of entries.\<close>

fun poll_run :: "snapshots \<Rightarrow> sync_task list \<Rightarrow> snapshots \<times> sync_task list" where
  "poll_run \<sigma> [] = (\<sigma>, [])"
| "poll_run \<sigma> (t # ts) =
     (case poll_run (\<sigma>(t_rel_path t \<mapsto> poll_stores \<sigma> t)) ts of (\<sigma>', out) \<Rightarrow> (\<sigma>', poll_emits \<sigma> t @ out))"

definition tasks_at :: "world \<Rightarrow> 32 word \<Rightarrow> path \<Rightarrow> path list \<Rightarrow> sync_task list" where
  "tasks_at w ev root ps = List.map_filter (task_at w ev root) ps"

lemma tasks_at_simps:
  "tasks_at w ev root [] = []"
  "tasks_at w ev root (p # ps) =
     (case task_at w ev root p of None \<Rightarrow> tasks_at w ev root ps | Some t \<Rightarrow> t # tasks_at w ev root ps)"
  by (simp_all add: tasks_at_def List.map_filter_simps split: option.split)

lemma polled_trans:
  "polled fd S m w out1 \<sigma>1 m1 w1 \<Longrightarrow> polled fd S m1 w1 out2 \<sigma>2 m2 w2 \<Longrightarrow> polled fd S m w (out1 @ out2) \<sigma>2 m2 w2"
  by (auto simp: polled_def) (metis monitor.surjective monitor.update_convs(2))

lemma poll_visits:
  assumes "visits (poll_visit root fd) ps m w m' w'" and "undisturbed w0 w" and "m_log_fd m \<noteq> fd"
    and "sn.unique (m_snapshots m)" and "room S (m_snapshots m)"
    and "\<forall>t \<in> set (tasks_at w0 EVENT_MODIFY root ps). task_clean t \<and> t_rel_path t \<in> S"
  shows "case poll_run (snapshot_lookup (m_snapshots m)) (tasks_at w0 EVENT_MODIFY root ps) of
    (\<sigma>, out) \<Rightarrow> polled fd S m w out \<sigma> m' w'"
  using assms
proof (induction rule: visits.induct)
  case (no_more w w' m)
  have "undisturbed w0 w'" by (rule undisturbed_calm [OF no_more(2) quiet_keeps_calm [OF no_more(1)]])
  then have "no_failure w'" by (simp add: undisturbed_def)
  then show ?case using no_more(3-5) quiet_simps(4) [OF no_more(1)] by (simp add: tasks_at_simps polled_def)
next
  case (one w w1 p m b m1 w2 ps m2 w3)
  have u1: "undisturbed w0 w1" using undisturbed_calm [OF one.prems(1) quiet_keeps_calm [OF one.hyps(1)]] .
  from poll_visit_run [OF u1 one.hyps(2)] obtain wa where wa: "quiet w1 wa" and
    c: "case task_at w0 EVENT_MODIFY root p of
      None \<Rightarrow> m1 = m \<and> w2 = wa \<and> \<not> b
    | Some t \<Rightarrow> run_state (poll_task fd t m) wa = (m1, w2) \<and> b = (t_is_dir t \<noteq> 0)" by blast
  have q: "quiet w wa" using one.hyps(1) wa by (rule qr.trans)
  have ua: "undisturbed w0 wa" using undisturbed_calm [OF u1 quiet_keeps_calm [OF wa]] .
  have u2: "undisturbed w0 w2" using pw.inv_visit [OF u1 one.hyps(2)] by simp
  show ?case
  proof (cases "task_at w0 EVENT_MODIFY root p")
    case None
    then have "m1 = m" "w_tx w2 = w_tx w" using c quiet_simps(4) [OF q] by simp_all
    then show ?thesis using one.IH [OF u2] one.prems None by (simp add: tasks_at_simps polled_def split: prod.splits)
  next
    case (Some t)
    then have run: "run_state (poll_task fd t m) wa = (m1, w2)" using c by simp
    let ?\<sigma> = "snapshot_lookup (m_snapshots m)"
    have nf: "no_failure wa" using ua by (simp add: undisturbed_def)
    have t: "task_clean t" "t_rel_path t \<in> S" using one.prems(5) Some by (simp_all add: tasks_at_simps)
    have step: "polled fd S m wa (poll_emits ?\<sigma> t) (?\<sigma>(t_rel_path t \<mapsto> poll_stores ?\<sigma> t)) m1 w2"
      by (rule poll_task_effect [OF nf run one.prems(2) t(1) one.prems(3,4) t(2)])
    then have step': "polled fd S m w (poll_emits ?\<sigma> t) (?\<sigma>(t_rel_path t \<mapsto> poll_stores ?\<sigma> t)) m1 w2"
      using quiet_simps(4) [OF q] by (simp add: polled_def)
    have m1: "m_log_fd m1 = m_log_fd m" "sn.unique (m_snapshots m1)" "room S (m_snapshots m1)"
      "snapshot_lookup (m_snapshots m1) = ?\<sigma>(t_rel_path t \<mapsto> poll_stores ?\<sigma> t)"
      using step unfolding polled_def by (metis monitor.select_convs(5) monitor.surjective monitor.update_convs(2), blast+)
    have "case poll_run (?\<sigma>(t_rel_path t \<mapsto> poll_stores ?\<sigma> t)) (tasks_at w0 EVENT_MODIFY root ps) of
        (\<sigma>, out) \<Rightarrow> polled fd S m1 w2 out \<sigma> m2 w3"
      using one.IH [OF u2] one.prems m1 Some by (simp add: tasks_at_simps del: fun_upd_apply)
    then show ?thesis using polled_trans [OF step'] Some by (auto simp: tasks_at_simps split: prod.splits)
  qed
qed

lemma poll_run_closed:
  assumes "distinct (map t_rel_path ts)"
  shows "snd (poll_run \<sigma> ts) = concat (map (poll_emits \<sigma>) ts) \<and>
    (\<forall>r. fst (poll_run \<sigma> ts) r = (case List.find (\<lambda>t. t_rel_path t = r) ts of
       None \<Rightarrow> \<sigma> r | Some t \<Rightarrow> Some (poll_stores \<sigma> t)))"
  using assms
proof (induction ts arbitrary: \<sigma>)
  case Nil
  then show ?case by simp
next
  case (Cons t ts)
  obtain \<sigma>1 where up: "\<sigma>1 = \<sigma>(t_rel_path t \<mapsto> poll_stores \<sigma> t)" by blast
  have other: "t_rel_path u \<noteq> t_rel_path t" if "u \<in> set ts" for u
    using Cons.prems imageI [OF that, of t_rel_path] by auto
  have same: "poll_emits \<sigma>1 u = poll_emits \<sigma> u" "poll_stores \<sigma>1 u = poll_stores \<sigma> u" if "u \<in> set ts" for u
    using other [OF that] by (simp_all add: poll_emits_def poll_stores_def up)
  have e: "map (poll_emits \<sigma>1) ts = map (poll_emits \<sigma>) ts" using same(1) by simp
  obtain \<sigma>' out where r: "poll_run \<sigma>1 ts = (\<sigma>', out)" by (rule prod.exhaust)
  have IH: "out = concat (map (poll_emits \<sigma>) ts)"
    "\<sigma>' k = (case List.find (\<lambda>u. t_rel_path u = k) ts of None \<Rightarrow> \<sigma>1 k | Some u \<Rightarrow> Some (poll_stores \<sigma>1 u))" for k
    using Cons.IH [of \<sigma>1] Cons.prems r e by simp_all
  have "\<sigma>' k = (case List.find (\<lambda>u. t_rel_path u = k) (t # ts) of
      None \<Rightarrow> \<sigma> k | Some u \<Rightarrow> Some (poll_stores \<sigma> u))" for k
  proof (cases "List.find (\<lambda>u. t_rel_path u = k) ts")
    case None
    then show ?thesis using IH(2) [of k] by (simp add: up)
  next
    case (Some u)
    then have "u \<in> set ts" "t_rel_path u = k" by (auto simp: find_Some_iff)
    then have "t_rel_path t \<noteq> k" "poll_stores \<sigma>1 u = poll_stores \<sigma> u" using other [of u] same(2) by auto
    then show ?thesis using IH(2) [of k] Some by simp
  qed
  then show ?case using r IH(1) by (simp add: up [symmetric])
qed

section \<open>A whole poll\<close>

lemma mark_lookup:
  "snapshot_lookup (snapshot_mark_all_unseen table) r = map_option (s_seen_update (\<lambda>_. False)) (snapshot_lookup table r)"
  by (induction table) (auto simp: snapshot_lookup_def slot_lookup_def snapshot_mark_all_unseen_def)

lemma mark_unique: "sn.unique table \<Longrightarrow> sn.unique (snapshot_mark_all_unseen table)"
  by (auto simp: sn.unique_def snapshot_mark_all_unseen_def)

lemma mark_room: "room S table \<Longrightarrow> room S (snapshot_mark_all_unseen table)"
proof -
  have "dom (snapshot_lookup (snapshot_mark_all_unseen table)) = dom (snapshot_lookup table)"
    by (auto simp: mark_lookup)
  then show "room S table \<Longrightarrow> ?thesis" by (simp add: room_def) (simp add: snapshot_mark_all_unseen_def)
qed

lemma drop_unseen_effect:
  assumes "no_failure w" and "run_state (drop_unseen fd lfd table) w = (table', w')" and "lfd \<noteq> fd"
  shows "table' = map (\<lambda>s. if s_used s \<and> \<not> s_seen s then empty_snapshot else s) table \<and> no_failure w' \<and>
    w_tx w' fd = w_tx w fd @ concat (map (task_bytes \<circ> deletion_task) (filter (\<lambda>s. s_used s \<and> \<not> s_seen s) table))"
  using assms
proof (induction table arbitrary: w table' w')
  case Nil
  then show ?case by simp
next
  case (Cons s table)
  show ?case
  proof (cases "s_used s \<and> \<not> s_seen s")
    case True
    obtain r w1 where e: "run_state (emit_task fd (deletion_task s)) w = (r, w1)" by (rule prod.exhaust)
    obtain l w2 where l: "run_state (log_message lfd LOG_DEBUG
        (''monitor: poll delete '' @ t_rel_path (deletion_task s))) w1 = (l, w2)" by (rule prod.exhaust)
    obtain rest w3 where d: "run_state (drop_unseen fd lfd table) w2 = (rest, w3)" by (rule prod.exhaust)
    note el = emit_log_run [OF Cons.prems(1) e l Cons.prems(3)]
    have "w' = w3" "table' = empty_snapshot # rest" using Cons.prems(2) True e l d by simp_all
    then show ?thesis using Cons.IH [OF _ d Cons.prems(3)] el True by simp
  next
    case False
    obtain rest w3 where d: "run_state (drop_unseen fd lfd table) w = (rest, w3)" by (rule prod.exhaust)
    have "w' = w3" "table' = s # rest" using Cons.prems(2) False d by auto
    then show ?thesis using Cons.IH [OF Cons.prems(1) d Cons.prems(3)] False by auto
  qed
qed

lemma drop_lookup:
  assumes "sn.unique table"
  defines "t' \<equiv> map (\<lambda>s. if s_used s \<and> \<not> s_seen s then empty_snapshot else s) table"
  shows "sn.unique t'" and "snapshot_lookup t' r = (case snapshot_lookup table r of
      None \<Rightarrow> None | Some s \<Rightarrow> if s_seen s then Some s else None)"
proof -
  have e: "\<not> s_used empty_snapshot" by (simp add: empty_snapshot_def)
  have nth: "t' ! i = (if s_used (table ! i) \<and> \<not> s_seen (table ! i) then empty_snapshot else table ! i)"
    if "i < length table" for i using that by (simp add: t'_def)
  have len: "length t' = length table" by (simp add: t'_def)
  have used: "s_used (t' ! i) \<Longrightarrow> t' ! i = table ! i \<and> s_seen (table ! i) \<and> s_used (table ! i)"
    if "i < length table" for i using nth [OF that] e by (simp split: if_splits)
  show u: "sn.unique t'" unfolding sn.unique_def
  proof (intro allI impI)
    fix i j assume ij: "i < length t'" "j < length t'" "s_used (t' ! i)" "s_used (t' ! j)"
      "s_rel_path (t' ! i) = s_rel_path (t' ! j)"
    then show "i = j" using used [of i] used [of j] assms(1) len by (auto simp: sn.unique_def)
  qed
  have "snapshot_lookup t' r = Some s \<longleftrightarrow> snapshot_lookup table r = Some s \<and> s_seen s" for s
  proof -
    have "(\<exists>i < length table. t' ! i = s \<and> s_used s \<and> s_rel_path s = r) \<longleftrightarrow>
        (\<exists>i < length table. table ! i = s \<and> s_used s \<and> s_rel_path s = r) \<and> s_seen s"
    proof
      assume "\<exists>i < length table. t' ! i = s \<and> s_used s \<and> s_rel_path s = r"
      then obtain i where "i < length table" "t' ! i = s" "s_used s" "s_rel_path s = r" by blast
      then show "(\<exists>i < length table. table ! i = s \<and> s_used s \<and> s_rel_path s = r) \<and> s_seen s"
        using used [of i] by auto
    next
      assume "(\<exists>i < length table. table ! i = s \<and> s_used s \<and> s_rel_path s = r) \<and> s_seen s"
      then obtain i where "i < length table" "table ! i = s" "s_used s" "s_rel_path s = r" "s_seen s" by blast
      then show "\<exists>i < length table. t' ! i = s \<and> s_used s \<and> s_rel_path s = r"
        using nth [of i] by auto
    qed
    then show ?thesis by (simp add: snapshot_lookup_def sn.lookup_iff [OF u] sn.lookup_iff [OF assms(1)] len)
  qed
  note iff = this
  show "snapshot_lookup t' r = (case snapshot_lookup table r of
      None \<Rightarrow> None | Some s \<Rightarrow> if s_seen s then Some s else None)"
  proof (cases "\<exists>s. snapshot_lookup table r = Some s \<and> s_seen s")
    case True
    then obtain s where s: "snapshot_lookup table r = Some s" "s_seen s" by blast
    then have "snapshot_lookup t' r = Some s" by (simp only: iff simp_thms)
    then show ?thesis using s by simp
  next
    case False
    then have "snapshot_lookup t' r = None" using iff by (metis not_None_eq)
    then show ?thesis using False by (cases "snapshot_lookup table r") simp_all
  qed
qed

text \<open>The relative paths of different entries differ.\<close>

lemma tasks_at_mem: "t \<in> set (tasks_at w ev root ps) \<longleftrightarrow> (\<exists>p \<in> set ps. task_at w ev root p = Some t)"
  by (induction ps) (auto simp: tasks_at_simps split: option.splits)

lemma tasks_distinct:
  assumes "one_slash root" and "distinct ps" and "set ps \<subseteq> set (tree_paths into w root)"
  shows "distinct (map t_rel_path (tasks_at w0 ev root ps))"
  using assms(2,3)
proof (induction ps)
  case Nil
  then show ?case by (simp add: tasks_at_simps)
next
  case (Cons p ps)
  have "t_rel_path u \<noteq> t_rel_path t" if tp: "task_at w0 ev root p = Some t" and u: "u \<in> set (tasks_at w0 ev root ps)" for t u
  proof
    assume e: "t_rel_path u = t_rel_path t"
    obtain q where q: "q \<in> set ps" "task_at w0 ev root q = Some u" using u by (auto simp: tasks_at_mem)
    have "q = p" using task_at_below [OF assms(1) _ q(2), of into w] task_at_below [OF assms(1) _ tp, of into w]
      Cons.prems(2) q(1) e by auto
    then show False using Cons.prems(1) q(1) by simp
  qed
  then show ?case using Cons by (fastforce simp: tasks_at_simps split: option.splits)
qed

end
