(* ===== verification/ScanLaws.thy ===== *)
theory ScanLaws
  imports PollLaws
begin

text \<open>
  What the full scans of \<^verbatim>\<open>src/monitor.c\<close> send: a task for every entry of the tree, while the
  watches that are added on the way only write to the log.
\<close>

section \<open>Calls that are heard on the log only\<close>

definition log_only :: "int \<Rightarrow> world \<Rightarrow> world \<Rightarrow> bool" where
  "log_only lfd w w' \<longleftrightarrow> keeps_calm w w' \<and> (\<forall>f. f \<noteq> lfd \<longrightarrow> w_tx w' f = w_tx w f)"

interpretation lor: world_relation "log_only lfd" for lfd
proof
  show "log_only lfd w w" "log_only lfd w (rest_script w)" for w
    by (simp_all add: log_only_def kcr.refl kcr.script)
  show "log_only lfd u v \<Longrightarrow> log_only lfd v w \<Longrightarrow> log_only lfd u w" for u v w
    by (auto simp: log_only_def intro: kcr.trans)
qed

lemma talks_log_only: "talks lfd w w' \<Longrightarrow> log_only lfd w w'"
  by (simp add: log_only_def talks_keeps_calm talks_simps(9))

lemma log_log_only: "state_io_rel (log_only lfd) (log_message lfd l t)"
  by (rule state_io_relI) (rule talks_log_only [OF tkr.runD [OF log_message_talks]])

lemma add_watch_log_only: "state_io_rel (log_only lfd) (sys_add_watch wd_of p)"
  unfolding sys_add_watch_def by (rule lor.syscall) (simp add: lor.refl)

lemma is_directory_rel: "state_io_rel quiet (is_directory p)"
  unfolding is_directory_def by (intro qr.rules qr.calls)

text \<open>The fields that watching leaves alone.\<close>

definition same_ids :: "monitor \<Rightarrow> monitor \<Rightarrow> bool" where
  "same_ids m m' \<longleftrightarrow> m_log_fd m' = m_log_fd m \<and> m_inotify_fd m' = m_inotify_fd m \<and> m_root m' = m_root m"

lemma watch_enter_keeps:
  "keeps_both (same_ids m0) (log_only (m_log_fd m0)) (watch_enter wd_of)"
  unfolding keeps_both_def
proof (intro allI impI)
  fix d s w b s' w'
  assume ids: "same_ids m0 s" and run: "run_state (watch_enter wd_of d s) w = ((b, s'), w')"
  have "state_io_rel (log_only (m_log_fd m0)) (watch_enter wd_of d s)"
    using ids unfolding watch_enter_def same_ids_def
    by (auto intro!: lor.rules add_watch_log_only log_log_only)
  from lor.runD [OF this run] show "same_ids m0 s' \<and> log_only (m_log_fd m0) w w'"
    using ids run by (auto simp: watch_enter_def same_ids_def split: prod.splits sum.splits if_splits)
qed

lemma watch_visit_keeps: "keeps_both (same_ids m0) (log_only (m_log_fd m0)) watch_visit"
  unfolding keeps_both_def
proof (intro allI impI)
  fix p s w b s' w'
  assume ids: "same_ids m0 s" and run: "run_state (watch_visit p s) w = ((b, s'), w')"
  have "quiet w w'" "s' = s"
    using run qr.runD [OF is_directory_rel] by (auto simp: watch_visit_def split: prod.splits)
  then show "same_ids m0 s' \<and> log_only (m_log_fd m0) w w'" using ids lor.quiet by simp
qed

lemma add_watch_keeps:
  assumes "run_state (add_watch_recursive wd_of p m) w = ((r, m'), w')"
  shows "same_ids m m' \<and> log_only (m_log_fd m) w w'"
proof -
  have "same_ids m m" by (simp add: same_ids_def)
  then show ?thesis
    using lor.walking_inv(1) [of "same_ids m" "m_log_fd m" "watch_enter wd_of" watch_visit m p w]
      watch_enter_keeps [of m] watch_visit_keeps [of m] assms by (simp add: add_watch_recursive_def)
qed

section \<open>The entries of a full scan\<close>

lemma is_directory_run:
  assumes "undisturbed w0 w"
  shows "\<exists>w1. run_state (is_directory p) w = (is_dir_at w0 p, w1) \<and> quiet w w1"
proof -
  have nf: "no_failure w" and t: "tree_same w0 w" using assms by (simp_all add: undisturbed_def)
  have "run_state (is_directory p) w = (is_dir_at w0 p, rest_script w)"
    by (simp add: is_directory_def sys_stat_def syscall_no_failure [OF nf] fs_find_rest fs_find_tree [OF t]
        is_dir_at_def S_ISDIR_node split: sum.split)
  then show ?thesis using qr.script by blast
qed

lemma store_ids: "same_ids m (store_snapshot m i t)"
  by (simp add: store_snapshot_def same_ids_def split: option.split)

lemma same_ids_trans: "same_ids m m1 \<Longrightarrow> same_ids m1 m2 \<Longrightarrow> same_ids m m2"
  by (simp add: same_ids_def)

lemma undisturbed_quiet: "undisturbed w0 w \<Longrightarrow> quiet w w' \<Longrightarrow> undisturbed w0 w'"
  by (rule undisturbed_calm [OF _ quiet_keeps_calm])

lemma scan_visit_run:
  assumes und: "undisturbed w0 w" and run: "run_state (scan_visit wd_of root fd p m) w = ((b, m'), w')"
  shows "undisturbed w0 w' \<and> b = is_dir_at w0 p \<and> same_ids m m' \<and> (m_log_fd m \<noteq> fd \<longrightarrow>
    w_tx w' fd = w_tx w fd @ concat (map task_bytes (tasks_at w0 EVENT_FULLSCAN root [p])))"
proof -
  let ?t = "task_at w0 EVENT_FULLSCAN root p"
  obtain w1 where w1: "run_state (build_task_from_path EVENT_FULLSCAN root p) w = (?t, w1)" "quiet w w1"
    using build_task_run und unfolding undisturbed_def by blast
  have u1: "undisturbed w0 w1" by (rule undisturbed_quiet [OF und w1(2)])
  let ?mid = "case ?t of
        None \<Rightarrow> ret m
      | Some task \<Rightarrow> do {
          _ \<leftarrow> emit_task fd task;
          _ \<leftarrow> log_message (m_log_fd m) LOG_DEBUG (''monitor: fullscan emit '' @ t_rel_path task);
          ret (store_snapshot m (snapshot_index m (t_rel_path task)) task)
        }"
  obtain m1 w2 where mid: "run_state ?mid w1 = (m1, w2)" by (rule prod.exhaust)
  have M: "undisturbed w0 w2 \<and> same_ids m m1 \<and> (m_log_fd m \<noteq> fd \<longrightarrow>
      w_tx w2 fd = w_tx w fd @ concat (map task_bytes (tasks_at w0 EVENT_FULLSCAN root [p])))"
  proof (cases ?t)
    case None
    then show ?thesis using mid u1 quiet_simps(4) [OF w1(2)] by (auto simp: tasks_at_simps same_ids_def)
  next
    case (Some task)
    obtain r wa where e: "run_state (emit_task fd task) w1 = (r, wa)" by (rule prod.exhaust)
    obtain l wb where lg: "run_state (log_message (m_log_fd m) LOG_DEBUG
        (''monitor: fullscan emit '' @ t_rel_path task)) wa = (l, wb)" by (rule prod.exhaust)
    have w2: "w2 = wb" "m1 = store_snapshot m (snapshot_index m (t_rel_path task)) task"
      using mid Some e lg by simp_all
    have "keeps_calm w1 wb"
      using kcr.runD [OF calm_rules(1) e] kcr.runD [OF calm_rules(2) lg] by (rule kcr.trans)
    then have "undisturbed w0 wb" by (rule undisturbed_calm [OF u1])
    moreover have "m_log_fd m \<noteq> fd \<longrightarrow> w_tx wb fd = w_tx w fd @ task_bytes task"
      using emit_log_run [OF _ e lg] u1 quiet_simps(4) [OF w1(2)] by (simp add: undisturbed_def)
    ultimately show ?thesis using w2 Some store_ids by (simp add: tasks_at_simps)
  qed
  obtain w3 where d: "run_state (is_directory p) w2 = (is_dir_at w0 p, w3)" "quiet w2 w3"
    using is_directory_run M by blast
  have u3: "undisturbed w0 w3" using undisturbed_quiet M d(2) by blast
  show ?thesis
  proof (cases "is_dir_at w0 p \<and> m_inotify_fd m1 \<ge> 0")
    case True
    obtain r m2 w4 where a: "run_state (add_watch_recursive wd_of p m1) w3 = ((r, m2), w4)" by (metis prod.collapse)
    have "b = is_dir_at w0 p" "m' = m2" "w' = w4"
      using run w1(1) mid d(1) a True by (simp_all add: scan_visit_def)
    moreover have "same_ids m1 m2" "log_only (m_log_fd m1) w3 w4" using add_watch_keeps [OF a] by simp_all
    moreover have "undisturbed w0 w4" using undisturbed_calm [OF u3] calculation(5) by (simp add: log_only_def)
    ultimately show ?thesis
      using M same_ids_trans quiet_simps(4) [OF d(2)] by (auto simp: log_only_def same_ids_def)
  next
    case False
    then have "b = is_dir_at w0 p" "m' = m1" "w' = w3"
      using run w1(1) mid d(1) by (auto simp: scan_visit_def)
    then show ?thesis using M u3 quiet_simps(4) [OF d(2)] by simp
  qed
qed

interpretation sw: tree_walk "scan_visit wd_of root fd" "is_dir_at w0" "undisturbed w0" w0 for wd_of root fd w0
proof
  show "undisturbed w0 w \<Longrightarrow> quiet w w' \<Longrightarrow> undisturbed w0 w'" for w w' by (rule undisturbed_quiet)
  show "undisturbed w0 w \<Longrightarrow> no_failure w \<and> tree_same w0 w" for w by (simp add: undisturbed_def)
  show "undisturbed w0 w' \<and> b = is_dir_at w0 p"
    if "undisturbed w0 w" "run_state (scan_visit wd_of root fd p m) w = ((b, m'), w')" for w p m b m' w'
    using scan_visit_run [OF that] by blast
qed

lemma tasks_at_append: "tasks_at w ev root (ps @ qs) = tasks_at w ev root ps @ tasks_at w ev root qs"
  by (induction ps) (simp_all add: tasks_at_simps split: option.split)

lemma scan_visits:
  assumes "visits (scan_visit wd_of root fd) ps m w m' w'" and "undisturbed w0 w" and "m_log_fd m \<noteq> fd"
  shows "same_ids m m' \<and> undisturbed w0 w' \<and>
    w_tx w' fd = w_tx w fd @ concat (map task_bytes (tasks_at w0 EVENT_FULLSCAN root ps))"
  using assms
proof (induction rule: visits.induct)
  case (no_more w w' m)
  then show ?case using quiet_simps(4) [OF no_more(1)] undisturbed_quiet by (auto simp: tasks_at_simps same_ids_def)
next
  case (one w w1 p m b m1 w2 ps m2 w3)
  have u1: "undisturbed w0 w1" by (rule undisturbed_quiet [OF one.prems(1) one.hyps(1)])
  note V = scan_visit_run [OF u1 one.hyps(2)]
  have "m_log_fd m1 \<noteq> fd" using V one.prems(2) by (simp add: same_ids_def)
  then have "same_ids m1 m2 \<and> undisturbed w0 w3 \<and>
      w_tx w3 fd = w_tx w2 fd @ concat (map task_bytes (tasks_at w0 EVENT_FULLSCAN root ps))"
    using one.IH V by blast
  then show ?case
    using V one.prems(2) quiet_simps(4) [OF one.hyps(1)] same_ids_trans
      tasks_at_append [of w0 EVENT_FULLSCAN root "[p]" ps] by simp blast
qed

lemma scan_run:
  assumes run: "run_state (scan_directory_and_emit_tasks wd_of root dir fd m) w = ((r, m'), w')"
    and und: "undisturbed w0 w" and dir: "is_dir_at w0 dir" and log: "m_log_fd m \<noteq> fd"
  shows "r = 0 \<and> same_ids m m' \<and> undisturbed w0 w' \<and> w_tx w' fd = w_tx w fd @
    concat (map task_bytes (tasks_at w0 EVENT_FULLSCAN root (tree_paths (is_dir_at w0) w0 dir)))"
proof -
  have "undisturbed w0 w \<longrightarrow> is_dir_at w0 dir \<longrightarrow> scan_visit wd_of root fd = scan_visit wd_of root fd \<longrightarrow>
      (\<exists>m2 w2. walk no_enter (scan_visit wd_of root fd) dir m w = ((0, m2), w2) \<and>
        visits (scan_visit wd_of root fd) (tree_paths (is_dir_at w0) w0 dir) m w m2 w2)"
    by (rule sw.walk_visits(1))
  then obtain m2 w2 where "walk no_enter (scan_visit wd_of root fd) dir m w = ((0, m2), w2)"
    and v: "visits (scan_visit wd_of root fd) (tree_paths (is_dir_at w0) w0 dir) m w m2 w2"
    using und dir by blast
  then have "r = 0" "m' = m2" "w' = w2" using run by (simp_all add: scan_directory_and_emit_tasks_def)
  then show ?thesis using scan_visits [OF v und log] by simp
qed

lemma new_directory_run:
  assumes run: "run_state (new_directory wd_of p fd m) w = (m', w')"
    and und: "undisturbed w0 w" and dir: "is_dir_at w0 p" and log: "m_log_fd m \<noteq> fd"
  shows "same_ids m m' \<and> undisturbed w0 w' \<and> w_tx w' fd = w_tx w fd @
    concat (map task_bytes (tasks_at w0 EVENT_FULLSCAN (m_root m) (tree_paths (is_dir_at w0) w0 p)))"
proof -
  obtain a m1 w1 where a: "run_state (add_watch_recursive wd_of p m) w = ((a, m1), w1)" by (metis prod.collapse)
  obtain r m2 w2 where s: "run_state (scan_directory_and_emit_tasks wd_of (m_root m) p fd m1) w1 = ((r, m2), w2)"
    by (metis prod.collapse)
  have e: "m' = m2" "w' = w2" using run a s by (simp_all add: new_directory_def)
  have k: "same_ids m m1" "log_only (m_log_fd m) w w1" using add_watch_keeps [OF a] by simp_all
  have u1: "undisturbed w0 w1" using undisturbed_calm [OF und] k(2) by (simp add: log_only_def)
  have "m_log_fd m1 \<noteq> fd" "w_tx w1 fd = w_tx w fd" using k log by (auto simp: same_ids_def log_only_def)
  then show ?thesis using scan_run [OF s u1 dir] e k(1) same_ids_trans by auto
qed

end
