(* ===== verification/MonitorProperties.thy ===== *)
theory MonitorProperties
  imports ScanLaws
begin

text \<open>
  Properties of \<^verbatim>\<open>src/monitor.c\<close> with their witnesses.
\<close>

section \<open>Helper lemmas\<close>

definition poll_tasks :: "world \<Rightarrow> path \<Rightarrow> sync_task list" where
  "poll_tasks w root = tasks_at w EVENT_MODIFY root (tree_paths (poll_into root w) w root)"

lemma poll_tasks_distinct:
  "one_slash root \<Longrightarrow> fs_wf (w_fs w) \<Longrightarrow> distinct (map t_rel_path (poll_tasks w root))"
  unfolding poll_tasks_def by (rule tasks_distinct [OF _ tree_paths_distinct subset_refl])

lemma poll_tasks_clean: "one_slash root \<Longrightarrow> t \<in> set (poll_tasks w root) \<Longrightarrow> task_clean t"
  using task_at_below by (fastforce simp: poll_tasks_def tasks_at_mem task_clean_def)

lemma finite_lookup: "finite (dom (snapshot_lookup table))"
proof -
  have "dom (snapshot_lookup table) \<subseteq> s_rel_path ` set table"
    by (auto simp: snapshot_lookup_def dest!: sn.lookup_Some)
  then show ?thesis by (rule finite_subset) simp
qed

lemma poll_emits_mark:
  "poll_emits (\<lambda>r. map_option (s_seen_update (\<lambda>_. False)) (\<sigma> r)) = poll_emits \<sigma>"
  by (simp add: fun_eq_iff poll_emits_def snapshot_differs_def split: option.split)

lemma deletion_mark: "deletion_task (s\<lparr>s_seen := False\<rparr>) = deletion_task s"
  by (simp add: deletion_task_def)

lemma poll_stores_now:
  "task_clean t \<Longrightarrow> s_seen (poll_stores \<sigma> t) \<and> \<not> snapshot_differs (poll_stores \<sigma> t) t"
  by (simp add: poll_stores_def snapshot_of_simps split: option.split) (simp add: snapshot_differs_def)

lemma drop_unseen_calm: "state_io_rel keeps_calm (drop_unseen fd lfd table)"
proof (induction table)
  case Nil
  then show ?case by (simp add: kcr.return)
next
  case (Cons s table)
  then show ?case by (auto intro!: kcr.rules calm_rules)
qed

lemma poll_visit_calm: "state_io_rel keeps_calm (poll_visit root fd p m)"
  unfolding poll_visit_def build_task_from_path_def Let_def
  by (intro kcr.rules poll_task_calm kcr.calls) (auto intro!: kcr.rules kcr.calls split: prod.splits)

lemma walk_calm:
  assumes "\<And>d s. state_io_rel keeps_calm (enter d s)" and "\<And>p s. state_io_rel keeps_calm (visit p s)"
  shows "state_io_rel keeps_calm (State (walk enter visit dir st))"
proof (rule state_io_relI)
  fix a w w' assume "run_state (State (walk enter visit dir st)) w = (a, w')"
  then show "keeps_calm w w'" using kcr.walking [of enter visit w dir st, OF assms] by simp
qed

lemma no_enter_rel: "state_io_rel keeps_calm (no_enter d s)"
  unfolding no_enter_def by (rule kcr.return)

lemma poll_scan_calm: "state_io_rel keeps_calm (poll_scan_and_emit_changes root fd m)"
  unfolding poll_scan_and_emit_changes_def poll_scan_path_def
  by (intro kcr.rules walk_calm no_enter_rel poll_visit_calm drop_unseen_calm)

lemma poll_effect:
  assumes run: "run_state (poll_scan_and_emit_changes root fd m) w = (m', w')"
    and nf: "no_failure w" and dir: "is_dir_at w root" and log: "m_log_fd m \<noteq> fd"
    and wf: "fs_wf (w_fs w)" and root: "one_slash root" and u: "sn.unique (m_snapshots m)"
    and fits: "card (dom (snapshot_lookup (m_snapshots m)) \<union> t_rel_path ` set (poll_tasks w root)) \<le>
      length (m_snapshots m)"
  defines "\<sigma> \<equiv> snapshot_lookup (m_snapshots m)" and "ts \<equiv> poll_tasks w root"
  obtains gone where "distinct gone" and "set gone = dom \<sigma> - t_rel_path ` set ts"
    and "w_tx w' fd = w_tx w fd @ concat (map task_bytes
      (concat (map (poll_emits \<sigma>) ts) @ map (\<lambda>r. deletion_task (the (\<sigma> r))) gone))"
    and "\<forall>r. case List.find (\<lambda>t. t_rel_path t = r) ts of
        None \<Rightarrow> snapshot_lookup (m_snapshots m') r = None
      | Some t \<Rightarrow> \<exists>s. snapshot_lookup (m_snapshots m') r = Some s \<and> \<not> snapshot_differs s t"
    and "sn.unique (m_snapshots m')" and "no_failure w'" and "m_log_fd m' = m_log_fd m"
    and "length (m_snapshots m') = length (m_snapshots m)" and "tree_same w w'"
proof -
  let ?mark = "\<lambda>r. map_option (s_seen_update (\<lambda>_. False)) (\<sigma> r)"
  let ?m1 = "m\<lparr>m_snapshots := snapshot_mark_all_unseen (m_snapshots m)\<rparr>"
  let ?S = "dom \<sigma> \<union> t_rel_path ` set ts"
  have und: "undisturbed w w" using nf by (simp add: undisturbed_def tsr.refl)
  have "undisturbed w w \<longrightarrow> is_dir_at w root \<longrightarrow> poll_visit root fd = poll_visit root fd \<longrightarrow>
      (\<exists>m2 w2. walk no_enter (poll_visit root fd) root ?m1 w = ((0, m2), w2) \<and>
        visits (poll_visit root fd) (tree_paths (poll_into root w) w root) ?m1 w m2 w2)"
    by (rule pw.walk_visits(1))
  then obtain m2 w2 where k: "walk no_enter (poll_visit root fd) root ?m1 w = ((0, m2), w2)"
    and v: "visits (poll_visit root fd) (tree_paths (poll_into root w) w root) ?m1 w m2 w2"
    using und dir by blast
  obtain table w3 where d: "run_state (drop_unseen fd (m_log_fd m2) (m_snapshots m2)) w2 = (table, w3)"
    by (rule prod.exhaust)
  have m': "m' = m2\<lparr>m_snapshots := table\<rparr>" "w' = w3"
    using run k d by (simp_all add: poll_scan_and_emit_changes_def poll_scan_path_def)
  have lk: "snapshot_lookup (m_snapshots ?m1) = ?mark" by (simp add: fun_eq_iff mark_lookup \<sigma>_def)
  have "room ?S (m_snapshots m)" using fits finite_lookup [of "m_snapshots m"] by (simp add: room_def \<sigma>_def ts_def)
  then have rm: "room ?S (m_snapshots ?m1)" using mark_room by simp
  have u1: "sn.unique (m_snapshots ?m1)" using mark_unique [OF u] by simp
  have ok: "\<forall>t \<in> set ts. task_clean t \<and> t_rel_path t \<in> ?S" using poll_tasks_clean [OF root] by (simp add: ts_def)
  obtain \<sigma>2 out where pr: "poll_run ?mark ts = (\<sigma>2, out)" by (rule prod.exhaust)
  have "case poll_run (snapshot_lookup (m_snapshots ?m1)) ts of (\<sigma>, out) \<Rightarrow> polled fd ?S ?m1 w out \<sigma> m2 w2"
    using poll_visits [OF v und _ u1 rm] log ok by (simp add: ts_def poll_tasks_def)
  then have P: "polled fd ?S ?m1 w out \<sigma>2 m2 w2" unfolding lk pr by simp
  have m2: "m_log_fd m2 = m_log_fd m" "sn.unique (m_snapshots m2)" "no_failure w2"
    "snapshot_lookup (m_snapshots m2) = \<sigma>2" "length (m_snapshots m2) = length (m_snapshots m)"
    using P unfolding polled_def
    by (metis monitor.select_convs(5) monitor.surjective monitor.update_convs(2), simp_all add: snapshot_mark_all_unseen_def)
  have D: "table = map (\<lambda>s. if s_used s \<and> \<not> s_seen s then empty_snapshot else s) (m_snapshots m2) \<and> no_failure w3 \<and>
    w_tx w3 fd = w_tx w2 fd @
      concat (map (task_bytes \<circ> deletion_task) (filter (\<lambda>s. s_used s \<and> \<not> s_seen s) (m_snapshots m2)))"
    using drop_unseen_effect [OF m2(3) d] log m2(1) by simp
  note dist = poll_tasks_distinct [OF root wf]
  have out: "out = concat (map (poll_emits \<sigma>) ts)" and
    \<sigma>2: "\<sigma>2 r = (case List.find (\<lambda>t. t_rel_path t = r) ts of None \<Rightarrow> ?mark r | Some t \<Rightarrow> Some (poll_stores ?mark t))" for r
    using poll_run_closed [of ts ?mark] dist pr by (simp_all add: ts_def poll_emits_mark)
  let ?lost = "filter (\<lambda>s. s_used s \<and> \<not> s_seen s) (m_snapshots m2)"
  have in_ts: "r \<in> t_rel_path ` set ts \<longleftrightarrow> List.find (\<lambda>t. t_rel_path t = r) ts \<noteq> None" for r
    by (auto simp: find_None_iff)
  have seen: "s_seen (poll_stores ?mark t)" "\<not> snapshot_differs (poll_stores ?mark t) t"
    if "List.find P ts = Some t" for P t
    using that poll_stores_now [of t] ok by (auto simp: find_Some_iff)
  have kept: "s \<in> set ?lost \<Longrightarrow> \<sigma>2 (s_rel_path s) = Some s \<and> \<not> s_seen s" for s
    using m2(4) sn.lookup_iff [OF m2(2)] by (auto simp: snapshot_lookup_def in_set_conv_nth)
  have lost: "s_rel_path s \<in> dom \<sigma> - t_rel_path ` set ts \<and> deletion_task s = deletion_task (the (\<sigma> (s_rel_path s)))"
    if "s \<in> set ?lost" for s
  proof -
    have f: "List.find (\<lambda>t. t_rel_path t = s_rel_path s) ts = None"
      using kept [OF that] \<sigma>2 [of "s_rel_path s"] seen(1)
      by (cases "List.find (\<lambda>t. t_rel_path t = s_rel_path s) ts") auto
    then have "?mark (s_rel_path s) = Some s" using kept [OF that] \<sigma>2 [of "s_rel_path s"] by simp
    then obtain s0 where "\<sigma> (s_rel_path s) = Some s0" "s = s0\<lparr>s_seen := False\<rparr>" by auto
    then show ?thesis using f deletion_mark in_ts by (metis DiffI domI option.sel)
  qed
  have found: "r \<in> s_rel_path ` set ?lost" if r: "r \<in> dom \<sigma> - t_rel_path ` set ts" for r
  proof -
    obtain s0 where s0: "\<sigma> r = Some s0" using r by blast
    have "\<sigma>2 r = Some (s0\<lparr>s_seen := False\<rparr>)" using \<sigma>2 [of r] s0 r in_ts [of r] by simp
    then have "slot_lookup s_used s_rel_path (m_snapshots m2) r = Some (s0\<lparr>s_seen := False\<rparr>)"
      using m2(4) by (simp add: snapshot_lookup_def)
    from sn.lookup_Some [OF this] show ?thesis by (auto intro!: image_eqI [of _ _ "s0\<lparr>s_seen := False\<rparr>"])
  qed
  let ?gone = "map s_rel_path ?lost"
  have g1: "distinct ?gone" by (rule sn.used_keys_distinct [OF m2(2)])
  have g2: "set ?gone = dom \<sigma> - t_rel_path ` set ts" (is "_ = ?D")
  proof (rule equalityI; rule subsetI)
    fix r assume "r \<in> set ?gone"
    then obtain s where s: "s \<in> set ?lost" "r = s_rel_path s" unfolding set_map by blast
    show "r \<in> ?D" using lost [OF s(1)] s(2) by simp
  next
    fix r assume "r \<in> ?D"
    from found [OF this] show "r \<in> set ?gone" unfolding set_map .
  qed
  have "map deletion_task ?lost = map (\<lambda>r. deletion_task (the (\<sigma> r))) ?gone" using lost by simp
  then have e: "map (task_bytes \<circ> deletion_task) ?lost = map task_bytes (map (\<lambda>r. deletion_task (the (\<sigma> r))) ?gone)"
    by (metis map_map)
  have D3: "w_tx w3 fd = w_tx w2 fd @ concat (map task_bytes (map (\<lambda>r. deletion_task (the (\<sigma> r))) ?gone))"
    using D unfolding e by blast
  have P3: "w_tx w2 fd = w_tx w fd @ concat (map task_bytes out)" using P by (simp add: polled_def)
  have g3: "w_tx w' fd = w_tx w fd @ concat (map task_bytes
      (concat (map (poll_emits \<sigma>) ts) @ map (\<lambda>r. deletion_task (the (\<sigma> r))) ?gone))"
    unfolding m'(2) D3 P3 out by (simp only: map_append concat_append append_assoc)
  have tab: "snapshot_lookup table r = (case \<sigma>2 r of None \<Rightarrow> None | Some s \<Rightarrow> if s_seen s then Some s else None)" for r
    using D drop_lookup(2) [OF m2(2)] m2(4) by simp
  have g4: "\<forall>r. case List.find (\<lambda>t. t_rel_path t = r) ts of
        None \<Rightarrow> snapshot_lookup (m_snapshots m') r = None
      | Some t \<Rightarrow> \<exists>s. snapshot_lookup (m_snapshots m') r = Some s \<and> \<not> snapshot_differs s t"
    using seen by (auto simp: m' tab \<sigma>2 split: option.splits)
  have g5: "sn.unique (m_snapshots m')" using D drop_lookup(1) [OF m2(2)] m' by simp
  have g6: "length (m_snapshots m') = length (m_snapshots m)" using D m' m2(5) by simp
  have g7: "tree_same w w'" using kcr.runD [OF poll_scan_calm run] by (simp add: keeps_calm_def)
  show thesis
    using that [OF g1 g2 g3 g4 g5 _ _ g6 g7] D m' m2(1) by simp
qed

lemma room_enough:
  assumes "length (filter s_used table) + length ts \<le> length table"
  shows "card (dom (snapshot_lookup table) \<union> f ` set ts) \<le> length table"
proof -
  have "dom (snapshot_lookup table) \<union> f ` set ts \<subseteq> set (map s_rel_path (filter s_used table) @ map f ts)"
    by (auto simp: snapshot_lookup_def dest!: sn.lookup_Some)
  then have "card (dom (snapshot_lookup table) \<union> f ` set ts) \<le>
      length (map s_rel_path (filter s_used table) @ map f ts)"
    by (meson List.finite_set card_length card_mono le_trans)
  then show ?thesis using assms by simp
qed

text \<open>A monitor that knows an old state of one entry, and one entry that is gone.\<close>

definition sample_monitor :: monitor where
  "sample_monitor = \<lparr>m_items = [], m_snapshots =
     [empty_snapshot\<lparr>s_used := True, s_rel_path := ''d/f'', s_src_path := ''s/d/f'', s_mtime := 2\<rparr>,
      empty_snapshot\<lparr>s_used := True, s_rel_path := ''gone'', s_src_path := ''s/gone''\<rparr>,
      empty_snapshot, empty_snapshot], m_inotify_fd = 4, m_root = ''s'', m_log_fd = 6\<rparr>"

lemma sample_poll:
  "no_failure sample_world" "is_dir_at sample_world ''s''" "m_log_fd sample_monitor \<noteq> 5"
  "fs_wf (w_fs sample_world)" "one_slash ''s''" "sn.unique (m_snapshots sample_monitor)"
  "card (dom (snapshot_lookup (m_snapshots sample_monitor)) \<union> t_rel_path ` set (poll_tasks sample_world ''s''))
     \<le> length (m_snapshots sample_monitor)"
proof -
  show "no_failure sample_world" by (simp add: no_failure_def sample_world_def)
  show "is_dir_at sample_world ''s''" by code_simp
  show "fs_wf (w_fs sample_world)" by code_simp
  show "one_slash ''s''" by code_simp
  show "m_log_fd sample_monitor \<noteq> 5" by (simp add: sample_monitor_def)
  show "sn.unique (m_snapshots sample_monitor)"
    by (simp add: sample_monitor_def sn.unique_Cons empty_snapshot_def) (simp add: sn.unique_def)
  have "length (filter s_used (m_snapshots sample_monitor)) + length (poll_tasks sample_world ''s'') \<le>
    length (m_snapshots sample_monitor)" by code_simp
  then show "card (dom (snapshot_lookup (m_snapshots sample_monitor)) \<union>
      t_rel_path ` set (poll_tasks sample_world ''s'')) \<le> length (m_snapshots sample_monitor)"
    by (rule room_enough)
qed

section \<open>Properties\<close>

text \<open>C15: A poll sends exactly the difference between the snapshots and the tree: one CREATE task for
  each entry without a snapshot, one MODIFY task for each whose size, time or mode changed, and one
  DELETE task for each snapshot without an entry; afterwards the snapshots describe the tree. This
  needs room in the table of snapshots and writes that succeed.\<close>

theorem poll_sends_the_difference:
  assumes "run_state (poll_scan_and_emit_changes root fd m) w = (m', w')"
    and "no_failure w" and "is_dir_at w root" and "m_log_fd m \<noteq> fd" and "fs_wf (w_fs w)" and "one_slash root"
    and "sn.unique (m_snapshots m)"
    and "card (dom (snapshot_lookup (m_snapshots m)) \<union> t_rel_path ` set (poll_tasks w root)) \<le>
      length (m_snapshots m)"
  shows "\<exists>gone. distinct gone \<and>
    set gone = dom (snapshot_lookup (m_snapshots m)) - t_rel_path ` set (poll_tasks w root) \<and>
    w_tx w' fd = w_tx w fd @ concat (map task_bytes
      (concat (map (poll_emits (snapshot_lookup (m_snapshots m))) (poll_tasks w root)) @
       map (\<lambda>r. deletion_task (the (snapshot_lookup (m_snapshots m) r))) gone)) \<and>
    (\<forall>r. case List.find (\<lambda>t. t_rel_path t = r) (poll_tasks w root) of
        None \<Rightarrow> snapshot_lookup (m_snapshots m') r = None
      | Some t \<Rightarrow> \<exists>s. snapshot_lookup (m_snapshots m') r = Some s \<and> \<not> snapshot_differs s t)"
proof -
  obtain gone where "distinct gone"
    "set gone = dom (snapshot_lookup (m_snapshots m)) - t_rel_path ` set (poll_tasks w root)"
    "w_tx w' fd = w_tx w fd @ concat (map task_bytes
      (concat (map (poll_emits (snapshot_lookup (m_snapshots m))) (poll_tasks w root)) @
       map (\<lambda>r. deletion_task (the (snapshot_lookup (m_snapshots m) r))) gone))"
    "\<forall>r. case List.find (\<lambda>t. t_rel_path t = r) (poll_tasks w root) of
        None \<Rightarrow> snapshot_lookup (m_snapshots m') r = None
      | Some t \<Rightarrow> \<exists>s. snapshot_lookup (m_snapshots m') r = Some s \<and> \<not> snapshot_differs s t"
    by (rule poll_effect [OF assms])
  then show ?thesis by (intro exI [of _ gone] conjI)
qed

lemma poll_sends_the_difference_witness:
  "\<exists>m' w'. run_state (poll_scan_and_emit_changes ''s'' 5 sample_monitor) sample_world = (m', w') \<and> (\<exists>gone. distinct gone \<and>
    set gone = dom (snapshot_lookup (m_snapshots sample_monitor)) - t_rel_path ` set (poll_tasks sample_world ''s'') \<and>
    w_tx w' 5 = w_tx sample_world 5 @ concat (map task_bytes
      (concat (map (poll_emits (snapshot_lookup (m_snapshots sample_monitor))) (poll_tasks sample_world ''s'')) @
       map (\<lambda>r. deletion_task (the (snapshot_lookup (m_snapshots sample_monitor) r))) gone)))"
proof -
  obtain m' w' where run: "run_state (poll_scan_and_emit_changes ''s'' 5 sample_monitor) sample_world = (m', w')"
    by (rule prod.exhaust)
  from poll_sends_the_difference [OF run sample_poll] run show ?thesis by blast
qed





text \<open>C17: A full scan sends one FULLSCAN task for every entry that can be reached from the directory
  through directories (and whose path and relative path are admissible), each directory before its
  entries and none twice, and it changes nothing in the tree.\<close>

theorem full_scan_covers_the_tree:
  assumes "run_state (scan_directory_and_emit_tasks wd_of root dir fd m) w = ((r, m'), w')"
    and "no_failure w" and "is_dir_at w dir" and "m_log_fd m \<noteq> fd" and "fs_wf (w_fs w)"
  shows "\<exists>ps. distinct ps \<and> set ps = {q. tree_reach (is_dir_at w) w dir q} \<and> r = 0 \<and> w_fs w' = w_fs w \<and>
    w_tx w' fd = w_tx w fd @ concat (map task_bytes (tasks_at w EVENT_FULLSCAN root ps))"
proof -
  have und: "undisturbed w w" using assms(2) by (simp add: undisturbed_def tsr.refl)
  from scan_run [OF assms(1) und assms(3,4)] show ?thesis
    by (intro exI [of _ "tree_paths (is_dir_at w) w dir"])
      (simp add: tree_paths_distinct [OF assms(5)] set_tree_paths undisturbed_def tree_same_def)
qed

lemma full_scan_covers_the_tree_witness:
  "\<exists>r m' w'. run_state (scan_directory_and_emit_tasks (\<lambda>_ _. 3) ''s'' ''s'' 5 sample_monitor) sample_world =
      ((r, m'), w') \<and>
    (\<exists>ps. distinct ps \<and> set ps = {q. tree_reach (is_dir_at sample_world) sample_world ''s'' q} \<and> r = 0 \<and>
      w_fs w' = w_fs sample_world \<and>
      w_tx w' 5 = w_tx sample_world 5 @ concat (map task_bytes (tasks_at sample_world EVENT_FULLSCAN ''s'' ps)))"
proof -
  obtain r m' w' where run: "run_state (scan_directory_and_emit_tasks (\<lambda>_ _. 3) ''s'' ''s'' 5 sample_monitor)
      sample_world = ((r, m'), w')" by (metis prod.collapse)
  from full_scan_covers_the_tree [OF run sample_poll(1-4)] run show ?thesis by blast
qed

text \<open>C18: A directory that appears is taken over with what it already holds: the event of its creation
  sends its CREATE task followed by a task for every entry that is below it by then, so that entries
  made before its watch was in place are not lost.\<close>

theorem new_directory_is_scanned:
  assumes "run_state (handle_event wd_of ev fd move m) w = ((r, move', m'), w')"
    and "find_path_by_wd (m_items m) (sint (ev_wd ev)) = Some parent" and "ev_len ev \<noteq> 0"
    and "join_path MAX_PATH_LEN parent (ev_name ev) = Some p"
    and "flagged ev IN_CREATE" and "flagged ev IN_ISDIR" and "\<not> flagged ev IN_MOVED_FROM"
    and "\<not> flagged ev IN_MOVED_TO" and "\<not> flagged ev IN_DELETE"
    and "no_failure w" and "is_dir_at w p" and "m_log_fd m \<noteq> fd"
  shows "r = 0 \<and> move' = move \<and> w_tx w' fd = w_tx w fd @ concat (map task_bytes
    (tasks_at w EVENT_CREATE (m_root m) [p] @
     tasks_at w EVENT_FULLSCAN (m_root m) (tree_paths (is_dir_at w) w p)))"
proof -
  have und: "undisturbed w w" using assms(10) by (simp add: undisturbed_def tsr.refl)
  let ?t = "task_at w EVENT_CREATE (m_root m) p"
  obtain w1 where w1: "run_state (build_task_from_path EVENT_CREATE (m_root m) p) w = (?t, w1)" "quiet w w1"
    using build_task_run [OF assms(10) tsr.refl] by blast
  let ?mid = "case ?t of
      None \<Rightarrow> ret ()
    | Some task \<Rightarrow> do {
        _ \<leftarrow> emit_task fd task;
        log_message (m_log_fd m) LOG_INFO (''monitor: create '' @ t_rel_path task)
      }"
  obtain u w2 where mid: "run_state ?mid w1 = (u, w2)" by (rule prod.exhaust)
  have u1: "undisturbed w w1" by (rule undisturbed_quiet [OF und w1(2)])
  have M: "undisturbed w w2 \<and> w_tx w2 fd = w_tx w fd @ concat (map task_bytes (tasks_at w EVENT_CREATE (m_root m) [p]))"
  proof (cases ?t)
    case None
    then show ?thesis using mid u1 quiet_simps(4) [OF w1(2)] by (auto simp: tasks_at_simps)
  next
    case (Some task)
    obtain x wa where e: "run_state (emit_task fd task) w1 = (x, wa)" by (rule prod.exhaust)
    have lg: "run_state (log_message (m_log_fd m) LOG_INFO (''monitor: create '' @ t_rel_path task)) wa = (u, w2)"
      using mid Some e by simp
    have "keeps_calm w1 w2"
      using kcr.runD [OF calm_rules(1) e] kcr.runD [OF calm_rules(2) lg] by (rule kcr.trans)
    then have "undisturbed w w2" by (rule undisturbed_calm [OF u1])
    moreover have "w_tx w2 fd = w_tx w fd @ task_bytes task"
      using emit_log_run [OF _ e lg assms(12)] u1 quiet_simps(4) [OF w1(2)] by (simp add: undisturbed_def)
    ultimately show ?thesis using Some by (simp add: tasks_at_simps)
  qed
  obtain m2 w3 where n: "run_state (new_directory wd_of p fd m) w2 = (m2, w3)" by (rule prod.exhaust)
  have "r = 0" "move' = move" "w' = w3"
    using assms(1) w1(1) mid n by (simp_all add: handle_event_def assms(2-9) Let_def)
  then show ?thesis using M new_directory_run [OF n _ assms(11,12)] by simp
qed

definition sample_event :: inotify_event where
  "sample_event = \<lparr>ev_wd = 1, ev_mask = IN_CREATE OR IN_ISDIR, ev_cookie = 0, ev_len = 16, ev_name = ''d''\<rparr>"

lemma new_directory_is_scanned_witness:
  "\<exists>r move' m' w'. run_state (handle_event (\<lambda>_ _. 3) sample_event 5 empty_move
      (sample_monitor\<lparr>m_items := [\<lparr>wi_wd = 1, wi_path = ''s''\<rparr>]\<rparr>)) sample_world = ((r, move', m'), w') \<and>
    r = 0 \<and> move' = empty_move \<and> w_tx w' 5 = w_tx sample_world 5 @ concat (map task_bytes
      (tasks_at sample_world EVENT_CREATE ''s'' [''s/d''] @
       tasks_at sample_world EVENT_FULLSCAN ''s'' (tree_paths (is_dir_at sample_world) sample_world ''s/d'')))"
proof -
  let ?m = "sample_monitor\<lparr>m_items := [\<lparr>wi_wd = 1, wi_path = ''s''\<rparr>]\<rparr>"
  obtain r move' m' w' where run:
    "run_state (handle_event (\<lambda>_ _. 3) sample_event 5 empty_move ?m) sample_world = ((r, move', m'), w')"
    by (metis prod.collapse)
  have f: "find_path_by_wd (m_items ?m) (sint (ev_wd sample_event)) = Some ''s''" by code_simp
  have n: "ev_len sample_event \<noteq> 0" by code_simp
  have j: "join_path MAX_PATH_LEN ''s'' (ev_name sample_event) = Some ''s/d''" by code_simp
  have e: "flagged sample_event IN_CREATE" "flagged sample_event IN_ISDIR" "\<not> flagged sample_event IN_MOVED_FROM"
    "\<not> flagged sample_event IN_MOVED_TO" "\<not> flagged sample_event IN_DELETE" by code_simp+
  have d: "is_dir_at sample_world ''s/d''" by code_simp
  have l: "m_log_fd ?m \<noteq> 5" by (simp add: sample_monitor_def)
  have "m_root ?m = ''s''" by (simp add: sample_monitor_def)
  with new_directory_is_scanned [OF run f n j e sample_poll(1) d l] run show ?thesis by auto
qed

text \<open>C33: The watch table is a map: adding a watch makes its path the path of its number and leaves all
  other numbers as they are; a refused watch leaves the table as it is. No number has two entries, no
  path outgrows its buffer and the table never outgrows its array.\<close>

theorem watch_table_is_a_map:
  assumes "watches_ok items" and "add_watch_item items wd p = (r, items')"
  shows "watches_ok items' \<and> (if r = 0
    then find_path_by_wd items' = (find_path_by_wd items)(wd \<mapsto> take 511 p)
    else r = - 1 \<and> items' = items)"
  using add_watch_item_spec [OF assms] .

lemma watch_table_is_a_map_witness:
  "watches_ok (snd (add_watch_item [\<lparr>wi_wd = 1, wi_path = ''s''\<rparr>] 2 ''s/d'')) \<and>
   find_path_by_wd (snd (add_watch_item [\<lparr>wi_wd = 1, wi_path = ''s''\<rparr>] 2 ''s/d'')) =
     (find_path_by_wd [\<lparr>wi_wd = 1, wi_path = ''s''\<rparr>])(2 \<mapsto> ''s/d'')"
proof -
  have ok: "watches_ok [\<lparr>wi_wd = 1, wi_path = ''s''\<rparr>]" by (simp add: watches_ok_def)
  have r: "fst (add_watch_item [\<lparr>wi_wd = 1, wi_path = ''s''\<rparr>] 2 ''s/d'') = 0" by code_simp
  show ?thesis
    using watch_table_is_a_map [OF ok surjective_pairing, of 2 "''s/d''"] r by simp
qed

text \<open>C28: Splitting a buffer of inotify events gives the events that were stored in it, in order; the
  walk over any buffer ends.\<close>

theorem event_buffer_roundtrip:
  assumes "\<forall>ev \<in> set evs. event_ok ev"
  shows "parse_events (concat (map event_bytes evs)) = evs"
  using assms by (rule parse_event_bytes)

lemma event_buffer_roundtrip_witness:
  "parse_events (concat (map event_bytes [sample_event, sample_event])) = [sample_event, sample_event]"
proof (rule event_buffer_roundtrip)
  have "event_ok sample_event" by code_simp
  then show "\<forall>ev \<in> set [sample_event, sample_event]. event_ok ev" by simp
qed

end
