(* ===== verification/Workers.thy ===== *)
theory Workers
  imports Scheduler TransferRemote
begin

text \<open>
  The worker threads of \<^verbatim>\<open>src/transfer.c\<close>: what one worker does, run on its own, and the system of
  the scheduler and all workers as a step relation in which the threads interleave at the operations
  of the shared queue and of the flag \<open>stop\<close>.
\<close>

section \<open>One worker\<close>

text \<open>A failed task as it is queued again, or \<open>None\<close> when it is given up.\<close>

definition after_failure :: "sync_task \<Rightarrow> sync_task option" where
  "after_failure t =
     (if sint (t_retry_count t) < sint MAX_RETRY_COUNT
      then Some (t\<lparr>t_retry_count := t_retry_count t + 1\<rparr>) else None)"

definition requeue_or_fail :: "transfer_ctx \<Rightarrow> sync_task \<Rightarrow> int \<Rightarrow> (int \<times> transfer_ctx) prog" where
  "requeue_or_fail ctx task worker_id =
     (case after_failure task of
        Some t \<Rightarrow> do {
          _ \<leftarrow> sleep_ms 300;
          q \<leftarrow> push_task (c_queue ctx) t;
          _ \<leftarrow> log_message (c_log_fd ctx) LOG_WARN (worker_text worker_id
            (''retry '' @ t_rel_path t @ '' count='' @ show_int (sint (t_retry_count t))));
          ret (0, ctx\<lparr>c_queue := q\<rparr>)
        }
      | None \<Rightarrow> do {
          _ \<leftarrow> log_message (c_log_fd ctx) LOG_ERROR (worker_text worker_id
            (''give up '' @ t_rel_path task @ '' after '' @ show_int (sint (t_retry_count task)) @ '' retries''));
          ret (- 1, ctx)
        })"

text \<open>\<open>sock\<close> is the descriptor the kernel gives for a connection.\<close>

definition run_task :: "int \<Rightarrow> transfer_ctx \<Rightarrow> sync_task \<Rightarrow> int \<Rightarrow> int prog" where
  "run_task sock ctx task worker_id =
     (if cc_mode (c_config ctx) = MODE_LOCAL
      then sync_task_local (c_config ctx) task (c_log_fd ctx) worker_id
      else sync_task_remote sock (c_config ctx) task (c_log_fd ctx) worker_id)"

lemma sint_plus_1:
  fixes x :: "32 word"
  assumes "sint x < 3"
  shows "sint (x + 1) = sint x + 1"
proof -
  have "- (2 ^ 31) \<le> sint x" using sint_ge [of x] by simp
  then show ?thesis
    using assms by (simp add: sint_word_ariths(1) signed_take_bit_int_eq_self_iff)
qed

definition attempts_left :: "sync_task \<Rightarrow> nat" where
  "attempts_left t = Suc (nat (3 - sint (t_retry_count t)))"

lemma after_failure_less: "after_failure t = Some t' \<Longrightarrow> attempts_left t' < attempts_left t"
  by (auto simp: after_failure_def attempts_left_def sint_plus_1 split: if_splits)

definition work_left :: "sync_task list \<Rightarrow> nat" where
  "work_left ts = sum_list (map attempts_left ts)"

text \<open>One pass of the loop of a worker that got a task.\<close>

definition worker_round :: "int \<Rightarrow> transfer_ctx \<Rightarrow> sync_task \<Rightarrow> int \<Rightarrow> transfer_ctx prog" where
  "worker_round sock ctx task worker_id = do {
     rc \<leftarrow> run_task sock ctx task worker_id;
     (if rc < 0 then do {
        r \<leftarrow> requeue_or_fail ctx task worker_id;
        ret (snd r)
      }
      else ret ctx)
   }"

lemma push_task_queue:
  assumes "run_state (push_task (xs, st) t) w = (q, w')"
  shows "q = (xs @ [t], st) \<and> \<not> st \<or> q = (xs, st)"
  using assms by (auto simp: push_task_def split: prod.splits if_splits)

lemma worker_round_queue:
  assumes "run_state (worker_round sock ctx t wid) w = (ctx', w')"
  shows "(c_queue ctx' = c_queue ctx \<or> \<not> snd (c_queue ctx) \<and>
    (\<exists>t'. after_failure t = Some t' \<and> c_queue ctx' = (fst (c_queue ctx) @ [t'], snd (c_queue ctx)))) \<and>
    c_stop ctx' = c_stop ctx"
proof -
  obtain rc w1 where r: "run_state (run_task sock ctx t wid) w = (rc, w1)" by (rule prod.exhaust)
  obtain xs st where q: "c_queue ctx = (xs, st)" by (cases "c_queue ctx")
  show ?thesis
  proof (cases "rc < 0")
    case False
    then show ?thesis using assms r by (simp add: worker_round_def)
  next
    case True
    show ?thesis
    proof (cases "after_failure t")
      case None
      then show ?thesis using assms r True
        by (auto simp: worker_round_def requeue_or_fail_def split: prod.splits)
    next
      case (Some t')
      obtain q' w2 w3 where "run_state (push_task (c_queue ctx) t') w2 = (q', w3)" "ctx' = ctx\<lparr>c_queue := q'\<rparr>"
        using assms r True Some by (auto simp: worker_round_def requeue_or_fail_def split: prod.splits)
      then show ?thesis using push_task_queue [of xs st t' w2 q' w3] q Some by auto
    qed
  qed
qed

text \<open>
  The loop of a worker. It ends when the flag is set, or the queue is stopped and empty; on its own a
  worker also stays in \<^verbatim>\<open>pop\<close> for ever when the queue is empty and not stopped (\<open>Blocked\<close>).
\<close>

datatype worker_end = Blocked | Exited

function worker_loop :: "int \<Rightarrow> int \<Rightarrow> transfer_ctx \<Rightarrow> world \<Rightarrow> (worker_end \<times> transfer_ctx) \<times> world" where
  "worker_loop sock worker_id ctx w =
     (if c_stop ctx then ((Exited, ctx), w)
      else case fifo_step Pop (c_queue ctx) of
        (PopOut Waits, q) \<Rightarrow> ((Blocked, ctx), w)
      | (PopOut (Popped t), q) \<Rightarrow>
          (case run_state (worker_round sock (ctx\<lparr>c_queue := q\<rparr>) t worker_id) w of
             (ctx1, w1) \<Rightarrow> worker_loop sock worker_id ctx1 w1)
      | (_, q) \<Rightarrow> ((Exited, ctx), w))"
  by pat_completeness auto
termination
proof (relation "measure (\<lambda>(sock, wid, ctx, w). work_left (fst (c_queue ctx)))", goal_cases)
  case 1
  show ?case by simp
next
  case (2 sock wid ctx w out q x t ctx1 w1)
  obtain xs st where q0: "c_queue ctx = (xs, st)" by (cases "c_queue ctx")
  with 2 have q: "xs = t # fst q" "snd q = st" by (auto split: list.splits if_splits)
  have "c_queue ctx1 = q \<or> (\<exists>t'. after_failure t = Some t' \<and> c_queue ctx1 = (fst q @ [t'], snd q))"
    using worker_round_queue [of sock "ctx\<lparr>c_queue := q\<rparr>" t wid w ctx1 w1] 2 by auto
  moreover have "0 < attempts_left t" by (simp add: attempts_left_def)
  ultimately show ?case
    using q0 q after_failure_less by (auto simp: work_left_def)
qed

declare worker_loop.simps [simp del]

definition worker_thread_main :: "int \<Rightarrow> transfer_ctx \<Rightarrow> int \<Rightarrow> (worker_end \<times> transfer_ctx) prog" where
  "worker_thread_main sock ctx worker_id = do {
     r \<leftarrow> State (worker_loop sock worker_id ctx);
     (if fst r = Exited then do {
        _ \<leftarrow> log_message (c_log_fd ctx) LOG_INFO (worker_text worker_id ''exit'');
        ret r
      }
      else ret r)
   }"

section \<open>Starting the process\<close>

definition defaulted :: "client_config \<Rightarrow> client_config" where
  "defaulted c = c\<lparr>cc_thread_count := (if cc_thread_count c \<le> 0 then 4 else cc_thread_count c),
     cc_block_size := (if cc_block_size c \<le> 0 then 4096 else cc_block_size c),
     cc_debounce_ms := (if cc_debounce_ms c \<le> 0 then 1500 else cc_debounce_ms c)\<rparr>"

text \<open>Everything before the threads are created; \<open>Inl\<close> is the exit status.\<close>

definition transfer_start :: "client_config \<Rightarrow> int \<Rightarrow> int \<Rightarrow> (int + transfer_ctx) prog" where
  "transfer_start config event_read_fd log_write_fd = do {
     let cfg = defaulted config;
     l \<leftarrow> (if cc_mode cfg = MODE_LOCAL then ensure_backup_layout (cc_dst_root cfg) else ret 0);
     if l < 0 then do {
       _ \<leftarrow> log_message log_write_fd LOG_ERROR
         (''transfer: ensure backup layout failed root='' @ cc_dst_root cfg);
       ret (Inl 1)
     }
     else do {
       m \<leftarrow> sys_malloc (nat (cc_thread_count cfg) * 8);
       (case m of
          Inl _ \<Rightarrow> do {
            _ \<leftarrow> log_message log_write_fd LOG_ERROR ''transfer: alloc worker threads failed'';
            ret (Inl 1)
          }
        | Inr _ \<Rightarrow> ret (Inr \<lparr>c_config = cfg, c_event_read_fd = event_read_fd, c_log_fd = log_write_fd,
            c_queue = ([], False), c_pending = replicate MAX_PENDING_TASKS empty_pending, c_stop = False\<rparr>))
     }
   }"

text \<open>
  The threads: the scheduler has to be created, a worker that cannot be created is left out without a
  message. The numbers of the workers that run are the result; what they do together is the step
  relation below, started in \<open>threads_start (length ids)\<close>, and the joins wait until all of them are gone.
\<close>

definition sys_thread_create :: "(errno + unit) prog" where
  "sys_thread_create = syscall (\<lambda>w. (Inr (), w))"

definition start_worker :: "int \<Rightarrow> int list prog" where
  "start_worker worker_id = do {
     m \<leftarrow> sys_malloc 16;
     (case m of
        Inl _ \<Rightarrow> ret []
      | Inr _ \<Rightarrow> do {
          t \<leftarrow> sys_thread_create;
          ret (case t of Inl _ \<Rightarrow> [] | Inr _ \<Rightarrow> [worker_id])
        })
   }"

fun start_workers :: "int list \<Rightarrow> int list prog" where
  "start_workers [] = ret []"
| "start_workers (i # is) = do {
     x \<leftarrow> start_worker i;
     y \<leftarrow> start_workers is;
     ret (x @ y)
   }"

definition transfer_threads :: "client_config \<Rightarrow> int \<Rightarrow> int \<Rightarrow> (int + transfer_ctx \<times> int list) prog" where
  "transfer_threads config event_read_fd log_write_fd = do {
     r \<leftarrow> transfer_start config event_read_fd log_write_fd;
     (case r of
        Inl rc \<Rightarrow> ret (Inl rc)
      | Inr ctx \<Rightarrow> do {
          s \<leftarrow> sys_thread_create;
          (case s of
             Inl _ \<Rightarrow> do {
               _ \<leftarrow> log_message log_write_fd LOG_ERROR ''transfer: create scheduler failed'';
               ret (Inl 1)
             }
           | Inr _ \<Rightarrow> do {
               ids \<leftarrow> start_workers [1..cc_thread_count (c_config ctx)];
               ret (Inr (ctx, ids))
             })
        })
   }"

text \<open>After the joins.\<close>

definition transfer_end :: "int \<Rightarrow> int prog" where
  "transfer_end log_write_fd = do {
     _ \<leftarrow> log_message log_write_fd LOG_INFO ''transfer: process exit'';
     ret 0
   }"

text \<open>With no failing call every worker of the configuration runs.\<close>

lemma start_workers_all: "w_script w = [] \<Longrightarrow> run_state (start_workers is) w = (is, w)"
  by (induction "is") (simp_all add: start_worker_def sys_malloc_def sys_thread_create_def run_syscall)

section \<open>The threads together\<close>

text \<open>
  Where a worker is: at the test of the flag, in \<^verbatim>\<open>pop\<close>, at work on a task, before it queues a task
  again, or gone. The lists record what became of the tasks: \<open>th_tried\<close> has an entry for every time a
  worker took a task and ran it, and \<open>th_oom\<close> counts the failed allocations of queue nodes.
\<close>

datatype worker = Testing | Popping | Working sync_task | Requeuing sync_task | Gone

record threads =
  th_queue :: fifo_state
  th_stop :: bool
  th_workers :: "worker list"
  th_pushed :: "sync_task list"
  th_done :: "sync_task list"
  th_failed :: "sync_task list"
  th_lost :: "sync_task list"
  th_tried :: "sync_task list"
  th_oom :: nat

definition threads_start :: "nat \<Rightarrow> threads" where
  "threads_start n = \<lparr>th_queue = ([], False), th_stop = False, th_workers = replicate n Testing,
     th_pushed = [], th_done = [], th_failed = [], th_lost = [], th_tried = [], th_oom = 0\<rparr>"

definition is_at :: "threads \<Rightarrow> nat \<Rightarrow> worker \<Rightarrow> bool" where
  "is_at s i x \<longleftrightarrow> i < length (th_workers s) \<and> th_workers s ! i = x"

definition go :: "nat \<Rightarrow> worker \<Rightarrow> threads \<Rightarrow> threads" where
  "go i x s = s\<lparr>th_workers := (th_workers s)[i := x]\<rparr>"

text \<open>The steps of the workers: the result of a task is any number.\<close>

inductive worker_step :: "threads \<Rightarrow> threads \<Rightarrow> bool" where
  leave: "is_at s i Testing \<Longrightarrow> th_stop s \<Longrightarrow> worker_step s (go i Gone s)"
| enter: "is_at s i Testing \<Longrightarrow> \<not> th_stop s \<Longrightarrow> worker_step s (go i Popping s)"
| pop: "is_at s i Popping \<Longrightarrow> fifo_step Pop (th_queue s) = (PopOut (Popped t), q) \<Longrightarrow>
    worker_step s (go i (Working t) (s\<lparr>th_queue := q, th_tried := th_tried s @ [t]\<rparr>))"
| stopped: "is_at s i Popping \<Longrightarrow> fifo_step Pop (th_queue s) = (PopOut Stopped, q) \<Longrightarrow> worker_step s (go i Gone s)"
| success: "is_at s i (Working t) \<Longrightarrow> worker_step s (go i Testing (s\<lparr>th_done := th_done s @ [t]\<rparr>))"
| failure: "is_at s i (Working t) \<Longrightarrow> after_failure t = Some t' \<Longrightarrow> worker_step s (go i (Requeuing t') s)"
| give_up: "is_at s i (Working t) \<Longrightarrow> after_failure t = None \<Longrightarrow>
    worker_step s (go i Testing (s\<lparr>th_failed := th_failed s @ [t]\<rparr>))"
| requeue: "is_at s i (Requeuing t) \<Longrightarrow> fifo_step (Push True t) (th_queue s) = (Pushed 0, q) \<Longrightarrow>
    worker_step s (go i Testing (s\<lparr>th_queue := q\<rparr>))"
| requeue_refused: "is_at s i (Requeuing t) \<Longrightarrow> fifo_step (Push True t) (th_queue s) = (Pushed (- 1), q) \<Longrightarrow>
    worker_step s (go i Testing (s\<lparr>th_lost := th_lost s @ [t]\<rparr>))"
| requeue_nomem: "is_at s i (Requeuing t) \<Longrightarrow> fifo_step (Push False t) (th_queue s) = (Pushed (- 1), q) \<Longrightarrow>
    worker_step s (go i Testing (s\<lparr>th_lost := th_lost s @ [t], th_oom := Suc (th_oom s)\<rparr>))"

text \<open>The steps of the scheduler thread: tasks are pushed as long as it runs; then the queue is
  stopped, and after that the flag is set.\<close>

inductive scheduler_step :: "threads \<Rightarrow> threads \<Rightarrow> bool" where
  push: "\<not> snd (th_queue s) \<Longrightarrow> fifo_step (Push ok t) (th_queue s) = (Pushed 0, q) \<Longrightarrow>
    scheduler_step s (s\<lparr>th_queue := q, th_pushed := th_pushed s @ [t]\<rparr>)"
| stop_queue: "\<not> snd (th_queue s) \<Longrightarrow> scheduler_step s (s\<lparr>th_queue := snd (fifo_step Stop (th_queue s))\<rparr>)"
| set_flag: "snd (th_queue s) \<Longrightarrow> scheduler_step s (s\<lparr>th_stop := True\<rparr>)"

definition thread_step :: "threads \<Rightarrow> threads \<Rightarrow> bool" where
  "thread_step s s' \<longleftrightarrow> worker_step s s' \<or> scheduler_step s s'"

inductive reachable :: "nat \<Rightarrow> threads \<Rightarrow> bool" for n where
  start: "reachable n (threads_start n)"
| step: "reachable n s \<Longrightarrow> thread_step s s' \<Longrightarrow> reachable n s'"

inductive_cases worker_stepE: "worker_step s s'"
inductive_cases scheduler_stepE: "scheduler_step s s'"

end
