(* ===== verification/WorkerLaws.thy ===== *)
theory WorkerLaws
  imports Workers SchedulerLaws "HOL-Library.Multiset"
begin

text \<open>
  Properties of the worker threads of \<^verbatim>\<open>src/transfer.c\<close>: no task is duplicated or forgotten while
  the process runs, each is tried at most four times, the workers come to rest, and what the end of
  the process does to tasks that are still queued.
\<close>

section \<open>Where the tasks are\<close>

fun held :: "worker \<Rightarrow> sync_task list" where
  "held (Working t) = [t]"
| "held (Requeuing t) = [t]"
| "held _ = []"

definition in_hand :: "threads \<Rightarrow> sync_task list" where
  "in_hand s = concat (map held (th_workers s))"

definition everywhere :: "threads \<Rightarrow> sync_task list" where
  "everywhere s = fst (th_queue s) @ in_hand s @ th_done s @ th_failed s @ th_lost s"

definition origin :: "sync_task \<Rightarrow> sync_task" where
  "origin t = t\<lparr>t_retry_count := 0\<rparr>"

lemma mset_update_concat:
  "i < length xs \<Longrightarrow> mset (concat (map f (xs[i := y]))) + mset (f (xs ! i)) = mset (concat (map f xs)) + mset (f y)"
proof (induction xs arbitrary: i)
  case (Cons x xs)
  then show ?case by (cases i) (auto simp: ac_simps)
qed simp

lemma sum_list_upd: "i < length xs \<Longrightarrow> sum_list (map f (xs[i := y])) + f (xs ! i) = sum_list (map f xs) + (f y :: nat)"
proof (induction xs arbitrary: i)
  case (Cons x xs)
  then show ?case by (cases i) (auto simp: ac_simps)
qed simp

lemma in_hand_go:
  assumes "is_at s i x"
  shows "mset (in_hand (go i y s)) + mset (held x) = mset (in_hand s) + mset (held y)"
  using assms mset_update_concat [of i "th_workers s" held y] by (auto simp: in_hand_def go_def is_at_def)

lemma go_simps [simp]:
  "th_queue (go i x s) = th_queue s" "th_stop (go i x s) = th_stop s" "th_pushed (go i x s) = th_pushed s"
  "th_done (go i x s) = th_done s" "th_failed (go i x s) = th_failed s" "th_lost (go i x s) = th_lost s"
  "th_tried (go i x s) = th_tried s" "th_oom (go i x s) = th_oom s"
  "length (th_workers (go i x s)) = length (th_workers s)"
  by (simp_all add: go_def)

lemma is_at_upd [simp]:
  "is_at (s\<lparr>th_queue := q\<rparr>) = is_at s" "is_at (s\<lparr>th_done := d\<rparr>) = is_at s"
  "is_at (s\<lparr>th_failed := d\<rparr>) = is_at s" "is_at (s\<lparr>th_lost := d\<rparr>) = is_at s"
  "is_at (s\<lparr>th_tried := d\<rparr>) = is_at s" "is_at (s\<lparr>th_oom := k\<rparr>) = is_at s"
  by (simp_all add: is_at_def fun_eq_iff)

lemma in_hand_upd [simp]:
  "in_hand (s\<lparr>th_queue := q\<rparr>) = in_hand s" "in_hand (s\<lparr>th_done := d\<rparr>) = in_hand s"
  "in_hand (s\<lparr>th_failed := d\<rparr>) = in_hand s" "in_hand (s\<lparr>th_lost := d\<rparr>) = in_hand s"
  "in_hand (s\<lparr>th_stop := b\<rparr>) = in_hand s" "in_hand (s\<lparr>th_pushed := d\<rparr>) = in_hand s"
  "in_hand (s\<lparr>th_tried := d\<rparr>) = in_hand s" "in_hand (s\<lparr>th_oom := k\<rparr>) = in_hand s"
  by (simp_all add: in_hand_def)

text \<open>Every step leaves the tasks as they are, retries aside, or adds the pushed one.\<close>

definition census :: "threads \<Rightarrow> sync_task multiset" where
  "census s = image_mset origin (mset (everywhere s))"

lemma origin_after: "after_failure t = Some t' \<Longrightarrow> origin t' = origin t"
  by (auto simp: after_failure_def origin_def split: if_splits)

lemma pop_cases: "fifo_step Pop s = (PopOut (Popped t), q) \<longleftrightarrow> fst s = t # fst q \<and> snd q = snd s"
  by (cases s; cases q) (auto split: list.splits if_splits)

lemma pop_stopped: "fifo_step Pop s = (PopOut Stopped, q) \<longleftrightarrow> s = ([], True) \<and> q = s"
  by (cases s; cases q) (auto split: list.splits if_splits)

lemma push_ok: "fifo_step (Push ok t) s = (Pushed 0, q) \<longleftrightarrow> ok \<and> \<not> snd s \<and> q = (fst s @ [t], False)"
  by (cases s; cases q) auto

lemma push_bad: "fifo_step (Push ok t) s = (Pushed (- 1), q) \<longleftrightarrow> (\<not> ok \<or> snd s) \<and> q = s"
  by (cases s; cases q) auto

lemmas fifo_cases = pop_cases pop_stopped push_ok push_bad

lemma census_simps:
  "census s = image_mset origin (mset (fst (th_queue s))) + image_mset origin (mset (in_hand s)) +
     image_mset origin (mset (th_done s)) + image_mset origin (mset (th_failed s)) +
     image_mset origin (mset (th_lost s))"
  by (simp add: census_def everywhere_def ac_simps)

lemma in_hand_image:
  assumes "is_at s i x"
  shows "image_mset f (mset (in_hand (go i y s))) + image_mset f (mset (held x)) =
    image_mset f (mset (in_hand s)) + image_mset f (mset (held y))"
  using in_hand_go [OF assms, of y] by (metis image_mset_union)

lemma worker_step_census: "worker_step s s' \<Longrightarrow> census s' = census s \<and> th_pushed s' = th_pushed s"
proof (induction rule: worker_step.induct)
  case (leave s i)
  then show ?case using in_hand_image [of s i Testing origin Gone] by (simp add: census_simps)
next
  case (enter s i)
  then show ?case using in_hand_image [of s i Testing origin Popping] by (simp add: census_simps)
next
  case (pop s i t q)
  then show ?case using in_hand_image [of "s\<lparr>th_queue := q, th_tried := th_tried s @ [t]\<rparr>" i Popping origin "Working t"]
    by (simp add: census_simps pop_cases)
next
  case (stopped s i q)
  then show ?case using in_hand_image [of s i Popping origin Gone] by (simp add: census_simps)
next
  case (success s i t)
  then show ?case using in_hand_image [of "s\<lparr>th_done := th_done s @ [t]\<rparr>" i "Working t" origin Testing]
    by (simp add: census_simps)
next
  case (failure s i t t')
  then show ?case using in_hand_image [of s i "Working t" origin "Requeuing t'"] origin_after
    by (simp add: census_simps)
next
  case (give_up s i t)
  then show ?case using in_hand_image [of "s\<lparr>th_failed := th_failed s @ [t]\<rparr>" i "Working t" origin Testing]
    by (simp add: census_simps)
next
  case (requeue s i t q)
  then show ?case using in_hand_image [of "s\<lparr>th_queue := q\<rparr>" i "Requeuing t" origin Testing]
    by (simp add: census_simps push_ok)
next
  case (requeue_refused s i t q)
  then show ?case using in_hand_image [of "s\<lparr>th_lost := th_lost s @ [t]\<rparr>" i "Requeuing t" origin Testing]
    by (simp add: census_simps)
next
  case (requeue_nomem s i t q)
  then show ?case
    using in_hand_image [of "s\<lparr>th_lost := th_lost s @ [t], th_oom := Suc (th_oom s)\<rparr>" i "Requeuing t" origin Testing]
    by (simp add: census_simps)
qed

lemma scheduler_step_census:
  "scheduler_step s s' \<Longrightarrow> census s = image_mset origin (mset (th_pushed s)) \<Longrightarrow>
   census s' = image_mset origin (mset (th_pushed s'))"
proof (induction rule: scheduler_step.induct)
  case (push s t ok q)
  then show ?case by (simp add: census_simps push_ok)
next
  case (stop_queue s)
  then show ?case by (cases "th_queue s") (simp add: census_simps)
next
  case (set_flag s)
  then show ?case by (simp add: census_simps)
qed

lemma reachable_census: "reachable n s \<Longrightarrow> census s = image_mset origin (mset (th_pushed s))"
proof (induction rule: reachable.induct)
  case start
  then show ?case by (simp add: census_simps threads_start_def in_hand_def)
next
  case (step s s')
  then show ?case using worker_step_census scheduler_step_census by (auto simp: thread_step_def)
qed

section \<open>How often a task is tried\<close>

definition retries_ok :: "threads \<Rightarrow> bool" where
  "retries_ok s \<longleftrightarrow> (\<forall>t \<in> set (everywhere s). 0 \<le> sint (t_retry_count t) \<and> sint (t_retry_count t) \<le> 3) \<and>
     (\<forall>t \<in> set (th_failed s). sint (t_retry_count t) = 3) \<and>
     (\<forall>t \<in> set (th_lost s). 0 < sint (t_retry_count t)) \<and>
     (\<forall>x \<in> set (th_workers s). \<forall>t. x = Requeuing t \<longrightarrow> 0 < sint (t_retry_count t))"

lemma after_failure_retries:
  "after_failure t = Some t' \<Longrightarrow> sint (t_retry_count t') = sint (t_retry_count t) + 1 \<and> sint (t_retry_count t) < 3"
  by (auto simp: after_failure_def sint_plus_1 split: if_splits)

lemma after_failure_None: "after_failure t = None \<longleftrightarrow> 3 \<le> sint (t_retry_count t)"
  by (auto simp: after_failure_def)

lemma set_in_hand_go: "is_at s i x \<Longrightarrow> set (in_hand (go i y s)) \<subseteq> set (in_hand s) \<union> set (held y)"
  using set_update_subset_insert [of "th_workers s" i y] by (auto simp: in_hand_def go_def)

lemma workers_go: "z \<in> set (th_workers (go i y s)) \<Longrightarrow> z = y \<or> z \<in> set (th_workers s)"
  using set_update_subset_insert [of "th_workers s" i y] by (auto simp: go_def)

lemma held_in_hand: "is_at s i x \<Longrightarrow> t \<in> set (held x) \<Longrightarrow> t \<in> set (in_hand s)"
  by (auto simp: is_at_def in_hand_def intro: nth_mem)

lemma retries_go:
  assumes "retries_ok s" and "is_at s i x"
    and "\<forall>t \<in> set (held y). 0 \<le> sint (t_retry_count t) \<and> sint (t_retry_count t) \<le> 3"
    and "\<forall>t. y = Requeuing t \<longrightarrow> 0 < sint (t_retry_count t)"
  shows "retries_ok (go i y s)"
proof -
  have "set (everywhere (go i y s)) \<subseteq> set (everywhere s) \<union> set (held y)"
    using set_in_hand_go [OF assms(2), of y] by (auto simp: everywhere_def)
  then show ?thesis
    using assms workers_go [of _ i y s] unfolding retries_ok_def go_simps by blast
qed

lemma is_at_mem: "is_at s i x \<Longrightarrow> x \<in> set (th_workers s)"
  by (auto simp: is_at_def)

lemma retries_lost:
  assumes "retries_ok s" and "is_at s i (Requeuing t)"
  shows "retries_ok (s\<lparr>th_lost := th_lost s @ [t]\<rparr>)"
proof -
  have "t \<in> set (in_hand s)" using held_in_hand [OF assms(2)] by simp
  moreover have "0 < sint (t_retry_count t)"
    using assms(1) is_at_mem [OF assms(2)] by (auto simp: retries_ok_def)
  ultimately show ?thesis using assms(1) by (auto simp: retries_ok_def everywhere_def)
qed

lemma worker_step_retries: "worker_step s s' \<Longrightarrow> retries_ok s \<Longrightarrow> retries_ok s'"
proof (induction rule: worker_step.induct)
  case (leave s i)
  then show ?case by (intro retries_go) simp_all
next
  case (enter s i)
  then show ?case by (intro retries_go) simp_all
next
  case (pop s i t q)
  have q: "fst (th_queue s) = t # fst q" using pop by (simp add: pop_cases)
  have "retries_ok (s\<lparr>th_queue := q, th_tried := th_tried s @ [t]\<rparr>)"
    using pop.prems q by (auto simp: retries_ok_def everywhere_def)
  then show ?case
    using pop q by (intro retries_go [where x = Popping]) (auto simp: retries_ok_def everywhere_def)
next
  case (stopped s i q)
  then show ?case by (intro retries_go) simp_all
next
  case (success s i t)
  have t: "t \<in> set (in_hand s)" using held_in_hand [OF success(1)] by simp
  then have "retries_ok (s\<lparr>th_done := th_done s @ [t]\<rparr>)"
    using success.prems by (auto simp: retries_ok_def everywhere_def)
  then show ?case using success by (intro retries_go [where x = "Working t"]) simp_all
next
  case (failure s i t t')
  have "t \<in> set (in_hand s)" using held_in_hand [OF failure(1)] by simp
  then have "0 \<le> sint (t_retry_count t)" using failure.prems by (auto simp: retries_ok_def everywhere_def)
  then show ?case using failure after_failure_retries [OF failure(2)] by (intro retries_go) simp_all
next
  case (give_up s i t)
  have t: "t \<in> set (in_hand s)" using held_in_hand [OF give_up(1)] by simp
  then have "sint (t_retry_count t) \<le> 3" using give_up.prems by (auto simp: retries_ok_def everywhere_def)
  moreover have "3 \<le> sint (t_retry_count t)" using give_up(2) by (simp add: after_failure_None)
  ultimately have "sint (t_retry_count t) = 3" by simp
  then have "retries_ok (s\<lparr>th_failed := th_failed s @ [t]\<rparr>)"
    using give_up.prems by (auto simp: retries_ok_def everywhere_def)
  then show ?case using give_up by (intro retries_go [where x = "Working t"]) simp_all
next
  case (requeue s i t q)
  have t: "t \<in> set (in_hand s)" using held_in_hand [OF requeue(1)] by simp
  then have "retries_ok (s\<lparr>th_queue := q\<rparr>)"
    using requeue by (auto simp: retries_ok_def everywhere_def push_ok)
  then show ?case using requeue by (intro retries_go [where x = "Requeuing t"]) simp_all
next
  case (requeue_refused s i t q)
  have "retries_ok (s\<lparr>th_lost := th_lost s @ [t]\<rparr>)" by (rule retries_lost [OF requeue_refused(3,1)])
  then show ?case using requeue_refused by (intro retries_go [where x = "Requeuing t"]) simp_all
next
  case (requeue_nomem s i t q)
  have "retries_ok (s\<lparr>th_lost := th_lost s @ [t]\<rparr>)" by (rule retries_lost [OF requeue_nomem(3,1)])
  then have "retries_ok (s\<lparr>th_lost := th_lost s @ [t], th_oom := Suc (th_oom s)\<rparr>)"
    by (simp add: retries_ok_def everywhere_def)
  then show ?case using requeue_nomem by (intro retries_go [where x = "Requeuing t"]) simp_all
qed

text \<open>The monitor sends its tasks with the count 0.\<close>

definition fresh_pushes :: "threads \<Rightarrow> bool" where
  "fresh_pushes s \<longleftrightarrow> (\<forall>t \<in> set (th_pushed s). t_retry_count t = 0)"

lemma scheduler_step_retries: "scheduler_step s s' \<Longrightarrow> retries_ok s \<Longrightarrow> fresh_pushes s' \<Longrightarrow> retries_ok s'"
proof (induction rule: scheduler_step.induct)
  case (push s t ok q)
  then show ?case by (auto simp: retries_ok_def everywhere_def push_ok fresh_pushes_def)
next
  case (stop_queue s)
  then show ?case by (cases "th_queue s") (auto simp: retries_ok_def everywhere_def)
next
  case (set_flag s)
  then show ?case by (auto simp: retries_ok_def everywhere_def)
qed

lemma thread_step_pushes: "thread_step s s' \<Longrightarrow> fresh_pushes s' \<Longrightarrow> fresh_pushes s"
proof -
  assume st: "thread_step s s'" and f: "fresh_pushes s'"
  from st show "fresh_pushes s"
    unfolding thread_step_def
  proof
    assume "worker_step s s'"
    then show ?thesis using worker_step_census f by (simp add: fresh_pushes_def)
  next
    assume "scheduler_step s s'"
    then show ?thesis using f by (cases rule: scheduler_step.cases) (auto simp: fresh_pushes_def)
  qed
qed

lemma reachable_retries: "reachable n s \<Longrightarrow> fresh_pushes s \<Longrightarrow> retries_ok s"
proof (induction rule: reachable.induct)
  case start
  then show ?case by (simp add: retries_ok_def everywhere_def threads_start_def in_hand_def)
next
  case (step s s')
  then have "retries_ok s" using thread_step_pushes by blast
  then show ?case using worker_step_retries scheduler_step_retries step by (auto simp: thread_step_def)
qed

text \<open>The number of times a task has been tried: its retry count, and one more while it is run and once it
  is done or given up.\<close>

definition times :: "sync_task \<Rightarrow> sync_task list \<Rightarrow> nat" where
  "times o' ts = length (filter (\<lambda>t. origin t = o') ts)"

definition used :: "sync_task \<Rightarrow> nat \<Rightarrow> sync_task list \<Rightarrow> nat" where
  "used o' k ts = sum_list (map (\<lambda>t. if origin t = o' then nat (sint (t_retry_count t)) + k else 0) ts)"

fun hand_used :: "sync_task \<Rightarrow> worker \<Rightarrow> nat" where
  "hand_used o' (Working t) = used o' 1 [t]"
| "hand_used o' (Requeuing t) = used o' 0 [t]"
| "hand_used o' _ = 0"

definition account :: "sync_task \<Rightarrow> threads \<Rightarrow> nat" where
  "account o' s = used o' 0 (fst (th_queue s)) + sum_list (map (hand_used o') (th_workers s)) +
     used o' 1 (th_done s) + used o' 1 (th_failed s) + used o' 0 (th_lost s)"

lemma used_simps [simp]:
  "used o' k [] = 0" "used o' k (ts @ us) = used o' k ts + used o' k us"
  by (simp_all add: used_def)

lemma used_Cons: "used o' k (t # ts) = used o' k [t] + used o' k ts"
  by (simp add: used_def)

lemma times_simps [simp]:
  "times o' [] = 0" "times o' (ts @ us) = times o' ts + times o' us"
  "times o' (t # ts) = (if origin t = o' then 1 else 0) + times o' ts"
  by (simp_all add: times_def)

lemma used_Suc: "used o' (Suc k) [t] = times o' [t] + used o' k [t]"
  by (simp add: used_def)

lemma used_bound: "\<forall>t \<in> set ts. sint (t_retry_count t) \<le> 3 \<Longrightarrow> used o' k ts \<le> (3 + k) * times o' ts"
  by (induction ts) (auto simp: used_def)

lemma used_exact: "\<forall>t \<in> set ts. sint (t_retry_count t) = 3 \<Longrightarrow> used o' k ts = (3 + k) * times o' ts"
  by (induction ts) (auto simp: used_def)

lemma account_go: "is_at s i x \<Longrightarrow> account o' (go i y s) + hand_used o' x = account o' s + hand_used o' y"
  using sum_list_upd [of i "th_workers s" "hand_used o'" y] by (simp add: account_def go_def is_at_def)

lemma account_upd [simp]:
  "account o' (s\<lparr>th_tried := d\<rparr>) = account o' s" "account o' (s\<lparr>th_oom := k\<rparr>) = account o' s"
  "account o' (s\<lparr>th_pushed := d\<rparr>) = account o' s" "account o' (s\<lparr>th_stop := b\<rparr>) = account o' s"
  "account o' (s\<lparr>th_done := th_done s @ [t]\<rparr>) = account o' s + used o' 1 [t]"
  "account o' (s\<lparr>th_failed := th_failed s @ [t]\<rparr>) = account o' s + used o' 1 [t]"
  "account o' (s\<lparr>th_lost := th_lost s @ [t]\<rparr>) = account o' s + used o' 0 [t]"
  by (simp_all add: account_def)

lemma worker_step_account:
  "worker_step s s' \<Longrightarrow> retries_ok s \<Longrightarrow> times o' (th_tried s) = account o' s \<Longrightarrow>
   times o' (th_tried s') = account o' s'"
proof (induction rule: worker_step.induct)
  case (leave s i)
  then show ?case using account_go [of s i Testing o' Gone] by simp
next
  case (enter s i)
  then show ?case using account_go [of s i Testing o' Popping] by simp
next
  case (pop s i t q)
  let ?s = "s\<lparr>th_queue := q, th_tried := th_tried s @ [t]\<rparr>"
  have "account o' s = account o' ?s + used o' 0 [t]" using pop(2) used_Cons [of o' 0 t "fst q"] by (auto simp: pop_cases account_def)
  then show ?case using pop account_go [of ?s i Popping o' "Working t"] used_Suc [of o' 0 t] by simp
next
  case (stopped s i q)
  then show ?case using account_go [of s i Popping o' Gone] by simp
next
  case (success s i t)
  then show ?case using account_go [of "s\<lparr>th_done := th_done s @ [t]\<rparr>" i "Working t" o' Testing] by simp
next
  case (failure s i t t')
  have "t \<in> set (in_hand s)" using held_in_hand [OF failure(1)] by simp
  then have "0 \<le> sint (t_retry_count t)" using failure(3) by (auto simp: retries_ok_def everywhere_def)
  then have "nat (sint (t_retry_count t')) = Suc (nat (sint (t_retry_count t)))"
    using after_failure_retries [OF failure(2)] by (simp add: nat_add_distrib)
  then have "used o' 0 [t'] = used o' 1 [t]" using origin_after [OF failure(2)] by (simp add: used_def)
  then show ?case using failure account_go [of s i "Working t" o' "Requeuing t'"] by simp
next
  case (give_up s i t)
  then show ?case using account_go [of "s\<lparr>th_failed := th_failed s @ [t]\<rparr>" i "Working t" o' Testing] by simp
next
  case (requeue s i t q)
  have "account o' (s\<lparr>th_queue := q\<rparr>) = account o' s + used o' 0 [t]" using requeue(2) by (simp add: push_ok account_def)
  then show ?case using requeue account_go [of "s\<lparr>th_queue := q\<rparr>" i "Requeuing t" o' Testing] by simp
next
  case (requeue_refused s i t q)
  then show ?case using account_go [of "s\<lparr>th_lost := th_lost s @ [t]\<rparr>" i "Requeuing t" o' Testing] by simp
next
  case (requeue_nomem s i t q)
  then show ?case
    using account_go [of "s\<lparr>th_lost := th_lost s @ [t], th_oom := Suc (th_oom s)\<rparr>" i "Requeuing t" o' Testing] by simp
qed

lemma scheduler_step_account:
  "scheduler_step s s' \<Longrightarrow> fresh_pushes s' \<Longrightarrow> times o' (th_tried s) = account o' s \<Longrightarrow>
   times o' (th_tried s') = account o' s'"
proof (induction rule: scheduler_step.induct)
  case (push s t ok q)
  then show ?case by (simp add: push_ok account_def fresh_pushes_def) (simp add: used_def)
next
  case (stop_queue s)
  then show ?case by (cases "th_queue s") (simp add: account_def)
qed simp

lemma reachable_account: "reachable n s \<Longrightarrow> fresh_pushes s \<Longrightarrow> times o' (th_tried s) = account o' s"
proof (induction rule: reachable.induct)
  case start
  have "sum_list (map (hand_used o') (replicate n Testing)) = 0" by (induction n) simp_all
  then show ?case by (simp add: account_def threads_start_def)
next
  case (step s s')
  have f: "fresh_pushes s" using thread_step_pushes step by blast
  then show ?case
    using step worker_step_account [OF _ reachable_retries [OF step(1)]] scheduler_step_account
    by (auto simp: thread_step_def)
qed

lemma times_census: "times o' ts = count (image_mset origin (mset ts)) o'"
  by (induction ts) auto

lemma hands_bound:
  "\<forall>t \<in> set (concat (map held xs)). sint (t_retry_count t) \<le> 3 \<Longrightarrow>
   sum_list (map (hand_used o') xs) \<le> 4 * times o' (concat (map held xs))"
proof (induction xs)
  case (Cons x xs)
  have "hand_used o' x \<le> 4 * times o' (held x)"
    using Cons.prems used_bound [of "held x" o' 1] used_bound [of "held x" o' 0] by (cases x) auto
  then show ?case using Cons by simp
qed simp

lemma tries_bound:
  assumes "reachable n s" and "fresh_pushes s"
  shows "times o' (th_tried s) \<le> 4 * times o' (th_pushed s)" and "4 * times o' (th_failed s) \<le> times o' (th_tried s)"
proof -
  have ok: "retries_ok s" by (rule reachable_retries [OF assms])
  have le: "\<forall>t \<in> set (everywhere s). sint (t_retry_count t) \<le> 3" using ok by (simp add: retries_ok_def)
  have acc: "times o' (th_tried s) = account o' s" by (rule reachable_account [OF assms])
  have "used o' 0 (fst (th_queue s)) \<le> 3 * times o' (fst (th_queue s))"
    "used o' 1 (th_done s) \<le> 4 * times o' (th_done s)" "used o' 1 (th_failed s) \<le> 4 * times o' (th_failed s)"
    "used o' 0 (th_lost s) \<le> 3 * times o' (th_lost s)"
    using le used_bound [of "fst (th_queue s)" o' 0] used_bound [of "th_done s" o' 1]
      used_bound [of "th_failed s" o' 1] used_bound [of "th_lost s" o' 0] by (simp_all add: everywhere_def)
  moreover have "sum_list (map (hand_used o') (th_workers s)) \<le> 4 * times o' (in_hand s)"
    using hands_bound [of "th_workers s" o'] le by (simp add: everywhere_def in_hand_def)
  ultimately have "account o' s \<le> 4 * times o' (everywhere s)" by (simp add: account_def everywhere_def)
  also have "times o' (everywhere s) = times o' (th_pushed s)"
    using reachable_census [OF assms(1)] by (simp add: times_census census_def)
  finally show "times o' (th_tried s) \<le> 4 * times o' (th_pushed s)" using acc by simp
  have "used o' 1 (th_failed s) = 4 * times o' (th_failed s)"
    using ok used_exact [of "th_failed s" o' 1] by (simp add: retries_ok_def)
  then show "4 * times o' (th_failed s) \<le> times o' (th_tried s)" using acc by (simp add: account_def)
qed

section \<open>The workers come to rest\<close>

fun effort :: "worker \<Rightarrow> nat" where
  "effort Gone = 0"
| "effort Popping = 1"
| "effort Testing = 2"
| "effort (Working t) = 4 * attempts_left t"
| "effort (Requeuing t) = 4 * attempts_left t + 3"

definition effort_left :: "threads \<Rightarrow> nat" where
  "effort_left s = sum_list (map (\<lambda>t. 4 * attempts_left t) (fst (th_queue s))) +
     sum_list (map effort (th_workers s))"

lemma effort_go:
  "is_at s i x \<Longrightarrow> effort_left (go i y s) + effort x = effort_left s + effort y"
  using sum_list_upd [of i "th_workers s" effort y] by (simp add: effort_left_def go_def is_at_def)

lemma effort_upd [simp]:
  "effort_left (s\<lparr>th_done := d\<rparr>) = effort_left s" "effort_left (s\<lparr>th_failed := d\<rparr>) = effort_left s"
  "effort_left (s\<lparr>th_lost := d\<rparr>) = effort_left s" "effort_left (s\<lparr>th_tried := d\<rparr>) = effort_left s"
  "effort_left (s\<lparr>th_oom := k\<rparr>) = effort_left s"
  by (simp_all add: effort_left_def)

lemma attempts_pos: "0 < attempts_left t"
  by (simp add: attempts_left_def)

lemma worker_step_effort: "worker_step s s' \<Longrightarrow> effort_left s' < effort_left s"
proof (induction rule: worker_step.induct)
  case (leave s i)
  then show ?case using effort_go [of s i Testing Gone] by simp
next
  case (enter s i)
  then show ?case using effort_go [of s i Testing Popping] by simp
next
  case (pop s i t q)
  let ?s = "s\<lparr>th_queue := q, th_tried := th_tried s @ [t]\<rparr>"
  have "effort_left s = effort_left ?s + 4 * attempts_left t" using pop(2) by (simp add: pop_cases effort_left_def)
  then show ?case using pop effort_go [of ?s i Popping "Working t"] by simp
next
  case (stopped s i q)
  then show ?case using effort_go [of s i Popping Gone] by simp
next
  case (success s i t)
  then show ?case
    using effort_go [of "s\<lparr>th_done := th_done s @ [t]\<rparr>" i "Working t" Testing] attempts_pos [of t] by simp
next
  case (failure s i t t')
  then show ?case using effort_go [of s i "Working t" "Requeuing t'"] after_failure_less [of t t'] by simp
next
  case (give_up s i t)
  then show ?case
    using effort_go [of "s\<lparr>th_failed := th_failed s @ [t]\<rparr>" i "Working t" Testing] attempts_pos [of t] by simp
next
  case (requeue s i t q)
  then have "effort_left (s\<lparr>th_queue := q\<rparr>) = effort_left s + 4 * attempts_left t"
    by (simp add: push_ok effort_left_def)
  then show ?case using requeue effort_go [of "s\<lparr>th_queue := q\<rparr>" i "Requeuing t" Testing] by simp
next
  case (requeue_refused s i t q)
  then show ?case
    using effort_go [of "s\<lparr>th_lost := th_lost s @ [t]\<rparr>" i "Requeuing t" Testing] by simp
next
  case (requeue_nomem s i t q)
  then show ?case
    using effort_go [of "s\<lparr>th_lost := th_lost s @ [t], th_oom := Suc (th_oom s)\<rparr>" i "Requeuing t" Testing] by simp
qed

lemma worker_steps_bound: "(worker_step ^^ k) s s' \<Longrightarrow> k + effort_left s' \<le> effort_left s"
proof (induction k arbitrary: s')
  case (Suc k)
  then obtain s1 where "(worker_step ^^ k) s s1" "worker_step s1 s'" by auto
  then show ?case using Suc.IH worker_step_effort by fastforce
qed simp

text \<open>A worker that cannot move is gone, or waits for an empty queue that is not stopped.\<close>

lemma worker_moves:
  assumes "i < length (th_workers s)" and "\<not> (\<exists>s'. worker_step s s')"
  shows "th_workers s ! i = Gone \<or> th_workers s ! i = Popping \<and> th_queue s = ([], False)"
proof -
  have at: "is_at s i (th_workers s ! i)" using assms(1) by (simp add: is_at_def)
  show ?thesis
  proof (cases "th_workers s ! i")
    case Testing
    then show ?thesis using at assms(2) worker_step.leave worker_step.enter by metis
  next
    case Popping
    obtain xs st where q: "th_queue s = (xs, st)" by (cases "th_queue s")
    have "xs = []"
      using at Popping assms(2) worker_step.pop [of s i] q by (cases xs) (auto simp: pop_cases)
    moreover have "\<not> st"
      using at Popping assms(2) worker_step.stopped [of s i] q calculation by (auto simp: pop_stopped)
    ultimately show ?thesis using Popping q by simp
  next
    case (Working t)
    then show ?thesis using at assms(2) worker_step.success by metis
  next
    case (Requeuing t)
    then show ?thesis
      using at assms(2) worker_step.requeue_nomem [of s i t] by (auto simp: push_bad)
  qed simp
qed

text \<open>A worker leaves only when the flag is set, or the queue is stopped and empty.\<close>

definition gone_ok :: "nat \<Rightarrow> threads \<Rightarrow> bool" where
  "gone_ok n s \<longleftrightarrow> length (th_workers s) = n \<and>
     (Gone \<in> set (th_workers s) \<longrightarrow> th_stop s \<or> th_queue s = ([], True))"

lemma gone_go:
  "gone_ok n s \<Longrightarrow> y = Gone \<Longrightarrow> th_stop s \<or> th_queue s = ([], True) \<Longrightarrow> gone_ok n (go i y s)"
  "gone_ok n s \<Longrightarrow> y \<noteq> Gone \<Longrightarrow> gone_ok n (go i y s)"
  using workers_go [of Gone i y s] by (auto simp: gone_ok_def)

lemma worker_step_gone: "worker_step s s' \<Longrightarrow> gone_ok n s \<Longrightarrow> gone_ok n s'"
proof (induction rule: worker_step.induct)
  case (pop s i t q)
  then have "gone_ok n (s\<lparr>th_queue := q, th_tried := th_tried s @ [t]\<rparr>)" by (auto simp: gone_ok_def pop_cases)
  then show ?case by (rule gone_go) simp
next
  case (requeue s i t q)
  then have "gone_ok n (s\<lparr>th_queue := q\<rparr>)" by (auto simp: gone_ok_def push_ok)
  then show ?case by (rule gone_go) simp
next
  case (success s i t)
  then have "gone_ok n (s\<lparr>th_done := th_done s @ [t]\<rparr>)" by (simp add: gone_ok_def)
  then show ?case by (rule gone_go) simp
next
  case (give_up s i t)
  then have "gone_ok n (s\<lparr>th_failed := th_failed s @ [t]\<rparr>)" by (simp add: gone_ok_def)
  then show ?case by (rule gone_go) simp
next
  case (requeue_refused s i t q)
  then have "gone_ok n (s\<lparr>th_lost := th_lost s @ [t]\<rparr>)" by (simp add: gone_ok_def)
  then show ?case by (rule gone_go) simp
next
  case (requeue_nomem s i t q)
  then have "gone_ok n (s\<lparr>th_lost := th_lost s @ [t], th_oom := Suc (th_oom s)\<rparr>)" by (simp add: gone_ok_def)
  then show ?case by (rule gone_go) simp
qed (auto intro: gone_go simp: pop_stopped)

lemma scheduler_step_gone: "scheduler_step s s' \<Longrightarrow> gone_ok n s \<Longrightarrow> gone_ok n s'"
proof (induction rule: scheduler_step.induct)
  case (stop_queue s)
  then show ?case by (cases "th_queue s") (auto simp: gone_ok_def)
qed (auto simp: gone_ok_def push_ok)

lemma reachable_gone: "reachable n s \<Longrightarrow> gone_ok n s"
proof (induction rule: reachable.induct)
  case start
  then show ?case by (simp add: gone_ok_def threads_start_def)
next
  case (step s s')
  then show ?case using worker_step_gone scheduler_step_gone by (auto simp: thread_step_def)
qed

lemma at_rest:
  assumes r: "reachable n s" and n: "0 < n" and stuck: "\<not> (\<exists>s'. worker_step s s')" and run: "\<not> th_stop s"
  shows "fst (th_queue s) = [] \<and> in_hand s = []"
proof -
  have len: "length (th_workers s) = n" and g: "Gone \<in> set (th_workers s) \<Longrightarrow> th_queue s = ([], True)"
    using reachable_gone [OF r] run by (simp_all add: gone_ok_def)
  have w: "x = Gone \<or> x = Popping \<and> th_queue s = ([], False)" if "x \<in> set (th_workers s)" for x
    using that worker_moves [OF _ stuck] by (auto simp: in_set_conv_nth)
  have "in_hand s = []" using w by (fastforce simp: in_hand_def)
  moreover have "th_workers s ! 0 \<in> set (th_workers s)" using len n by simp
  then have "fst (th_queue s) = []" using w g by fastforce
  ultimately show ?thesis by simp
qed

text \<open>Runs of the system.\<close>

lemma reach_push:
  "reachable n s \<Longrightarrow> th_queue s = (xs, False) \<Longrightarrow>
   reachable n (s\<lparr>th_queue := (xs @ [t], False), th_pushed := th_pushed s @ [t]\<rparr>)"
  by (rule reachable.step) (auto simp: thread_step_def intro!: scheduler_step.push [where ok = True])

lemma reach_worker: "reachable n s \<Longrightarrow> worker_step s s' \<Longrightarrow> reachable n s'"
  by (rule reachable.step) (auto simp: thread_step_def)

lemma all_leave:
  assumes "reachable n s" and "th_workers s = replicate n Testing" and "th_stop s" and "k \<le> n"
  shows "reachable n (s\<lparr>th_workers := replicate k Gone @ replicate (n - k) Testing\<rparr>)"
  using assms(4)
proof (induction k)
  case 0
  then show ?case using assms(1,2) by (metis append_Nil minus_nat.diff_0 replicate_0 threads.surjective threads.update_convs(3))
next
  case (Suc k)
  let ?s = "s\<lparr>th_workers := replicate k Gone @ replicate (n - k) Testing\<rparr>"
  obtain j where j: "n - k = Suc j" "n - Suc k = j" using Suc.prems by (cases "n - k") auto
  have "is_at ?s k Testing" using j by (simp add: is_at_def nth_append)
  then have "worker_step ?s (go k Gone ?s)" using assms(3) by (intro worker_step.leave) simp_all
  moreover have "go k Gone ?s = s\<lparr>th_workers := replicate (Suc k) Gone @ replicate (n - Suc k) Testing\<rparr>"
    using j by (simp add: go_def list_update_append replicate_app_Cons_same)
  ultimately show ?case using reach_worker [of n ?s] Suc by simp
qed

text \<open>One worker, one task, the queue stopped after it.\<close>

definition rested :: threads where
  "rested = \<lparr>th_queue = ([], True), th_stop = False, th_workers = [Gone], th_pushed = [init_sync_task],
     th_done = [init_sync_task], th_failed = [], th_lost = [], th_tried = [init_sync_task], th_oom = 0\<rparr>"

lemma rested_reachable: "reachable 1 rested"
proof -
  let ?t = init_sync_task
  let ?W = "\<lambda>x q dn tr. \<lparr>th_queue = q, th_stop = False, th_workers = [x], th_pushed = [?t],
    th_done = dn, th_failed = [], th_lost = [], th_tried = tr, th_oom = 0\<rparr>"
  have go_W: "go 0 y (?W x q dn tr) = ?W y q dn tr" for x y q dn tr by (simp add: go_def)
  have r: "reachable 1 (?W Testing ([?t], False) [] [])"
    using reach_push [OF reachable.start, of 1 "[]" ?t] by (simp add: threads_start_def)
  from reach_worker [OF r] worker_step.enter [of "?W Testing ([?t], False) [] []" 0]
  have r: "reachable 1 (?W Popping ([?t], False) [] [])" by (simp add: go_W is_at_def)
  from reach_worker [OF r] worker_step.pop [of "?W Popping ([?t], False) [] []" 0 ?t "([], False)"]
  have r: "reachable 1 (?W (Working ?t) ([], False) [] [?t])" by (simp add: go_W is_at_def)
  from reach_worker [OF r] worker_step.success [of "?W (Working ?t) ([], False) [] [?t]" 0 ?t]
  have r: "reachable 1 (?W Testing ([], False) [?t] [?t])" by (simp add: go_W is_at_def)
  from reach_worker [OF r] worker_step.enter [of "?W Testing ([], False) [?t] [?t]" 0]
  have r: "reachable 1 (?W Popping ([], False) [?t] [?t])" by (simp add: go_W is_at_def)
  from reachable.step [OF r] scheduler_step.stop_queue [of "?W Popping ([], False) [?t] [?t]"]
  have r: "reachable 1 (?W Popping ([], True) [?t] [?t])" by (simp add: thread_step_def)
  from reach_worker [OF r] worker_step.stopped [of "?W Popping ([], True) [?t] [?t]" 0 "([], True)"]
  show ?thesis by (simp add: go_W is_at_def rested_def)
qed

lemma rested_stuck: "\<not> worker_step rested s'"
  by (rule notI, erule worker_stepE) (auto simp: rested_def is_at_def)

section \<open>Properties\<close>

text \<open>Nothing is lost but by a stopped queue or for want of memory.\<close>

definition losses_ok :: "threads \<Rightarrow> bool" where
  "losses_ok s \<longleftrightarrow> th_oom s \<le> length (th_lost s) \<and> (\<not> snd (th_queue s) \<longrightarrow> length (th_lost s) = th_oom s)"

lemma worker_step_losses: "worker_step s s' \<Longrightarrow> losses_ok s \<Longrightarrow> losses_ok s'"
  by (erule worker_stepE) (auto simp: losses_ok_def pop_cases push_ok push_bad)

lemma scheduler_step_losses: "scheduler_step s s' \<Longrightarrow> losses_ok s \<Longrightarrow> losses_ok s'"
  by (erule scheduler_stepE) (auto simp: losses_ok_def push_ok split: prod.splits)

lemma reachable_losses: "reachable n s \<Longrightarrow> losses_ok s"
proof (induction rule: reachable.induct)
  case start
  then show ?case by (simp add: losses_ok_def threads_start_def)
next
  case (step s s')
  then show ?case using worker_step_losses scheduler_step_losses by (auto simp: thread_step_def)
qed

text \<open>C12: No task is duplicated or forgotten while the process runs: in every reachable state, for any
  number of workers and any interleaving, the tasks that were pushed are, retry counts aside, exactly
  those in the queue, in the hands of a worker, done, given up, or lost; and as long as the queue is not
  stopped, there are exactly as many lost ones as allocations of queue nodes have failed.\<close>

theorem tasks_are_conserved:
  assumes "reachable n s"
  shows "image_mset origin (mset (th_pushed s)) =
      image_mset origin (mset (fst (th_queue s) @ in_hand s @ th_done s @ th_failed s @ th_lost s)) \<and>
    (\<not> snd (th_queue s) \<longrightarrow> length (th_lost s) = th_oom s)"
  using reachable_census [OF assms] reachable_losses [OF assms] by (simp add: census_def everywhere_def losses_ok_def)

lemma tasks_are_conserved_witness:
  "image_mset origin (mset (th_pushed rested)) =
    image_mset origin (mset (fst (th_queue rested) @ in_hand rested @ th_done rested @ th_failed rested @
      th_lost rested))"
  using tasks_are_conserved [OF rested_reachable] by blast

text \<open>C14: A task is tried at most four times, and one that is given up has been tried four times: in
  every reachable state, when the tasks were pushed with the count 0 as the monitor sends them, the
  number of times that workers have run a task is at most four times the number of its pushes, and at
  least four times the number of times it has been given up; and no retry count is above three.\<close>

theorem retries_are_bounded:
  assumes "reachable n s" and "\<forall>t \<in> set (th_pushed s). t_retry_count t = 0"
  shows "times o' (th_tried s) \<le> 4 * times o' (th_pushed s) \<and> 4 * times o' (th_failed s) \<le> times o' (th_tried s) \<and>
    (\<forall>t \<in> set (fst (th_queue s) @ in_hand s @ th_done s @ th_failed s @ th_lost s).
      0 \<le> sint (t_retry_count t) \<and> sint (t_retry_count t) \<le> 3) \<and>
    (\<forall>t \<in> set (th_failed s). sint (t_retry_count t) = 3)"
proof -
  have f: "fresh_pushes s" using assms(2) by (simp add: fresh_pushes_def)
  show ?thesis
    using tries_bound [OF assms(1) f] reachable_retries [OF assms(1) f] by (auto simp: retries_ok_def everywhere_def)
qed

lemma retries_are_bounded_witness:
  "times init_sync_task (th_tried rested) \<le> 4 * times init_sync_task (th_pushed rested) \<and>
    (\<lambda>t. sint (t_retry_count t)) ` set (fst (th_queue rested) @ in_hand rested @ th_done rested @
      th_failed rested @ th_lost rested) \<subseteq> {0..3}"
proof -
  have "\<forall>t \<in> set (th_pushed rested). t_retry_count t = 0" by (simp add: rested_def init_sync_task_def)
  from retries_are_bounded [OF rested_reachable this, of init_sync_task] show ?thesis by auto
qed

text \<open>C13: The workers come to rest: without new tasks they make a bounded number of steps, whatever
  fails; and when they have stopped moving before the flag \<open>stop\<close> is set, the queue is empty and every
  pushed task is done, given up, or was lost when it was requeued (the queue was stopped, or no node
  could be allocated).\<close>

theorem workers_finish_the_queue:
  assumes "reachable n s" and "0 < n"
  shows "(\<forall>k s'. (worker_step ^^ k) s s' \<longrightarrow> k \<le> effort_left s) \<and>
    ((\<not> (\<exists>s'. worker_step s s')) \<and> \<not> th_stop s \<longrightarrow> fst (th_queue s) = [] \<and>
      image_mset origin (mset (th_pushed s)) = image_mset origin (mset (th_done s @ th_failed s @ th_lost s)))"
proof (intro conjI allI impI)
  show "k \<le> effort_left s" if "(worker_step ^^ k) s s'" for k s' using worker_steps_bound [OF that] by simp
next
  assume st: "(\<not> (\<exists>s'. worker_step s s')) \<and> \<not> th_stop s"
  then have "fst (th_queue s) = [] \<and> in_hand s = []" using at_rest [OF assms] by blast
  then show "fst (th_queue s) = []" and
    "image_mset origin (mset (th_pushed s)) = image_mset origin (mset (th_done s @ th_failed s @ th_lost s))"
    using reachable_census [OF assms(1)] by (simp_all add: census_def everywhere_def)
qed

lemma workers_finish_the_queue_witness:
  "{k. \<exists>s'. (worker_step ^^ k) rested s'} \<subseteq> {..effort_left rested} \<and> fst (th_queue rested) = [] \<and>
    image_mset origin (mset (th_pushed rested)) =
      image_mset origin (mset (th_done rested @ th_failed rested @ th_lost rested))"
proof -
  have "\<not> th_stop rested" by (simp add: rested_def)
  then show ?thesis using workers_finish_the_queue [OF rested_reachable] rested_stuck by auto
qed

text \<open>C39: The end of the process loses queued tasks: for every task and any number of workers there is a
  run in which the task was pushed, the scheduler has ended and all workers are gone, and the task is
  still in the queue, which is then destroyed. (The scheduler sets the flag \<open>stop\<close> right after it
  stopped the queue, and the workers test the flag before they take a task.)\<close>

theorem shutdown_loses_queued_tasks:
  "\<exists>s. reachable n s \<and> th_stop s \<and> set (th_workers s) \<subseteq> {Gone} \<and> th_pushed s = [origin t] \<and>
     fst (th_queue s) = [origin t] \<and> th_done s = [] \<and> \<not> (\<exists>s'. worker_step s s')"
proof -
  let ?t = "origin t"
  let ?s1 = "(threads_start n)\<lparr>th_queue := ([?t], False), th_pushed := [?t]\<rparr>"
  let ?s2 = "?s1\<lparr>th_queue := ([?t], True)\<rparr>"
  let ?s3 = "?s2\<lparr>th_stop := True\<rparr>"
  let ?s4 = "?s3\<lparr>th_workers := replicate n Gone\<rparr>"
  have r1: "reachable n ?s1"
    using reach_push [OF reachable.start, of n "[]" ?t] by (simp add: threads_start_def origin_def)
  have "scheduler_step ?s1 ?s2" using scheduler_step.stop_queue [of ?s1] by simp
  then have r2: "reachable n ?s2" using reachable.step [OF r1] by (simp add: thread_step_def)
  have "scheduler_step ?s2 ?s3" using scheduler_step.set_flag [of ?s2] by simp
  then have r3: "reachable n ?s3" using reachable.step [OF r2] by (simp add: thread_step_def)
  have r4: "reachable n ?s4" using all_leave [OF r3, of n] by (simp add: threads_start_def)
  have stuck: "\<not> worker_step ?s4 s'" for s'
  proof
    assume "worker_step ?s4 s'"
    then show False by (cases rule: worker_step.cases) (auto simp: is_at_def)
  qed
  show ?thesis using r4 stuck by (intro exI [of _ ?s4]) (auto simp: threads_start_def)
qed

text \<open>C40: Two workers do not keep the order of the tasks of one path: for any two tasks, also a DELETE and a
  later CREATE of the same path, there is a run in which the second is done before the first.\<close>

theorem workers_may_reorder:
  "\<exists>s. reachable 2 s \<and> th_pushed s = [origin d, origin c] \<and> th_done s = [origin c, origin d]"
proof -
  let ?d = "origin d" and ?c = "origin c"
  let ?W = "\<lambda>ws q dn tr. \<lparr>th_queue = (q, False), th_stop = False, th_workers = ws, th_pushed = [?d, ?c],
    th_done = dn, th_failed = [], th_lost = [], th_tried = tr, th_oom = 0\<rparr>"
  have go_list: "go i x (?W ws q dn tr) = ?W (ws[i := x]) q dn tr" for i x ws q dn tr by (simp add: go_def)
  have r: "reachable 2 (?W [Testing, Testing] [?d, ?c] [] [])"
    using reach_push [OF reach_push [OF reachable.start, of 2 "[]" ?d], of "[?d]" ?c]
    by (simp add: threads_start_def origin_def numeral_2_eq_2)
  have "worker_step (?W [Testing, Testing] [?d, ?c] [] []) (?W [Popping, Testing] [?d, ?c] [] [])"
    using worker_step.enter [of "?W [Testing, Testing] [?d, ?c] [] []" 0] by (simp add: go_list is_at_def)
  from reach_worker [OF r this] have r: "reachable 2 (?W [Popping, Testing] [?d, ?c] [] [])" .
  have "worker_step (?W [Popping, Testing] [?d, ?c] [] []) (?W [Popping, Popping] [?d, ?c] [] [])"
    using worker_step.enter [of "?W [Popping, Testing] [?d, ?c] [] []" 1] by (simp add: go_list is_at_def)
  from reach_worker [OF r this] have r: "reachable 2 (?W [Popping, Popping] [?d, ?c] [] [])" .
  have "worker_step (?W [Popping, Popping] [?d, ?c] [] []) (?W [Working ?d, Popping] [?c] [] [?d])"
    using worker_step.pop [of "?W [Popping, Popping] [?d, ?c] [] []" 0 ?d "([?c], False)"]
    by (simp add: go_list is_at_def)
  from reach_worker [OF r this] have r: "reachable 2 (?W [Working ?d, Popping] [?c] [] [?d])" .
  have "worker_step (?W [Working ?d, Popping] [?c] [] [?d]) (?W [Working ?d, Working ?c] [] [] [?d, ?c])"
    using worker_step.pop [of "?W [Working ?d, Popping] [?c] [] [?d]" 1 ?c "([], False)"]
    by (simp add: go_list is_at_def)
  from reach_worker [OF r this] have r: "reachable 2 (?W [Working ?d, Working ?c] [] [] [?d, ?c])" .
  have "worker_step (?W [Working ?d, Working ?c] [] [] [?d, ?c]) (?W [Working ?d, Testing] [] [?c] [?d, ?c])"
    using worker_step.success [of "?W [Working ?d, Working ?c] [] [] [?d, ?c]" 1 ?c] by (simp add: go_list is_at_def)
  from reach_worker [OF r this] have r: "reachable 2 (?W [Working ?d, Testing] [] [?c] [?d, ?c])" .
  have "worker_step (?W [Working ?d, Testing] [] [?c] [?d, ?c]) (?W [Testing, Testing] [] [?c, ?d] [?d, ?c])"
    using worker_step.success [of "?W [Working ?d, Testing] [] [?c] [?d, ?c]" 0 ?d] by (simp add: go_list is_at_def)
  from reach_worker [OF r this] show ?thesis by (intro exI [of _ "?W [Testing, Testing] [] [?c, ?d] [?d, ?c]"]) simp
qed

end
