(* ===== verification/Startup.thy ===== *)
theory Startup
  imports Server Tasks Logger
begin

text \<open>
  \<^verbatim>\<open>src/client_main.c\<close> and \<^verbatim>\<open>src/server_main.c\<close>: the defaults, the command lines, the checks of the
  configuration, the directories made at the start, and what the client's main process sends when it
  stops. An argument vector is the list of its strings, without the program's name.
\<close>

section \<open>Numbers in arguments\<close>

definition is_space :: "char \<Rightarrow> bool" where
  "is_space c \<longleftrightarrow> c = CHR '' '' \<or> (9 \<le> (of_char c :: nat) \<and> (of_char c :: nat) \<le> 13)"

text \<open>\<^verbatim>\<open>strtoll(s, NULL, 10)\<close>: the value is held within 64 bits.\<close>

definition clamp64 :: "int \<Rightarrow> int" where
  "clamp64 n = max (- (2 ^ 63)) (min (2 ^ 63 - 1) n)"

definition strtoll :: "string \<Rightarrow> int" where
  "strtoll s =
     (let t = dropWhile is_space s in
      case t of
        [] \<Rightarrow> 0
      | c # r \<Rightarrow>
          if c = CHR ''-'' then clamp64 (- int (dec_val (takeWhile is_digit r)))
          else if c = CHR ''+'' then clamp64 (int (dec_val (takeWhile is_digit r)))
          else clamp64 (int (dec_val (takeWhile is_digit t))))"

text \<open>\<^verbatim>\<open>atoll\<close>, and \<^verbatim>\<open>atoi\<close>, which cuts the value to 32 bits.\<close>

definition atoll :: "string \<Rightarrow> int" where
  "atoll s = strtoll s"

definition atoi :: "string \<Rightarrow> int" where
  "atoi s = sint (word_of_int (strtoll s) :: 32 word)"

section \<open>The client's command line\<close>

definition init_default_config :: client_config where
  "init_default_config = \<lparr>cc_mode = 0, cc_src_root = [], cc_dst_root = [],
     cc_server_ip = ''127.0.0.1'', cc_port = 9000, cc_thread_count = 4, cc_block_size = 4096,
     cc_debounce_ms = 1500, cc_hash_threshold = 10485760, cc_log_path = ''./logs/client.log''\<rparr>"

text \<open>A string option: refused when it does not fit its buffer.\<close>

definition fitting :: "nat \<Rightarrow> string \<Rightarrow> 'c \<Rightarrow> 'c option" where
  "fitting sz value c = (if snd (snprintf_s sz value) \<ge> sz then None else Some c)"

text \<open>What an option does with its value; \<open>None\<close> for an unknown option.\<close>

definition client_option :: "string \<Rightarrow> (string \<Rightarrow> client_config \<Rightarrow> client_config option) option" where
  "client_option arg =
     (if arg = ''--mode'' then Some (\<lambda>v c.
        if v = ''local'' then Some (c\<lparr>cc_mode := MODE_LOCAL\<rparr>)
        else if v = ''remote'' then Some (c\<lparr>cc_mode := MODE_REMOTE\<rparr>) else None)
      else if arg = ''--src'' then Some (\<lambda>v c. fitting MAX_PATH_LEN v (c\<lparr>cc_src_root := v\<rparr>))
      else if arg = ''--dst'' then Some (\<lambda>v c. fitting MAX_PATH_LEN v (c\<lparr>cc_dst_root := v\<rparr>))
      else if arg = ''--server'' then Some (\<lambda>v c. fitting 64 v (c\<lparr>cc_server_ip := v\<rparr>))
      else if arg = ''--port'' then Some (\<lambda>v c. Some (c\<lparr>cc_port := atoi v\<rparr>))
      else if arg = ''--threads'' then Some (\<lambda>v c. Some (c\<lparr>cc_thread_count := atoi v\<rparr>))
      else if arg = ''--block-size'' then Some (\<lambda>v c. Some (c\<lparr>cc_block_size := atoi v\<rparr>))
      else if arg = ''--hash-threshold'' then Some (\<lambda>v c. Some (c\<lparr>cc_hash_threshold := atoll v\<rparr>))
      else if arg = ''--debounce-ms'' then Some (\<lambda>v c. Some (c\<lparr>cc_debounce_ms := atoi v\<rparr>))
      else if arg = ''--log'' then Some (\<lambda>v c. fitting MAX_PATH_LEN v (c\<lparr>cc_log_path := v\<rparr>))
      else None)"

text \<open>The loop over the arguments: \<open>Inl 1\<close> for help, \<open>Inl (- 1)\<close> for an error.\<close>

fun parse_options ::
  "(string \<Rightarrow> (string \<Rightarrow> 'c \<Rightarrow> 'c option) option) \<Rightarrow> string list \<Rightarrow> 'c \<Rightarrow> int + 'c" where
  "parse_options opt [] c = Inr c"
| "parse_options opt (arg # args) c =
     (if arg = ''--help'' then Inl 1
      else case opt arg of
        None \<Rightarrow> Inl (- 1)
      | Some f \<Rightarrow>
          (case args of
             [] \<Rightarrow> Inl (- 1)
           | v # rest \<Rightarrow> (case f v c of None \<Rightarrow> Inl (- 1) | Some c' \<Rightarrow> parse_options opt rest c')))"

definition client_config_ok :: "client_config \<Rightarrow> bool" where
  "client_config_ok c \<longleftrightarrow> (cc_mode c = MODE_LOCAL \<or> cc_mode c = MODE_REMOTE) \<and> cc_src_root c \<noteq> [] \<and>
     \<not> (cc_mode c = MODE_LOCAL \<and> cc_dst_root c = []) \<and>
     \<not> (cc_mode c = MODE_REMOTE \<and> (cc_server_ip c = [] \<or> cc_port c \<le> 0)) \<and>
     \<not> (cc_thread_count c \<le> 0 \<or> cc_block_size c \<le> 0 \<or> cc_debounce_ms c \<le> 0 \<or> cc_hash_threshold c \<le> 0)"

definition parse_client_args :: "string list \<Rightarrow> int + client_config" where
  "parse_client_args args =
     (case parse_options client_option args init_default_config of
        Inl r \<Rightarrow> Inl r
      | Inr c \<Rightarrow> if client_config_ok c then Inr c else Inl (- 1))"

section \<open>The client's main process\<close>

definition send_exit_task :: "int \<Rightarrow> unit prog" where
  "send_exit_task event_fd = do {
     _ \<leftarrow> write_full event_fd (task_bytes (init_sync_task\<lparr>t_event_type := EVENT_EXIT\<rparr>));
     ret ()
   }"

text \<open>Up to the pipes: an exit status, or the configuration the processes are started with.\<close>

definition client_prepare :: "string list \<Rightarrow> (int + client_config) prog" where
  "client_prepare args =
     (case parse_client_args args of
        Inl r \<Rightarrow> ret (Inl (if r > 0 then 0 else 1))
      | Inr config \<Rightarrow> do {
          a \<leftarrow> ensure_dir_exists (cc_src_root config);
          if a < 0 then ret (Inl 1)
          else do {
            b \<leftarrow> ensure_parent_dir_exists (cc_log_path config);
            if b < 0 then ret (Inl 1)
            else if cc_mode config = MODE_LOCAL then do {
              c \<leftarrow> ensure_dir_exists (cc_dst_root config);
              ret (if c < 0 then Inl 1 else Inr config)
            }
            else ret (Inr config)
          }
        })"

text \<open>What the main process logs once the three children run.\<close>

definition client_started :: "client_config \<Rightarrow> int \<Rightarrow> unit prog" where
  "client_started config log_fd =
     log_message log_fd LOG_INFO (''main: MiniSync client started mode='' @
       (if cc_mode config = MODE_LOCAL then ''local'' else ''remote'') @ '' src='' @ cc_src_root config)"

text \<open>
  The children write to the log pipe as well, whole records each time: a record is shorter than
  \<^verbatim>\<open>PIPE_BUF\<close>, so that records of different processes do not mix. What they write is an input: the
  records that get into the pipe before the first line of the main process, while it waits for a
  signal, until the monitor has ended and until the transfer process has ended. \<^verbatim>\<open>waitpid\<close> returns when
  the child has ended, and a child that has ended writes nothing any more; \<^verbatim>\<open>signal\<close> of the C library
  installs handlers that make the call start again, so that a signal does not cut it short.
\<close>

record child_lines =
  cl_before :: "log_msg list"
  cl_running :: "log_msg list"
  cl_monitor :: "log_msg list"
  cl_transfer :: "log_msg list"

definition children_write :: "int \<Rightarrow> log_msg list \<Rightarrow> unit prog" where
  "children_write log_fd ms =
     State (\<lambda>w. ((), w\<lparr>w_tx := (w_tx w)(log_fd := w_tx w log_fd @ concat (map log_bytes ms))\<rparr>))"

definition sys_waitpid :: "int \<Rightarrow> log_msg list \<Rightarrow> unit prog" where
  "sys_waitpid log_fd until_it_ends = children_write log_fd until_it_ends"

definition sys_kill :: "int \<Rightarrow> (errno + unit) prog" where
  "sys_kill pid = syscall (\<lambda>w. (Inr (), w))"

text \<open>What the main process does after the loop that waits for a signal or the end of a child.\<close>

definition client_stop :: "int \<Rightarrow> int \<Rightarrow> int \<Rightarrow> child_lines \<Rightarrow> unit prog" where
  "client_stop event_fd log_fd monitor_pid children = do {
     _ \<leftarrow> log_message log_fd LOG_INFO ''main: stopping client'';
     _ \<leftarrow> send_exit_task event_fd;
     _ \<leftarrow> sys_kill monitor_pid;
     _ \<leftarrow> sys_waitpid log_fd (cl_monitor children);
     _ \<leftarrow> sys_waitpid log_fd (cl_transfer children);
     log_message log_fd LOG_EXIT ''main: logger exit''
   }"

text \<open>
  The whole main process. The pipes have the writing ends \<open>event_fd\<close> and \<open>log_fd\<close>; a child is a
  process of its own with a world of its own, here only its number and its log records count. The signals are inputs:
  \<open>stopped\<close> tells whether one came before the loop, and each round of the loop has a flag for a signal
  during the round and the result of \<^verbatim>\<open>waitpid\<close> with \<^verbatim>\<open>WNOHANG\<close>. \<open>None\<close> means that the process still
  waits when the rounds are used up.
\<close>

definition sys_pipe :: "(errno + unit) prog" where
  "sys_pipe = syscall (\<lambda>w. (Inr (), w))"

definition sys_fork :: "int \<Rightarrow> (errno + int) prog" where
  "sys_fork pid = syscall (\<lambda>w. (Inr pid, w))"

fun wait_for_stop :: "int \<Rightarrow> int \<Rightarrow> (bool \<times> int) list \<Rightarrow> bool prog" where
  "wait_for_stop monitor_pid transfer_pid [] = ret False"
| "wait_for_stop monitor_pid transfer_pid ((signalled, done) # rounds) = do {
     _ \<leftarrow> sleep_ms 200;
     if signalled \<or> done = monitor_pid \<or> done = transfer_pid then ret True
     else wait_for_stop monitor_pid transfer_pid rounds
   }"

definition client_children :: "int \<times> int \<times> int \<Rightarrow> bool prog" where
  "client_children pids = do {
     l \<leftarrow> sys_fork (fst pids);
     if isl l then ret False
     else do {
       m \<leftarrow> sys_fork (fst (snd pids));
       if isl m then ret False
       else do {
         t \<leftarrow> sys_fork (snd (snd pids));
         ret (\<not> isl t)
       }
     }
   }"

definition client_pipes :: "bool prog" where
  "client_pipes = do {
     e \<leftarrow> sys_pipe;
     if isl e then ret False
     else do {
       l \<leftarrow> sys_pipe;
       ret (\<not> isl l)
     }
   }"

definition client_main ::
  "string list \<Rightarrow> int \<Rightarrow> int \<Rightarrow> int \<times> int \<times> int \<Rightarrow> bool \<Rightarrow> (bool \<times> int) list \<Rightarrow> child_lines \<Rightarrow> int option prog" where
  "client_main args event_fd log_fd pids stopped rounds children = do {
     r \<leftarrow> client_prepare args;
     (case r of
        Inl rc \<Rightarrow> ret (Some rc)
      | Inr config \<Rightarrow> do {
          p \<leftarrow> client_pipes;
          if \<not> p then ret (Some 1)
          else do {
            c \<leftarrow> client_children pids;
            if \<not> c then ret (Some 1)
            else do {
              _ \<leftarrow> children_write log_fd (cl_before children);
              _ \<leftarrow> client_started config log_fd;
              _ \<leftarrow> children_write log_fd (cl_running children);
              s \<leftarrow> (if stopped then ret True else wait_for_stop (fst (snd pids)) (snd (snd pids)) rounds);
              if \<not> s then ret None
              else do {
                _ \<leftarrow> client_stop event_fd log_fd (fst (snd pids)) children;
                ret (Some 0)
              }
            }
          }
        })
   }"

section \<open>The server's command line\<close>

definition init_default_server_config :: server_config where
  "init_default_server_config =
     \<lparr>sc_port = 9000, sc_root = ''./server_backup'', sc_log_path = ''./logs/server.log''\<rparr>"

definition server_option :: "string \<Rightarrow> (string \<Rightarrow> server_config \<Rightarrow> server_config option) option" where
  "server_option arg =
     (if arg = ''--port'' then Some (\<lambda>v c. Some (c\<lparr>sc_port := atoi v\<rparr>))
      else if arg = ''--root'' then Some (\<lambda>v c. fitting MAX_PATH_LEN v (c\<lparr>sc_root := v\<rparr>))
      else if arg = ''--log'' then Some (\<lambda>v c. fitting MAX_PATH_LEN v (c\<lparr>sc_log_path := v\<rparr>))
      else None)"

definition parse_server_args :: "string list \<Rightarrow> int + server_config" where
  "parse_server_args args =
     (case parse_options server_option args init_default_server_config of
        Inl r \<Rightarrow> Inl r
      | Inr c \<Rightarrow> if sc_port c \<le> 0 \<or> sc_root c = [] \<or> sc_log_path c = [] then Inl (- 1) else Inr c)"

text \<open>The whole program; \<open>clients\<close> are the results of \<^verbatim>\<open>accept\<close>, as for \<open>run_server\<close>.\<close>

definition server_main :: "string list \<Rightarrow> int \<Rightarrow> (errno + int) list \<Rightarrow> int option prog" where
  "server_main args sock clients =
     (case parse_server_args args of
        Inl r \<Rightarrow> ret (Some (if r > 0 then 0 else 1))
      | Inr config \<Rightarrow> do {
          a \<leftarrow> ensure_dir_exists (sc_root config);
          if a < 0 then ret (Some 1)
          else do {
            b \<leftarrow> ensure_parent_dir_exists (sc_log_path config);
            if b < 0 then ret (Some 1)
            else do {
              r \<leftarrow> run_server config sock clients;
              ret (map_option (\<lambda>rc. if rc = 0 then 0 else 1) r)
            }
          }
        })"

end
