(* ===== verification/StartupProperties.thy ===== *)
theory StartupProperties
  imports Startup Samples
begin

text \<open>
  Properties of the command lines of client and server, of the end of the client, and of the way of
  log messages to the log file.
\<close>

section \<open>Numbers\<close>

lemma digit_not_space: "is_digit c \<Longrightarrow> \<not> is_space c \<and> c \<noteq> CHR ''-'' \<and> c \<noteq> CHR ''+''"
  by (auto simp: is_digit_def is_space_def)

lemma takeWhile_digits: "list_all is_digit s \<Longrightarrow> takeWhile is_digit s = s"
  by (simp add: takeWhile_eq_all_conv list_all_iff)

lemma strtoll_show: "- (2 ^ 63) \<le> n \<Longrightarrow> n < 2 ^ 63 \<Longrightarrow> strtoll (show_int n) = n"
proof -
  assume r: "- (2 ^ 63) \<le> n" "n < 2 ^ 63"
  have d: "dec k \<noteq> []" "list_all is_digit (dec k)" "dec_val (dec k) = k" for k using dec_digits [of k] by auto
  show ?thesis
  proof (cases "n < 0")
    case True
    have "\<not> is_space (CHR ''-'')" by (simp add: is_space_def)
    then have "strtoll (show_int n) = clamp64 n"
      using True d by (simp add: show_int_def strtoll_def takeWhile_digits)
    then show ?thesis using r by (simp add: clamp64_def)
  next
    case False
    obtain c s where c: "dec (nat n) = c # s" using d(1) by (cases "dec (nat n)") auto
    then have "is_digit c" using d(2) [of "nat n"] by simp
    from digit_not_space [OF this] have "strtoll (show_int n) = clamp64 (int (dec_val (dec (nat n))))"
      using False c d(2) [of "nat n"] by (simp add: show_int_def strtoll_def takeWhile_digits)
    then show ?thesis using False r d(3) by (simp add: clamp64_def)
  qed
qed

lemma atoi_show: "- (2 ^ 31) \<le> n \<Longrightarrow> n < 2 ^ 31 \<Longrightarrow> atoi (show_int n) = n"
proof -
  assume r: "- (2 ^ 31) \<le> n" "n < 2 ^ 31"
  then have "sint (word_of_int n :: 32 word) = n"
    by (simp add: signed_of_int signed_take_bit_int_eq_self)
  then show ?thesis using r by (simp add: atoi_def strtoll_show)
qed

lemma atoi_range: "- (2 ^ 31) \<le> atoi s \<and> atoi s < 2 ^ 31"
  using sint_ge [of "word_of_int (strtoll s) :: 32 word"] sint_lt [of "word_of_int (strtoll s) :: 32 word"]
  by (simp add: atoi_def)

lemma atoll_range: "- (2 ^ 63) \<le> atoll s \<and> atoll s < 2 ^ 63"
  by (auto simp: atoll_def strtoll_def clamp64_def Let_def split: list.splits)

section \<open>Options\<close>

lemma parse_options_inv:
  assumes "\<And>arg f v c c'. opt arg = Some f \<Longrightarrow> P c \<Longrightarrow> f v c = Some c' \<Longrightarrow> P c'"
  shows "parse_options opt args c = Inr c' \<Longrightarrow> P c \<Longrightarrow> P c'"
  using assms
proof (induction opt args c rule: parse_options.induct)
  case (2 opt arg args c)
  from "2.prems"(1) obtain f v rest c1 where o: "opt arg = Some f" "args = v # rest" "f v c = Some c1"
    and p: "parse_options opt rest c1 = Inr c'" and h: "arg \<noteq> ''--help''"
    by (auto split: if_splits option.splits list.splits)
  have "P c1" using o "2.prems" by metis
  then show ?case using "2.IH" [OF h o(1,2) o(3) p] "2.prems"(3) by metis
next
  case (1 opt c)
  then have "c' = c" by (simp only: parse_options.simps sum.inject)
  then show ?case using 1(2) by (simp only:)
qed

lemma parse_options_step:
  "opt arg = Some f \<Longrightarrow> arg \<noteq> ''--help'' \<Longrightarrow> f v c = Some c' \<Longrightarrow>
   parse_options opt (arg # v # args) c = parse_options opt args c'"
  by simp

definition int32 :: "int \<Rightarrow> bool" where
  "int32 n \<longleftrightarrow> - (2 ^ 31) \<le> n \<and> n < 2 ^ 31"

text \<open>What the fields of the C struct can hold.\<close>

definition config_fits :: "client_config \<Rightarrow> bool" where
  "config_fits c \<longleftrightarrow> length (cc_src_root c) < MAX_PATH_LEN \<and> length (cc_dst_root c) < MAX_PATH_LEN \<and>
     length (cc_server_ip c) < 64 \<and> length (cc_log_path c) < MAX_PATH_LEN \<and> int32 (cc_port c) \<and>
     int32 (cc_thread_count c) \<and> int32 (cc_block_size c) \<and> int32 (cc_debounce_ms c) \<and>
     - (2 ^ 63) \<le> cc_hash_threshold c \<and> cc_hash_threshold c < 2 ^ 63"

lemma client_option_fits:
  assumes "client_option arg = Some f" and "config_fits c" and "f v c = Some c'"
  shows "config_fits c'"
  using assms atoi_range [of v] atoll_range [of v]
  by (auto simp: client_option_def config_fits_def fitting_def snprintf_s_def int32_def split: if_splits)

definition client_args :: "client_config \<Rightarrow> string list" where
  "client_args c =
     [''--mode'', (if cc_mode c = MODE_LOCAL then ''local'' else ''remote''), ''--src'', cc_src_root c,
      ''--dst'', cc_dst_root c, ''--server'', cc_server_ip c, ''--port'', show_int (cc_port c),
      ''--threads'', show_int (cc_thread_count c), ''--block-size'', show_int (cc_block_size c),
      ''--hash-threshold'', show_int (cc_hash_threshold c), ''--debounce-ms'', show_int (cc_debounce_ms c),
      ''--log'', cc_log_path c]"

lemma client_options:
  "client_option ''--mode'' = Some (\<lambda>v c. if v = ''local'' then Some (c\<lparr>cc_mode := MODE_LOCAL\<rparr>)
     else if v = ''remote'' then Some (c\<lparr>cc_mode := MODE_REMOTE\<rparr>) else None)"
  "client_option ''--src'' = Some (\<lambda>v c. fitting MAX_PATH_LEN v (c\<lparr>cc_src_root := v\<rparr>))"
  "client_option ''--dst'' = Some (\<lambda>v c. fitting MAX_PATH_LEN v (c\<lparr>cc_dst_root := v\<rparr>))"
  "client_option ''--server'' = Some (\<lambda>v c. fitting 64 v (c\<lparr>cc_server_ip := v\<rparr>))"
  "client_option ''--port'' = Some (\<lambda>v c. Some (c\<lparr>cc_port := atoi v\<rparr>))"
  "client_option ''--threads'' = Some (\<lambda>v c. Some (c\<lparr>cc_thread_count := atoi v\<rparr>))"
  "client_option ''--block-size'' = Some (\<lambda>v c. Some (c\<lparr>cc_block_size := atoi v\<rparr>))"
  "client_option ''--hash-threshold'' = Some (\<lambda>v c. Some (c\<lparr>cc_hash_threshold := atoll v\<rparr>))"
  "client_option ''--debounce-ms'' = Some (\<lambda>v c. Some (c\<lparr>cc_debounce_ms := atoi v\<rparr>))"
  "client_option ''--log'' = Some (\<lambda>v c. fitting MAX_PATH_LEN v (c\<lparr>cc_log_path := v\<rparr>))"
  by (simp_all add: client_option_def)

section \<open>Properties\<close>

text \<open>C30: A command line that is accepted gives a configuration within explicit ranges: the mode is local,
  with a destination directory, or remote, with a server address and a positive port; there is a source
  directory; threads, block size, debouncing delay and hash threshold are at least one; every number is
  in the range of its C type and every string is shorter than its buffer.\<close>

theorem client_args_sound:
  assumes "parse_client_args args = Inr c"
  shows "(cc_mode c = 1 \<and> 1 \<le> length (cc_dst_root c) \<or>
      cc_mode c = 2 \<and> 1 \<le> length (cc_server_ip c) \<and> 1 \<le> cc_port c) \<and>
    1 \<le> length (cc_src_root c) \<and> length (cc_src_root c) < 512 \<and> length (cc_dst_root c) < 512 \<and>
    length (cc_server_ip c) < 64 \<and> length (cc_log_path c) < 512 \<and>
    - (2 ^ 31) \<le> cc_port c \<and> cc_port c < 2 ^ 31 \<and> 1 \<le> cc_thread_count c \<and> cc_thread_count c < 2 ^ 31 \<and>
    1 \<le> cc_block_size c \<and> cc_block_size c < 2 ^ 31 \<and> 1 \<le> cc_debounce_ms c \<and> cc_debounce_ms c < 2 ^ 31 \<and>
    1 \<le> cc_hash_threshold c \<and> cc_hash_threshold c < 2 ^ 63"
proof -
  have "parse_options client_option args init_default_config = Inr c" and ok: "client_config_ok c"
    using assms by (auto simp: parse_client_args_def split: sum.splits if_splits)
  moreover have "config_fits init_default_config"
    by (simp add: config_fits_def init_default_config_def int32_def)
  ultimately have "config_fits c"
    using parse_options_inv [of client_option config_fits] client_option_fits by blast
  then show ?thesis using ok
    by (auto simp: client_config_ok_def config_fits_def int32_def Suc_le_eq)
qed

lemma client_args_sound_witness:
  "\<exists>c. parse_client_args [''--mode'', ''local'', ''--src'', ''a'', ''--dst'', ''b'', ''--port'', '' +7x''] = Inr c \<and>
    1 \<le> cc_thread_count c \<and> length (cc_log_path c) < 512 \<and> cc_port c < 2 ^ 31"
proof -
  have run: "parse_client_args [''--mode'', ''local'', ''--src'', ''a'', ''--dst'', ''b'', ''--port'', '' +7x''] =
    Inr (init_default_config\<lparr>cc_mode := 1, cc_src_root := ''a'', cc_dst_root := ''b'', cc_port := 7\<rparr>)"
    by code_simp
  with client_args_sound [OF run] show ?thesis by blast
qed

text \<open>C29: Every usable configuration has a command line: the options written out from its fields are read
  back as exactly that configuration.\<close>

theorem client_args_roundtrip:
  assumes "client_config_ok c" and "config_fits c"
  shows "parse_client_args (client_args c) = Inr c"
proof -
  have m: "cc_mode c = 1 \<or> cc_mode c = 2" using assms(1) by (simp add: client_config_ok_def)
  have f: "fitting MAX_PATH_LEN (cc_src_root c) x = Some x" "fitting MAX_PATH_LEN (cc_dst_root c) x = Some x"
    "fitting 64 (cc_server_ip c) x = Some x" "fitting MAX_PATH_LEN (cc_log_path c) x = Some x"
    for x :: client_config
    using assms(2) by (simp_all add: config_fits_def fitting_def snprintf_s_def)
  have n: "atoi (show_int (cc_port c)) = cc_port c" "atoi (show_int (cc_thread_count c)) = cc_thread_count c"
    "atoi (show_int (cc_block_size c)) = cc_block_size c" "atoi (show_int (cc_debounce_ms c)) = cc_debounce_ms c"
    "atoll (show_int (cc_hash_threshold c)) = cc_hash_threshold c"
    using assms(2) by (auto simp: config_fits_def int32_def atoi_show atoll_def strtoll_show)
  have "parse_options client_option (client_args c) init_default_config = Inr c"
    using m by (auto simp: client_args_def client_options f n init_default_config_def)
  then show ?thesis using assms(1) by (simp add: parse_client_args_def)
qed

lemma client_args_roundtrip_witness:
  "parse_client_args (client_args (init_default_config\<lparr>cc_mode := 2, cc_src_root := ''a''\<rparr>)) =
    Inr (init_default_config\<lparr>cc_mode := 2, cc_src_root := ''a''\<rparr>)"
  by (rule client_args_roundtrip)
    (simp_all add: client_config_ok_def config_fits_def init_default_config_def int32_def)

section \<open>The end of the client\<close>

definition exit_task :: sync_task where
  "exit_task = init_sync_task\<lparr>t_event_type := EVENT_EXIT\<rparr>"

lemma talks_tx: "run_state (log_message fd l m) w = (r, w') \<Longrightarrow> fd' \<noteq> fd \<Longrightarrow> w_tx w' fd' = w_tx w fd'"
  using talks_simps(9) [OF tkr.runD [OF log_message_talks]] by blast

lemma log_message_sent:
  assumes "run_state (log_message fd l m) w = (r, w')" and "retryable w" and "0 \<le> fd"
  shows "w_tx w' fd = w_tx w fd @ log_bytes (log_record w l m)" and "retryable w'"
    and "log_record w' = log_record w"
  using log_message_sends [OF assms(2,3), of l m] assms(1)
    retryable_talks [OF assms(2) tkr.runD [OF log_message_talks assms(1)]]
    talks_simps [OF tkr.runD [OF log_message_talks assms(1)]]
  by (auto simp: log_record_def fun_eq_iff)

text \<open>What the main process writes: the EXIT task to the event pipe, two records to the log pipe, and
  between them what the children still have to say.\<close>

abbreviation last_lines :: "child_lines \<Rightarrow> log_msg list" where
  "last_lines ch \<equiv> cl_monitor ch @ cl_transfer ch"

lemma kill_quiet: "state_io_rel quiet (sys_kill pid)"
  unfolding sys_kill_def by (intro qr.syscall) (simp add: quiet_refl)

lemma client_stop_writes:
  assumes "run_state (client_stop efd lfd mpid ch) w = (u, w')" and "retryable w" and "0 \<le> lfd" and "lfd \<noteq> efd"
  shows "w_tx w' efd = w_tx w efd @ task_bytes exit_task \<and>
    w_tx w' lfd = w_tx w lfd @ log_bytes (log_record w LOG_INFO ''main: stopping client'') @
      concat (map log_bytes (last_lines ch)) @ log_bytes (log_record w LOG_EXIT ''main: logger exit'')"
proof -
  obtain r1 w1 where l1: "run_state (log_message lfd LOG_INFO ''main: stopping client'') w = (r1, w1)"
    by (rule prod.exhaust)
  obtain r2 w2 where e: "run_state (write_full efd (task_bytes exit_task)) w1 = (r2, w2)" by (rule prod.exhaust)
  obtain r3 w3 where k: "run_state (sys_kill mpid) w2 = (r3, w3)" by (rule prod.exhaust)
  let ?w4 = "w3\<lparr>w_tx := (w_tx w3)(lfd := w_tx w3 lfd @ concat (map log_bytes (last_lines ch)))\<rparr>"
  have l4: "run_state (log_message lfd LOG_EXIT ''main: logger exit'') ?w4 = (u, w')"
    using assms(1) l1 e k
    by (simp add: client_stop_def send_exit_task_def exit_task_def sys_waitpid_def children_write_def
        split: prod.splits)
  note s1 = log_message_sent [OF l1 assms(2,3)]
  note t2 = tkr.runD [OF write_full_talks e] and q3 = qr.runD [OF kill_quiet k]
  have s2: "w_tx w2 efd = w_tx w1 efd @ task_bytes exit_task" using write_full_result(4) [OF e s1(2)] by blast
  have r2: "retryable w2" by (rule retryable_talks [OF s1(2) t2])
  then have r4: "retryable ?w4" using q3 unfolding retryable_def quiet_def by (force dest: in_set_dropD)
  have "w_pid w3 = w_pid w2" using q3 by (auto simp: quiet_def)
  then have rec: "log_record ?w4 = log_record w"
    using s1(3) talks_simps [OF t2] by (simp add: log_record_def fun_eq_iff)
  note s4 = log_message_sent(1) [OF l4 r4 assms(3), unfolded rec]
  show ?thesis
    using s1(1) s2 s4 talks_tx [OF l1 assms(4) [symmetric]] talks_tx [OF l4 assms(4) [symmetric]]
      talks_simps(9) [OF t2 assms(4)] quiet_simps(4) [OF q3] assms(4) by simp
qed

text \<open>A main process that got as far as its children: what it has written when it returns 0.\<close>

lemma wait_for_stop_idle: "state_io_rel idle (wait_for_stop m t rs)"
proof (induction rs)
  case (Cons r rs)
  then show ?case by (cases r) (auto intro!: idr.rules sleep_ms_idle)
qed (simp add: idr.return)

lemma client_prefix_quiet: "state_io_rel quiet client_pipes" "state_io_rel quiet (client_children pids)"
  unfolding client_pipes_def client_children_def sys_pipe_def sys_fork_def
  by (intro qr.rules qr.syscall; simp add: quiet_refl)+

lemma client_main_writes:
  assumes run: "run_state (client_main args efd lfd pids st rs ch) w = (Some 0, w')"
    and prep: "run_state (client_prepare args) w = (Inr cfg, w0)" and re: "retryable w0"
    and fds: "0 \<le> lfd" "lfd \<noteq> efd"
  shows "w_tx w' efd = w_tx w0 efd @ task_bytes exit_task"
    and "w_tx w' lfd = w_tx w0 lfd @ concat (map log_bytes (cl_before ch @
        [log_record w0 LOG_INFO (''main: MiniSync client started mode='' @
          (if cc_mode cfg = MODE_LOCAL then ''local'' else ''remote'') @ '' src='' @ cc_src_root cfg)] @
        cl_running ch @ [log_record w0 LOG_INFO ''main: stopping client''] @ last_lines ch @
        [log_record w0 LOG_EXIT ''main: logger exit'']))"
proof -
  let ?put = "\<lambda>ms v. v\<lparr>w_tx := (w_tx v)(lfd := w_tx v lfd @ concat (map log_bytes ms))\<rparr>"
  obtain p wp where p: "run_state client_pipes w0 = (p, wp)" by (rule prod.exhaust)
  obtain c wc where c: "run_state (client_children pids) wp = (c, wc)" by (rule prod.exhaust)
  obtain u ws where s: "run_state (client_started cfg lfd) (?put (cl_before ch) wc) = (u, ws)" by (rule prod.exhaust)
  let ?wait = "if st then ret True else wait_for_stop (fst (snd pids)) (snd (snd pids)) rs"
  obtain b wb where b: "run_state ?wait (?put (cl_running ch) ws) = (b, wb)" by (rule prod.exhaust)
  have pt: "p" and ct: "c" and bt: "b"
    using run prep p c s b by (auto simp: client_main_def children_write_def split: if_splits prod.splits)
  obtain v where v: "run_state (client_stop efd lfd (fst (snd pids)) ch) wb = (v, w')"
    using run prep p c s b pt ct bt by (auto simp: client_main_def children_write_def split: prod.splits)
  have q: "quiet w0 wc" using qr.runD [OF client_prefix_quiet(1) p] qr.runD [OF client_prefix_quiet(2) c] by (rule quiet_trans)
  note qs = quiet_simps [OF q]
  have "retryable wc" using re q unfolding retryable_def quiet_def by (force dest: in_set_dropD)
  then have rc: "retryable (?put (cl_before ch) wc)" by (simp add: retryable_def)
  note s1 = log_message_sent [OF s [unfolded client_started_def] rc fds(1)]
  have "state_io_rel idle ?wait" by (cases st) (simp_all add: idr.return wait_for_stop_idle)
  then have i: "idle (?put (cl_running ch) ws) wb" using idr.runD b by blast
  have "retryable (?put (cl_running ch) ws)" using s1(2) by (simp add: retryable_def)
  then have rb: "retryable wb" by (rule retryable_talks [OF _ talks_idle [OF i]])
  have eq: "log_record (?put (cl_before ch) wc) = log_record w0" "log_record wb = log_record ws"
    using q i by (auto simp: log_record_def fun_eq_iff quiet_def idle_def)
  note st' = client_stop_writes [OF v rb fds, unfolded eq s1(3)]
  note tx = talks_tx [OF s [unfolded client_started_def] fds(2) [symmetric]]
  show "w_tx w' efd = w_tx w0 efd @ task_bytes exit_task"
    using st' idle_simps(4) [OF i] tx qs(4) fds(2) by simp
  show "w_tx w' lfd = w_tx w0 lfd @ concat (map log_bytes (cl_before ch @
        [log_record w0 LOG_INFO (''main: MiniSync client started mode='' @
          (if cc_mode cfg = MODE_LOCAL then ''local'' else ''remote'') @ '' src='' @ cc_src_root cfg)] @
        cl_running ch @ [log_record w0 LOG_INFO ''main: stopping client''] @ last_lines ch @
        [log_record w0 LOG_EXIT ''main: logger exit'']))"
    using st' s1(1) idle_simps(4) [OF i] qs(4) eq by simp
qed

text \<open>C27: The end of the client loses no log line and ends both pipes. After any records in the log pipe,
  the main process adds its own two; the children, until they have ended, may add any others in between;
  and the last one of all is EXIT, because the main process waits for the monitor and the transfer
  process before it sends it. An EXIT task goes to the event pipe. The logger process that reads the
  pipe then writes one line for each record, those of the children included, in order and to the file
  and the standard output, and stops having read exactly what was sent. (The calls of the main process
  may be interrupted but do not fail for good, and no record but the last one is an EXIT.)\<close>

theorem stop_flushes_the_log:
  assumes "run_state (client_stop efd lfd mpid ch) w = (u, w')" and "retryable w" and "0 \<le> lfd" and "lfd \<noteq> efd"
    and "w_tx w lfd = concat (map log_bytes ms)"
    and "\<forall>m \<in> set (ms @ cl_monitor ch @ cl_transfer ch). log_fits m \<and> lm_level m \<noteq> LOG_EXIT"
    and "w_script wl = []" and "w_rx wl rfd = w_tx w' lfd"
    and "run_state (logger_process rfd log_path) wl = (v, wl')"
  shows "w_tx w' efd = w_tx w efd @ task_bytes exit_task \<and> w_rx wl' rfd = [] \<and>
    w_log wl' = w_log wl @ concat (map (lines_of wl log_path)
      (ms @ [log_record w LOG_INFO ''main: stopping client''] @ cl_monitor ch @ cl_transfer ch @
       [log_record w LOG_EXIT ''main: logger exit'']))"
proof -
  let ?s = "log_record w LOG_INFO ''main: stopping client''" and ?x = "log_record w LOG_EXIT ''main: logger exit''"
  let ?all = "ms @ [?s] @ last_lines ch"
  note wr = client_stop_writes [OF assms(1-4)]
  have rx: "w_rx wl rfd = concat (map log_bytes (?all @ [?x])) @ []" using assms(5,8) wr by simp
  have fits: "log_fits ?s" "log_fits ?x" by (simp_all add: log_record_fits is_cstr_simps)
  have "\<forall>m \<in> set ?all. log_fits m \<and> lm_level m \<noteq> LOG_EXIT" "lm_level ?x = LOG_EXIT"
    using assms(6) fits by (auto simp: log_record_def)
  from logger_loop_until_exit [OF assms(7) rx this(1) fits(2) this(2), of log_path]
  show ?thesis using wr assms(7,9) by (simp add: logger_process_def run_syscall)
qed

definition stopping_world :: world where
  "stopping_world = sample_world\<lparr>w_script := [Short 7, Fail EINTR],
     w_tx := (\<lambda>_. log_bytes (log_record sample_world LOG_INFO ''hi''))\<rparr>"

definition parting_lines :: child_lines where
  "parting_lines = \<lparr>cl_before = [], cl_running = [], cl_monitor = [],
     cl_transfer = [log_record sample_world LOG_INFO ''bye'']\<rparr>"

lemma stop_flushes_the_log_witness:
  "\<exists>w' wl'. run_state (client_stop 8 9 5 parting_lines) stopping_world = ((), w') \<and>
    run_state (logger_process 5 ''l'') (sample_world\<lparr>w_rx := (\<lambda>_. w_tx w' 9)\<rparr>) = ((), wl') \<and>
    w_rx wl' 5 = [] \<and> length (w_log wl') = 8"
proof -
  let ?m = "log_record sample_world LOG_INFO ''hi''"
  obtain w' where run: "run_state (client_stop 8 9 5 parting_lines) stopping_world = ((), w')"
    by (metis old.unit.exhaust prod.exhaust)
  let ?wl = "sample_world\<lparr>w_rx := (\<lambda>_. w_tx w' 9)\<rparr>"
  obtain wl' where lg: "run_state (logger_process 5 ''l'') ?wl = ((), wl')"
    by (metis old.unit.exhaust prod.exhaust)
  have r: "retryable stopping_world" by (simp add: retryable_def stopping_world_def)
  have tx: "w_tx stopping_world 9 = concat (map log_bytes [?m])" by (simp add: stopping_world_def)
  have m: "\<forall>x \<in> set ([?m] @ cl_monitor parting_lines @ cl_transfer parting_lines).
      log_fits x \<and> lm_level x \<noteq> LOG_EXIT"
    unfolding parting_lines_def by (simp add: log_record_fits is_cstr_simps) (simp add: log_record_def)
  have s: "w_script ?wl = []" by (simp add: sample_world_def)
  from stop_flushes_the_log [OF run r _ _ tx m s _ lg] run lg show ?thesis
    by (simp add: lines_of_def sample_world_def parting_lines_def)
qed

end
