(* ===== verification/Mirror.thy ===== *)
theory Mirror
  imports LocalSuccess Workers
begin

text \<open>
  A worker in local mode builds a copy of a tree: when the queue holds tasks for the entries of a tree
  that is not in the backup yet, every file is copied and every directory made, whatever the order in
  which they come.
\<close>

section \<open>Places of entries\<close>

text \<open>Where a task writes a file, and every place it needs, below \<open>current\<close>.\<close>

definition file_places :: "sync_task \<Rightarrow> fkey list" where
  "file_places t = (if t_is_dir t \<noteq> 0 then [] else [plain (t_rel_path t), plain (t_rel_path t @ ''.syncing'')])"

definition entry_places :: "sync_task \<Rightarrow> fkey list" where
  "entry_places t = (if t_is_dir t \<noteq> 0 then [plain (t_rel_path t)] else file_places t)"

definition clear_of :: "sync_task \<Rightarrow> sync_task \<Rightarrow> bool" where
  "clear_of t u \<longleftrightarrow> list_all (\<lambda>a. list_all (\<lambda>b. \<not> prefix a b) (entry_places u)) (file_places t)"

text \<open>Two entries of one tree, no two of which have names \<open>x\<close> and \<open>x.syncing\<close>.\<close>

definition independent :: "sync_task \<Rightarrow> sync_task \<Rightarrow> bool" where
  "independent t u \<longleftrightarrow> clear_of t u \<and> clear_of u t"

definition current_key :: "client_config \<Rightarrow> world \<Rightarrow> fkey" where
  "current_key cfg w = path_key (w_cwd w) (cc_dst_root cfg) @ [''current'']"

abbreviation target :: "client_config \<Rightarrow> sync_task \<Rightarrow> path" where
  "target cfg t \<equiv> current_file (cc_dst_root cfg) (t_rel_path t)"

abbreviation written :: "client_config \<Rightarrow> world \<Rightarrow> sync_task \<Rightarrow> fkey set" where
  "written cfg w t \<equiv> (\<Union>a \<in> set (file_places t). below (current_key cfg w @ a))"

abbreviation way_to :: "client_config \<Rightarrow> world \<Rightarrow> sync_task \<Rightarrow> fkey set" where
  "way_to cfg w t \<equiv> {k. prefix k (current_key cfg w @ plain (t_rel_path t))}"

lemma key_current_any:
  assumes "root \<noteq> []" and "''..'' \<notin> set (split_on slash rel)"
  shows "path_key c (current_file root rel) = path_key c root @ ''current'' # plain rel"
  using assms joined_sub_nonempty [of "''current''" root]
  by (simp add: path_key_joined [of "joined root ''current''"] key_sub)

lemma target_keys:
  assumes "cc_dst_root cfg \<noteq> []" and "sanitize_rel_path (t_rel_path t) = 0"
  shows "pkey w (target cfg t) = current_key cfg w @ plain (t_rel_path t)"
    and "pkey w (target cfg t @ ''.syncing'') = current_key cfg w @ plain (t_rel_path t @ ''.syncing'')"
  using key_current_any [OF assms(1), of _ "w_cwd w"] sanitize_no_dotdot [OF assms(2)]
    dotdot_suffix [OF sanitize_no_dotdot [OF assms(2)]]
  by (simp_all add: pkey_def current_key_def current_syncing [OF assms(2)])

section \<open>Entries\<close>

text \<open>A task for an entry of the source that is not in the backup, with room for it.\<close>

definition entry_ready :: "client_config \<Rightarrow> world \<Rightarrow> sync_task \<Rightarrow> bool" where
  "entry_ready cfg w t \<longleftrightarrow> sanitize_rel_path (t_rel_path t) = 0 \<and> t_event_type t \<noteq> EVENT_DELETE \<and>
     t_event_type t \<noteq> EVENT_RENAME \<and>
     (if t_is_dir t \<noteq> 0
      then length (target cfg t) < MAX_PATH_LEN \<and> ''..'' \<notin> set (split_on slash (target cfg t)) \<and>
        clear_way w (target cfg t)
      else replaceable w (target cfg t) \<and> fs_get (w_fs w) (pkey w (target cfg t)) = None \<and>
        (case fs_find w (t_src_path t) of Inr (Reg b m s) \<Rightarrow> True | _ \<Rightarrow> False) \<and>
        pkey w (t_src_path t) \<notin> backup_area (w_cwd w) (cc_dst_root cfg))"

text \<open>The entry is in the backup as it was in the source of the world \<open>w0\<close>.\<close>

definition entry_done :: "client_config \<Rightarrow> world \<Rightarrow> world \<Rightarrow> sync_task \<Rightarrow> bool" where
  "entry_done cfg w0 w t \<longleftrightarrow>
     (if t_is_dir t \<noteq> 0 then is_dir_node (fs_get (w_fs w) (pkey w0 (target cfg t)))
      else fs_get (w_fs w) (pkey w0 (target cfg t)) =
        Some (Reg (file_bytes w0 (t_src_path t)) (t_mode t AND 0xFFF) (sint (t_mtime t))))"

lemma fs_same_mono: "fs_same c S w w' \<Longrightarrow> S \<subseteq> T \<Longrightarrow> fs_same c T w w'"
  by (auto simp: fs_same_def)

lemma fresh_backup:
  assumes "w_script w = []" and "sanitize_rel_path rel = 0" and rep: "replaceable w (current_file root rel)"
    and none: "fs_get (w_fs w) (pkey w (current_file root rel)) = None"
  shows "run_state (backup_old_version root rel) w = (0, w)"
proof -
  have "join3 root ''current'' rel = Some (current_file root rel)"
    using rep by (intro join3_fits joined_sub_nonempty) (simp_all add: replaceable_def)
  moreover have "fs_find w (current_file root rel) = Inl ENOENT"
    using none file_place_find [of w "current_file root rel"] rep by (simp add: replaceable_def)
  ultimately show ?thesis using assms(1,2) by (simp add: backup_old_version_def sys_access_def run_syscall)
qed

text \<open>A new file: the course of its task and what changes.\<close>

lemma file_entry:
  assumes calm: "calm w" and root: "cc_dst_root cfg \<noteq> []" and ready: "entry_ready cfg w t" and isf: "t_is_dir t = 0"
  obtains w' where "run_state (sync_task_local cfg t lfd wid) w = (0, w')" "calm w'" "entry_done cfg w w' t"
    "fs_confined (w_cwd w) (written cfg w t) w w'"
    "fs_same (w_cwd w) (written cfg w t \<union> way_to cfg w t) w w'"
proof -
  let ?cur = "target cfg t" and ?root = "cc_dst_root cfg" and ?rel = "t_rel_path t" and ?src = "t_src_path t"
  have R: "sanitize_rel_path ?rel = 0" "t_event_type t \<noteq> EVENT_DELETE" "t_event_type t \<noteq> EVENT_RENAME"
    "replaceable w ?cur" "fs_get (w_fs w) (pkey w ?cur) = None"
    "pkey w ?src \<notin> backup_area (w_cwd w) ?root"
    using ready isf by (simp_all add: entry_ready_def)
  obtain s ms ts where src: "fs_find w ?src = Inr (Reg s ms ts)"
    using ready isf by (auto simp: entry_ready_def split: sum.splits node.splits)
  have sc: "w_script w = []" and wf: "fs_wf (w_fs w)" using calm by (simp_all add: calm_def)
  have room: "room_for ?root ?rel w" using calm root R(4,5) by (simp add: room_for_def version_ready_def)
  note tk = target_keys [OF root R(1)]
  obtain w' where run: "run_state (sync_local_file cfg t lfd wid) w = (0, w')"
    using local_file_succeeds [OF room R(1) src R(6)] by blast
  have eq: "sync_task_local cfg t lfd wid = sync_local_file cfg t lfd wid"
    using R(1-3) isf by (simp add: sync_task_local_def sync_task_rest_def)
  have nf: "no_failure w" using sc by (simp add: no_failure_def)
  have "run_state (is_regular_file ?src) w = (True, rest_script w)"
    using is_regular_exact [OF nf src] by simp
  then obtain dst wa b wb h wc wd we m wf' where S: "quiet w wa"
    "local_target_path MAX_PATH_LEN ?root ?rel = Some dst"
    "run_state (backup_old_version ?root ?rel) wa = (b, wb)" "run_state (hash_file_fnv1a ?src) wb = (h, wc)"
    "run_state (copy_file_atomic ?src dst) wc = (0, wd)" "run_state (hash_file_fnv1a dst) wd = (h, we)"
    "run_state (set_file_metadata dst (t_mode t) (sint (t_mtime t))) we = (m, wf')" "talks lfd wf' w'"
    using sync_local_file_steps [OF run] by auto
  have dst: "dst = ?cur" using local_target_Some [OF S(2)] by simp
  have same_calm: "v' = v" if "quiet v v'" "w_script v = []" for v v'
    using that by (auto simp: quiet_def)
  have wa: "wa = w" by (rule same_calm [OF S(1) sc])
  have wb: "wb = w" using S(3) fresh_backup [OF sc R(1,4,5)] wa by simp
  have wc: "wc = w" using same_calm [OF hash_file_world [OF S(4)]] wb sc by simp
  have "pkey w (?cur @ ''.syncing'') \<in> backup_area (w_cwd w) ?root"
    using joined_area [OF _ dotdot_suffix [OF sanitize_no_dotdot [OF R(1)]], of "''current''" "w_cwd w" ?root "[]"]
    by (simp add: current_syncing [OF R(1)] pkey_def)
  then have ne: "pkey w ?src \<noteq> pkey w (?cur @ ''.syncing'')" using R(6) by metis
  obtain wd' where d: "run_state (copy_file_atomic ?src ?cur) w = (0, wd')" "calm wd'"
    "fs_same (w_cwd w) (parent_keys w ?cur \<union> below (pkey w ?cur) \<union> below (pkey w (?cur @ ''.syncing''))) w wd'"
    by (rule copy_atomic_succeeds [OF calm R(4) src ne])
  have wd: "wd = wd'" using S(5) d(1) wc dst by simp
  have scd: "w_script wd' = []" using d(2) by (simp add: calm_def)
  have we: "we = wd'" using same_calm [OF hash_file_world [OF S(6)]] wd scd by simp
  have cd: "w_cwd wd' = w_cwd w" using d(3) by (simp add: fs_same_def)
  note md = S(7) [unfolded dst we]
  have cm: "fs_confined (w_cwd wd') (below (pkey wd' ?cur)) wd' wf'" by (rule metadata_confined [OF md])
  have sm: "fs_same (w_cwd wd') {pkey wd' ?cur} wd' wf'" by (rule metadata_same [OF md])
  have place: "file_place w ?cur" "file_place w (?cur @ ''.syncing'')" using R(4) by (simp_all add: replaceable_def)
  have "\<not> is_dir_node (fs_get (w_fs wd') (pkey wd' ?cur))"
    using copy_atomic_success [OF d(1) wf ne] place(1) cd by (auto simp: file_place_def pkey_def)
  then have "w_cwd wd' \<notin> below (pkey wd' ?cur)"
    using dir_not_below [of "w_fs wd'"] d(2) by (auto simp: calm_def)
  with cm have calmf: "calm wf'"
    using calm_kept [OF d(2) wfr.runD [OF wff.set_metadata [OF TrueI] md] sur.runD [OF suf.set_metadata [OF TrueI] md]] by blast
  note ft = talks_simps [OF S(8)]
  have calm': "calm w'" using calmf ft(1,2,15) by (simp add: calm_def)
  have conf: "fs_confined (w_cwd w) (below (pkey w ?cur) \<union> below (pkey w (?cur @ ''.syncing''))) w w'"
  proof -
    have "fs_confined (w_cwd w) (below (pkey w ?cur) \<union> below (pkey w (?cur @ ''.syncing''))) w wd'"
      using copy_atomic_confined [OF d(1)] .
    moreover have "fs_confined (w_cwd w) (below (pkey w ?cur) \<union> below (pkey w (?cur @ ''.syncing''))) wd' wf'"
      using fs_confined_mono [OF cm] cd by (simp add: pkey_def)
    ultimately have "fs_confined (w_cwd w) (below (pkey w ?cur) \<union> below (pkey w (?cur @ ''.syncing''))) w wf'"
      by (rule fs_confined_trans)
    then show ?thesis using ft(1,2) by (simp add: fs_confined_def)
  qed
  have W: "written cfg w t = below (pkey w ?cur) \<union> below (pkey w (?cur @ ''.syncing''))"
    using isf by (simp add: file_places_def tk)
  have up: "k \<in> way_to cfg w t" if "k \<in> parent_keys w ?cur" for k
    using that R(4) dir_prefix_above by (auto simp: replaceable_def pkey_def tk [symmetric])
  have "fs_same (w_cwd w) (parent_keys w ?cur \<union> below (pkey w ?cur) \<union> below (pkey w (?cur @ ''.syncing''))) w w'"
    using d(3) sm cd ft(1,2) by (auto simp: fs_same_def pkey_def)
  then have same: "fs_same (w_cwd w) (written cfg w t \<union> way_to cfg w t) w w'"
    by (rule fs_same_mono) (use up W in blast)
  have "entry_done cfg w w' t"
    using local_file_success(1) [OF run wf root nf src R(6)] isf fs_find_Inr [OF src]
    by (simp add: entry_done_def file_bytes_def)
  then show thesis using that run eq calm' conf same W by simp
qed

text \<open>A directory.\<close>

lemma dir_entry:
  assumes calm: "calm w" and root: "cc_dst_root cfg \<noteq> []" and ready: "entry_ready cfg w t" and isd: "t_is_dir t \<noteq> 0"
  obtains w' where "run_state (sync_task_local cfg t lfd wid) w = (0, w')" "calm w'" "entry_done cfg w w' t"
    "fs_confined (w_cwd w) (written cfg w t) w w'"
    "fs_same (w_cwd w) (written cfg w t \<union> way_to cfg w t) w w'"
proof -
  let ?cur = "target cfg t" and ?rel = "t_rel_path t"
  have R: "sanitize_rel_path ?rel = 0" "t_event_type t \<noteq> EVENT_DELETE" "t_event_type t \<noteq> EVENT_RENAME"
    "length ?cur < MAX_PATH_LEN" "''..'' \<notin> set (split_on slash ?cur)" "clear_way w ?cur"
    using ready isd by (simp_all add: entry_ready_def)
  have ne: "?cur \<noteq> []" using joined_nonempty joined_sub_nonempty by simp
  obtain w1 where w1: "run_state (ensure_dir_exists ?cur) w = (0, w1)" "calm w1" "fs_confined (w_cwd w) {} w w1"
    "\<forall>q \<in> set (all_dirs ?cur). is_dir_node (fs_get (w_fs w1) (pkey w q))"
    "fs_same (w_cwd w) (pkey w ` set (all_dirs ?cur)) w w1"
    by (rule ensure_dir_succeeds [OF ne R(4) calm R(6)])
  obtain u w' where lg: "run_state (log_message lfd LOG_INFO (worker_text wid (''local mkdir '' @ ?rel))) w1 = (u, w')"
    by (rule prod.exhaust)
  note t = talks_simps [OF tkr.runD [OF log_message_talks lg]]
  have "run_state (sync_task_local cfg t lfd wid) w = (0, w')"
    using R(1-3) isd local_target_fits [OF R(1,4)] w1(1) lg by (simp add: sync_task_local_def sync_task_rest_def)
  moreover have "calm w'" using w1(2) t(1,2,15) by (simp add: calm_def)
  moreover have "entry_done cfg w w' t" using w1(4) isd t(1) by (simp add: entry_done_def all_dirs_def)
  moreover have "fs_confined (w_cwd w) (written cfg w t) w w'"
    using w1(3) t(1,2) by (simp add: fs_confined_def)
  moreover have "fs_same (w_cwd w) (written cfg w t \<union> way_to cfg w t) w w'"
  proof -
    have "prefix (pkey w q) (pkey w ?cur)" if "q \<in> set (all_dirs ?cur)" for q
      using that dir_prefix_above [OF R(5), of q "w_cwd w"] by (auto simp: all_dirs_def pkey_def)
    then have "pkey w ` set (all_dirs ?cur) \<subseteq> written cfg w t \<union> way_to cfg w t"
      by (auto simp: target_keys(1) [OF root R(1)])
    from fs_same_mono [OF w1(5) this] show ?thesis using t(1,2) by (simp add: fs_same_def)
  qed
  ultimately show thesis using that by blast
qed

section \<open>Entries beside each other\<close>

lemma entry_keys:
  assumes "cc_dst_root cfg \<noteq> []" and "sanitize_rel_path (t_rel_path u) = 0"
  shows "pkey w (target cfg u) \<in> (@) (current_key cfg w) ` set (entry_places u)"
    and "t_is_dir u = 0 \<Longrightarrow> pkey w (target cfg u @ ''.syncing'') \<in> (@) (current_key cfg w) ` set (entry_places u)"
  using target_keys [OF assms] by (auto simp: entry_places_def file_places_def)

lemma independent_keys:
  assumes "independent t u" and "k \<in> (@) (current_key cfg w) ` set (entry_places u)"
  shows "k \<notin> written cfg w t" and "t_is_dir u = 0 \<Longrightarrow> k \<notin> way_to cfg w t"
proof -
  obtain b where b: "b \<in> set (entry_places u)" "k = current_key cfg w @ b" using assms(2) by auto
  show "k \<notin> written cfg w t"
    using assms(1) b by (auto simp: independent_def clear_of_def list_all_iff)
  show "k \<notin> way_to cfg w t" if "t_is_dir u = 0"
  proof -
    have "b \<in> set (file_places u)" using b(1) that by (simp add: entry_places_def)
    moreover have "plain (t_rel_path t) \<in> set (entry_places t)" by (simp add: entry_places_def file_places_def)
    ultimately have "\<not> prefix b (plain (t_rel_path t))"
      using assms(1) by (auto simp: independent_def clear_of_def list_all_iff)
    then show ?thesis by (simp add: b(2))
  qed
qed

text \<open>What is done stays done, and what is to be done can still be done.\<close>

lemma done_kept:
  assumes root: "cc_dst_root cfg \<noteq> []" and san: "sanitize_rel_path (t_rel_path u) = 0" and ind: "independent t u"
    and "entry_done cfg w0 w u" and pk: "\<And>p. pkey w p = pkey w0 p"
    and conf: "fs_confined (w_cwd w) (written cfg w t) w w'"
  shows "entry_done cfg w0 w' u"
proof -
  have "pkey w0 (target cfg u) \<notin> written cfg w t"
    using independent_keys(1) [OF ind entry_keys(1) [OF root san, of w]] pk by simp
  then have "fs_get (w_fs w') (pkey w0 (target cfg u)) = fs_get (w_fs w) (pkey w0 (target cfg u))"
    if "fs_get (w_fs w) (pkey w0 (target cfg u)) \<noteq> None"
    using conf that by (auto simp: fs_confined_def)
  then show ?thesis using assms(4) by (auto simp: entry_done_def elim: is_dir_nodeE split: if_splits)
qed

lemma written_in_area:
  assumes "cc_dst_root cfg \<noteq> []"
  shows "written cfg w t \<subseteq> backup_area (w_cwd w) (cc_dst_root cfg)"
  using key_sub [OF assms, of "''current''" "w_cwd w"]
  by (fastforce simp: backup_area_def current_key_def prefix_def)

lemma clear_kept:
  assumes "fs_confined (w_cwd w) S w w'" and "\<And>q. q \<in> set qs \<Longrightarrow> pkey w q \<notin> S"
    and "list_all (\<lambda>q. fs_get (w_fs w) (pkey w q) = None \<or> is_dir_node (fs_get (w_fs w) (pkey w q))) qs"
  shows "list_all (\<lambda>q. fs_get (w_fs w') (pkey w' q) = None \<or> is_dir_node (fs_get (w_fs w') (pkey w' q))) qs"
  unfolding list_all_iff confined_pkey [OF assms(1)]
proof
  fix q assume q: "q \<in> set qs"
  then have "fs_get (w_fs w) (pkey w q) = None \<or> is_dir_node (fs_get (w_fs w) (pkey w q))"
    using assms(3) by (simp add: list_all_iff)
  moreover have "fs_get (w_fs w') (pkey w q) = fs_get (w_fs w) (pkey w q) \<or> is_dir_node (fs_get (w_fs w') (pkey w q))"
    using assms(1,2) q by (auto simp: fs_confined_def)
  ultimately show "fs_get (w_fs w') (pkey w q) = None \<or> is_dir_node (fs_get (w_fs w') (pkey w q))" by auto
qed

lemma ready_kept:
  assumes root: "cc_dst_root cfg \<noteq> []" and ready: "entry_ready cfg w u" and ind: "independent t u"
    and conf: "fs_confined (w_cwd w) (written cfg w t) w w'"
    and same: "fs_same (w_cwd w) (written cfg w t \<union> way_to cfg w t) w w'"
  shows "entry_ready cfg w' u"
proof -
  let ?cur = "target cfg u"
  have san: "sanitize_rel_path (t_rel_path u) = 0" using ready by (simp add: entry_ready_def)
  have pk: "pkey w' p = pkey w p" for p by (rule confined_pkey [OF conf])
  note away = independent_keys [OF ind entry_keys(1) [OF root san, of w]]
  have below: "pkey w q \<notin> written cfg w t" if "prefix (pkey w q) (pkey w ?cur)" for q
  proof
    assume "pkey w q \<in> written cfg w t"
    then have "pkey w ?cur \<in> written cfg w t" using that by (auto intro: prefix_order.trans)
    then show False using away(1) by blast
  qed
  show ?thesis
  proof (cases "t_is_dir u = 0")
    case False
    then have R: "''..'' \<notin> set (split_on slash ?cur)" "clear_way w ?cur" using ready by (simp_all add: entry_ready_def)
    have "pkey w q \<notin> written cfg w t" if "q \<in> set (all_dirs ?cur)" for q
      using that dir_prefix_above [OF R(1), of q "w_cwd w"] by (intro below) (auto simp: all_dirs_def pkey_def)
    then have "clear_way w' ?cur" using clear_kept [OF conf] R(2) by (simp add: clear_way_def)
    then show ?thesis using ready False by (simp add: entry_ready_def)
  next
    case True
    then have R: "replaceable w ?cur" "fs_get (w_fs w) (pkey w ?cur) = None"
      "pkey w (t_src_path u) \<notin> backup_area (w_cwd w) (cc_dst_root cfg)"
      using ready by (simp_all add: entry_ready_def)
    have keys: "pkey w p \<notin> written cfg w t \<union> way_to cfg w t" if "p = ?cur \<or> p = ?cur @ ''.syncing''" for p
      using that independent_keys [OF ind entry_keys(2) [OF root san True, of w]] away True by auto
    have fp: "file_place w' ?cur" "file_place w' (?cur @ ''.syncing'')"
      using R(1) same_file_place [OF _ same] keys by (simp_all add: replaceable_def)
    have "pkey w q \<notin> written cfg w t" if "q \<in> set (dir_prefixes ?cur)" for q
      using that dir_prefix_above [of ?cur q "w_cwd w"] R(1) by (intro below) (auto simp: replaceable_def pkey_def)
    then have "parents_clear w' ?cur" using clear_kept [OF conf] R(1) by (simp add: replaceable_def parents_clear_def)
    then have rep: "replaceable w' ?cur" using R(1) fp by (simp add: replaceable_def)
    have none: "fs_get (w_fs w') (pkey w' ?cur) = None"
      using same keys [of ?cur] R(2) by (simp add: pk) (simp add: fs_same_def)
    have srco: "pkey w (t_src_path u) \<notin> written cfg w t" using R(3) written_in_area [OF root] by blast
    have "fs_find w' (t_src_path u) = fs_find w (t_src_path u)" if "fs_find w (t_src_path u) = Inr n" for n
      using confined_keeps [OF conf srco] that pk by (auto simp: fs_find_def split: option.splits if_splits)
    then show ?thesis
      using ready True rep none R(3) pk conf
      by (auto simp: entry_ready_def fs_confined_def split: sum.splits node.splits)
  qed
qed

section \<open>A queue of entries\<close>

lemma entry_step:
  assumes "calm w" and "cc_dst_root cfg \<noteq> []" and "entry_ready cfg w t"
  obtains w' where "run_state (sync_task_local cfg t lfd wid) w = (0, w')" "calm w'" "entry_done cfg w w' t"
    "fs_confined (w_cwd w) (written cfg w t) w w'"
    "fs_same (w_cwd w) (written cfg w t \<union> way_to cfg w t) w w'"
  using dir_entry [OF assms, of lfd wid] file_entry [OF assms, of lfd wid] that by blast

lemma done_base:
  assumes "\<And>p. pkey w1 p = pkey w p" and "t_is_dir t = 0 \<Longrightarrow> file_bytes w1 (t_src_path t) = file_bytes w (t_src_path t)"
  shows "entry_done cfg w1 w' t = entry_done cfg w w' t"
  using assms by (simp add: entry_done_def)

text \<open>The source of a file that is still to be copied is not changed by other tasks.\<close>

lemma source_kept:
  assumes root: "cc_dst_root cfg \<noteq> []" and ready: "entry_ready cfg w u" and isf: "t_is_dir u = 0"
    and conf: "fs_confined (w_cwd w) (written cfg w t) w w'"
  shows "file_bytes w' (t_src_path u) = file_bytes w (t_src_path u)"
proof -
  have "pkey w (t_src_path u) \<notin> written cfg w t"
  proof -
    have "pkey w (t_src_path u) \<notin> backup_area (w_cwd w) (cc_dst_root cfg)" using ready isf by (simp add: entry_ready_def)
    then show ?thesis using written_in_area [OF root, of w t] by blast
  qed
  moreover obtain b m s where "fs_find w (t_src_path u) = Inr (Reg b m s)"
    using ready isf by (auto simp: entry_ready_def split: sum.splits node.splits)
  ultimately show ?thesis
    using confined_keeps [OF conf] fs_find_Inr confined_pkey [OF conf] by (fastforce simp: file_bytes_def)
qed

text \<open>A worker that finds the queue \<open>ts\<close> does all its tasks, and undoes nothing that is done.\<close>

definition mirrored :: "client_config \<Rightarrow> sync_task list \<Rightarrow> world \<Rightarrow> world \<Rightarrow> bool" where
  "mirrored cfg ts w w' \<longleftrightarrow> list_all (entry_done cfg w w') ts \<and>
     (\<forall>w0 u. w_cwd w0 = w_cwd w \<and> sanitize_rel_path (t_rel_path u) = 0 \<and> list_all (\<lambda>t. independent t u) ts \<and>
       entry_done cfg w0 w u \<longrightarrow> entry_done cfg w0 w' u)"

lemma mirrored_step:
  assumes root: "cc_dst_root cfg \<noteq> []" and ready: "entry_ready cfg w t" and d: "entry_done cfg w w1 t"
    and conf: "fs_confined (w_cwd w) (written cfg w t) w w1"
    and rest: "list_all (entry_ready cfg w) ts" and ind: "list_all (independent t) ts" and m: "mirrored cfg ts w1 w'"
  shows "mirrored cfg (t # ts) w w'"
proof -
  have cwd: "w_cwd w1 = w_cwd w" and pk: "pkey w1 p = pkey w p" for p
    using confined_cwd [OF conf] confined_pkey [OF conf] by simp_all
  have frame: "entry_done cfg w0 w' u"
    if "w_cwd w0 = w_cwd w" "sanitize_rel_path (t_rel_path u) = 0" "list_all (\<lambda>t. independent t u) ts" "entry_done cfg w0 w1 u"
    for w0 u using m that cwd by (simp add: mirrored_def)
  have "entry_done cfg w w' t"
    by (rule frame) (use ready ind d in \<open>auto simp: entry_ready_def independent_def list_all_iff\<close>)
  moreover have "entry_done cfg w w' u" if u: "u \<in> set ts" for u
  proof -
    have "entry_done cfg w1 w' u" using m u by (simp add: mirrored_def list_all_iff)
    moreover have "entry_ready cfg w u" using rest u by (simp add: list_all_iff)
    ultimately show ?thesis using done_base [OF pk source_kept [OF root _ _ conf]] by blast
  qed
  moreover have "entry_done cfg w0 w' u"
    if w0: "w_cwd w0 = w_cwd w" and san: "sanitize_rel_path (t_rel_path u) = 0"
      and i: "list_all (\<lambda>t. independent t u) (t # ts)" and "entry_done cfg w0 w u" for w0 u
  proof -
    have "entry_done cfg w0 w1 u"
      using done_kept [OF root san _ that(4) _ conf] i w0 by (simp add: pkey_def)
    then show ?thesis using frame [OF w0 san] i by simp
  qed
  ultimately show ?thesis by (auto simp: mirrored_def list_all_iff)
qed

lemma mirror_loop:
  "c_queue ctx = (ts, st) \<Longrightarrow> \<not> c_stop ctx \<Longrightarrow> cc_mode (c_config ctx) = MODE_LOCAL \<Longrightarrow> cc_dst_root (c_config ctx) \<noteq> [] \<Longrightarrow>
   calm w \<Longrightarrow> list_all (entry_ready (c_config ctx) w) ts \<Longrightarrow> sorted_wrt independent ts \<Longrightarrow>
   \<exists>w'. worker_loop sock wid ctx w = ((if st then Exited else Blocked, ctx\<lparr>c_queue := ([], st)\<rparr>), w') \<and>
     mirrored (c_config ctx) ts w w'"
proof (induction ts arbitrary: ctx w)
  case Nil
  then show ?case by (auto simp: worker_loop.simps [of sock wid ctx] mirrored_def)
next
  case (Cons t ts)
  let ?cfg = "c_config ctx" and ?ctx = "ctx\<lparr>c_queue := (ts, st)\<rparr>"
  have root: "cc_dst_root ?cfg \<noteq> []" and ready: "entry_ready ?cfg w t" using Cons.prems(4,6) by simp_all
  obtain w1 where w1: "run_state (sync_task_local ?cfg t (c_log_fd ctx) wid) w = (0, w1)" "calm w1" "entry_done ?cfg w w1 t"
    "fs_confined (w_cwd w) (written ?cfg w t) w w1"
    "fs_same (w_cwd w) (written ?cfg w t \<union> way_to ?cfg w t) w w1"
    by (rule entry_step [OF Cons.prems(5) root ready])
  have "run_state (worker_round sock ?ctx t wid) w = (?ctx, w1)"
    using w1(1) Cons.prems(3) by (simp add: worker_round_def run_task_def)
  then have loop: "worker_loop sock wid ctx w = worker_loop sock wid ?ctx w1"
    using Cons.prems(1,2) by (simp add: worker_loop.simps [of sock wid ctx])
  have "list_all (entry_ready ?cfg w1) ts"
    using Cons.prems(6,7) ready_kept [OF root _ _ w1(4,5)] by (auto simp: list_all_iff)
  then obtain w' where w': "worker_loop sock wid ?ctx w1 = ((if st then Exited else Blocked, ctx\<lparr>c_queue := ([], st)\<rparr>), w')"
    "mirrored ?cfg ts w1 w'"
    using Cons.IH [of ?ctx w1] Cons.prems w1(2) by auto
  have "mirrored ?cfg (t # ts) w w'"
    by (rule mirrored_step [OF root ready w1(3,4) _ _ w'(2)]) (use Cons.prems(6,7) in \<open>auto simp: list_all_iff\<close>)
  then show ?case using loop w'(1) by auto
qed

end
