(* ===== verification/InitialBackup.thy ===== *)
theory InitialBackup
  imports Mirror MonitorProperties SchedulerLaws "HOL-Library.Multiset"
begin

text \<open>
  The first run of the program on an empty backup: the full scan of \<^verbatim>\<open>src/monitor.c\<close> finds every entry of
  the source, and a worker of \<^verbatim>\<open>src/transfer.c\<close> that does its tasks builds a complete copy.
\<close>

section \<open>Names of entries\<close>

text \<open>What is behind the root in the path of an entry: proper names only.\<close>

definition proper_names :: "string \<Rightarrow> bool" where
  "proper_names z \<longleftrightarrow> list_all (\<lambda>n. n \<noteq> [] \<and> n \<noteq> ''.'' \<and> n \<noteq> ''..'') (split_on slash z)"

lemma entry_name_split: "entry_name n \<Longrightarrow> split_on slash n = [n]"
  by (auto simp: entry_name_def intro!: split_on_single)

lemma entry_proper: "entry_path d n = Some p \<Longrightarrow> proper_names n \<and> p = dir_slash d @ n"
  using entry_path_Some [of d n p] entry_nameD [of n] by (simp add: proper_names_def entry_name_split)

lemma proper_plain: "proper_names z \<Longrightarrow> plain z = split_on slash z"
  by (auto simp: proper_names_def plain_def list_all_iff filter_id_conv)

lemma proper_no_dotdot: "proper_names z \<Longrightarrow> ''..'' \<notin> set (split_on slash z)"
  by (auto simp: proper_names_def list_all_iff)

lemma proper_slash: "proper_names (z @ slash # n) \<longleftrightarrow> proper_names z \<and> proper_names n"
  by (simp add: proper_names_def split_on_append)

lemma proper_head:
  assumes "proper_names z"
  shows "z \<noteq> []" and "hd z \<noteq> slash"
proof -
  show "z \<noteq> []" using assms by (auto simp: proper_names_def)
  show "hd z \<noteq> slash"
  proof
    assume "hd z = slash"
    then obtain r where "z = slash # r" using \<open>z \<noteq> []\<close> by (cases z) auto
    then show False using assms by (simp add: proper_names_def Let_def)
  qed
qed

lemma joined_proper: "proper_names z \<Longrightarrow> joined d z = dir_slash d @ z"
  using proper_head [of z] by (cases z) (simp_all add: dir_slash_def joined_def Let_def)

lemma reach_proper:
  assumes "tree_reach into w root q"
  shows "\<exists>z. proper_names z \<and> q = joined root z"
  using assms
proof (induction rule: tree_reach.induct)
  case (child n p)
  then show ?case using entry_proper joined_proper by metis
next
  case (deeper p n q)
  then obtain z where z: "proper_names z" "p = dir_slash root @ z" using joined_proper by auto
  have "dir_slash p = p @ [slash]"
    using z proper_head(1) joined_proper [OF z(1)] entry_path_Some(3) deeper.hyps by (auto elim: tree_reach.cases)
  then have q: "q = dir_slash root @ (z @ slash # n)" "proper_names n"
    using entry_proper [OF deeper.hyps(4)] z(2) by simp_all
  then have "proper_names (z @ slash # n)" using z(1) by (simp add: proper_slash)
  then show ?case using q(1) joined_proper by metis
qed

lemma proper_key: "root \<noteq> [] \<Longrightarrow> proper_names z \<Longrightarrow> pkey w (joined root z) = pkey w root @ split_on slash z"
  by (simp add: pkey_def path_key_joined proper_no_dotdot proper_plain)

lemma split_inj: "split_on slash y = split_on slash z \<Longrightarrow> y = z"
  using join_split [of slash] by metis

lemma last_name_plain:
  assumes "split_on slash p = ns @ [n]" and "n \<notin> {[], ''.'', ''..''}"
  shows "\<not> wants_dir p"
proof -
  have "p = [] \<or> last p \<noteq> slash"
  proof (rule ccontr)
    assume "\<not> ?thesis"
    then have "p = butlast p @ slash # []" by (metis append_butlast_last_id)
    then have "last (split_on slash p) = []" using split_on_append [of slash "butlast p" "[]"] by simp
    then show False using assms by simp
  qed
  then show ?thesis using assms by (simp add: wants_dir_def last_dotty_def)
qed

text \<open>An entry that is reached is there.\<close>

lemma entry_there:
  assumes "n \<in> set (dir_entries w d)" and "entry_path d n = Some p" and "d \<noteq> []"
  shows "fs_get (w_fs w) (pkey w p) \<noteq> None"
proof -
  note e = entry_path_Some [OF assms(2)]
  have "n \<in> set (fs_children (w_fs w) (pkey w d))" using assms(1) e(4,5) by (simp add: dir_entries_def)
  then have "pkey w d @ [n] \<in> set (map fst (w_fs w))" by (simp add: children_mem)
  moreover have "pkey w p = pkey w d @ [n]"
    using proper_key [OF assms(3), of n w] entry_proper [OF assms(2)] joined_proper [of n d]
    by (simp add: entry_name_split [OF e(1)])
  ultimately show ?thesis by (auto simp: fs_get_def map_of_eq_None_iff)
qed

lemma reach_there:
  assumes "tree_reach into w root q" and "root \<noteq> []"
  shows "fs_get (w_fs w) (pkey w q) \<noteq> None"
  using assms(1)
proof (cases rule: tree_reach.cases)
  case (child n)
  then show ?thesis using entry_there [OF child] assms(2) by simp
next
  case (deeper p n)
  obtain z where "p = joined root z" using reach_proper [OF deeper(1)] by blast
  then have "p \<noteq> []" using joined_nonempty [OF assms(2)] by simp
  then show ?thesis using entry_there [OF deeper(3,4)] by simp
qed

section \<open>The tasks of the scan\<close>

text \<open>An empty backup below the root of the configuration, and an entry of the source that can be kept in
  it: its task is made, there is room for its path, it is a file or a directory, its name is not one of
  the temporary names, and it is not in the backup itself.\<close>

definition first_backup :: "client_config \<Rightarrow> path \<Rightarrow> world \<Rightarrow> bool" where
  "first_backup cfg root w \<longleftrightarrow> cc_dst_root cfg \<noteq> [] \<and> one_slash root \<and> calm w \<and> is_dir_at w root \<and>
     ''..'' \<notin> set (split_on slash (joined (cc_dst_root cfg) ''current'')) \<and>
     clear_way w (joined (cc_dst_root cfg) ''current'') \<and>
     list_all (\<lambda>(k, n). \<not> strict_prefix (current_key cfg w) k) (w_fs w)"

definition outside_backup :: "client_config \<Rightarrow> world \<Rightarrow> path \<Rightarrow> bool" where
  "outside_backup cfg w p \<longleftrightarrow>
     list_all (\<lambda>s. \<not> prefix (pkey w (joined (cc_dst_root cfg) s)) (pkey w p)) [''current'', ''.versions'', ''.trash'']"

definition entry_fits :: "client_config \<Rightarrow> path \<Rightarrow> world \<Rightarrow> path \<Rightarrow> bool" where
  "entry_fits cfg root w p \<longleftrightarrow>
     (case task_at w EVENT_FULLSCAN root p of None \<Rightarrow> False
      | Some t \<Rightarrow> length (target cfg t) + 8 < MAX_PATH_LEN \<and>
          list_all (\<lambda>n. \<not> suffix ''.syncing'' n) (split_on slash (t_rel_path t))) \<and>
     (case fs_find w p of Inl e \<Rightarrow> False | Inr n \<Rightarrow> is_reg_node (Some n) \<or> is_dir_node (Some n)) \<and>
     outside_backup cfg w p"

text \<open>The facts about the task of an entry.\<close>

definition entry_task :: "client_config \<Rightarrow> path \<Rightarrow> world \<Rightarrow> path \<Rightarrow> sync_task \<Rightarrow> node \<Rightarrow> bool" where
  "entry_task cfg root w q t n \<longleftrightarrow> task_at w EVENT_FULLSCAN root q = Some t \<and> t_src_path t = q \<and>
     joined root (t_rel_path t) = q \<and> t_event_type t = EVENT_FULLSCAN \<and> proper_names (t_rel_path t) \<and>
     sanitize_rel_path (t_rel_path t) = 0 \<and> fs_find w q = Inr n \<and> (is_reg_node (Some n) \<or> is_dir_node (Some n)) \<and>
     (t_is_dir t \<noteq> 0 \<longleftrightarrow> is_dir_node (Some n)) \<and> t_mode t = st_mode (node_stat n) \<and>
     t_mtime t = word_of_int (st_mtime (node_stat n)) \<and> length (target cfg t) + 8 < MAX_PATH_LEN \<and>
     list_all (\<lambda>n. \<not> suffix ''.syncing'' n) (split_on slash (t_rel_path t)) \<and>
     pkey w root @ split_on slash (t_rel_path t) = pkey w q \<and> fs_get (w_fs w) (pkey w q) = Some n \<and>
     pkey w q \<notin> backup_area (w_cwd w) (cc_dst_root cfg)"

lemma entry_taskI:
  assumes root: "one_slash root" and q: "q \<in> set (tree_paths into w root)" and fits: "entry_fits cfg root w q"
  shows "\<exists>t n. entry_task cfg root w q t n"
proof -
  obtain t n where t: "task_at w EVENT_FULLSCAN root q = Some t" "length (target cfg t) + 8 < MAX_PATH_LEN"
      "list_all (\<lambda>n. \<not> suffix ''.syncing'' n) (split_on slash (t_rel_path t))"
    and n: "fs_find w q = Inr n" "is_reg_node (Some n) \<or> is_dir_node (Some n)" and out: "outside_backup cfg w q"
    using fits by (auto simp: entry_fits_def split: option.splits sum.splits)
  obtain z where z: "proper_names z" "q = joined root z" using reach_proper tree_paths_reach [OF q] by blast
  have b: "q = dir_slash root @ t_rel_path t" "t_src_path t = q" "t_event_type t = EVENT_FULLSCAN"
    "length (t_rel_path t) < MAX_PATH_LEN" using task_at_below [OF root q t(1)] by simp_all
  have rel: "t_rel_path t = z" using b(1) z joined_proper [OF z(1)] by simp
  have r: "root \<noteq> []" "length root \<le> Suc (length (strip_trailing root))" using root by (simp_all add: one_slash_def)
  have "get_relative_path [] MAX_PATH_LEN root q = (sanitize_rel_path z, z)"
    using get_relative_joined [OF r proper_head [OF z(1)]] b(4) rel z(2) by simp
  then have "sanitize_rel_path z = 0" using t(1) by (auto simp: task_at_def split: if_splits)
  moreover have "(t_is_dir t \<noteq> 0 \<longleftrightarrow> is_dir_node (Some n)) \<and> t_mode t = st_mode (node_stat n) \<and>
      t_mtime t = word_of_int (st_mtime (node_stat n))"
    using t(1) n(1) by (auto simp: task_at_def Let_def split: if_splits)
  moreover have "pkey w q \<notin> backup_area (w_cwd w) (cc_dst_root cfg)"
    using out by (auto simp: outside_backup_def backup_area_def pkey_def)
  ultimately show ?thesis
    using t n z b(2,3) rel proper_key [OF r(1) z(1), of w] fs_find_Inr [OF n(1)] by (auto simp: entry_task_def)
qed

text \<open>Entries do not get into each other's way.\<close>

lemma plain_syncing:
  "proper_names z \<Longrightarrow> plain (z @ ''.syncing'') = butlast (split_on slash z) @ [last (split_on slash z) @ ''.syncing'']"
  by (auto simp: plain_def split_on_snoc proper_names_def list_all_iff filter_id_conv dest: in_set_butlastD)

lemma entries_clear:
  assumes T: "entry_task cfg root w q t n" and U: "entry_task cfg root w r u m"
    and wf: "fs_wf (w_fs w)" and ne: "t_rel_path t \<noteq> t_rel_path u"
  shows "clear_of t u"
proof (cases "t_is_dir t = 0")
  case False
  then show ?thesis by (simp add: clear_of_def file_places_def)
next
  case True
  let ?t = "split_on slash (t_rel_path t)" and ?u = "split_on slash (t_rel_path u)" and ?s = "''.syncing''"
  have nd: "\<not> is_dir_node (fs_get (w_fs w) (pkey w q))" using T True by (simp add: entry_task_def)
  have uk: "pkey w r = pkey w root @ ?u" "fs_get (w_fs w) (pkey w r) = Some m" and tk: "pkey w q = pkey w root @ ?t"
    using T U by (simp_all add: entry_task_def)
  have names: "x \<in> set ?t \<union> set ?u \<Longrightarrow> \<not> suffix ?s x" for x
    using T U by (auto simp: entry_task_def list_all_iff)
  have differ: "?t \<noteq> ?u" using ne split_inj by blast
  have a: "\<not> prefix ?t ?u"
  proof
    assume "prefix ?t ?u"
    then obtain z where z: "?u = ?t @ z" by (auto simp: prefix_def)
    then have "z \<noteq> []" using differ by auto
    then show False using fs_wf_below_file [OF wf nd] uk tk z by simp
  qed
  have e: "?t = butlast ?t @ [last ?t]" "?u = butlast ?u @ [last ?u]" by simp_all
  have b: "\<not> prefix (butlast ?t @ [last ?t @ ?s]) ?u"
  proof
    assume "prefix (butlast ?t @ [last ?t @ ?s]) ?u"
    then have "last ?t @ ?s \<in> set ?u" by (auto dest: set_mono_prefix)
    then show False using names [of "last ?t @ ?s"] by (auto simp: suffix_def)
  qed
  have sub: "prefix x ?u" if "prefix x (butlast ?u)" for x
    using that e(2) by (metis prefix_append prefix_order.trans prefixI)
  have c: "\<not> prefix ?t (butlast ?u @ [last ?u @ ?s])"
  proof
    assume "prefix ?t (butlast ?u @ [last ?u @ ?s])"
    then have "?t = butlast ?u @ [last ?u @ ?s]" using a sub by (auto simp: prefix_snoc)
    then have "last ?u @ ?s \<in> set ?t" by (metis in_set_conv_decomp)
    then show False using names [of "last ?u @ ?s"] by (auto simp: suffix_def)
  qed
  have d: "\<not> prefix (butlast ?t @ [last ?t @ ?s]) (butlast ?u @ [last ?u @ ?s])"
  proof
    assume "prefix (butlast ?t @ [last ?t @ ?s]) (butlast ?u @ [last ?u @ ?s])"
    then have "butlast ?t = butlast ?u \<and> last ?t = last ?u" using b sub by (auto simp: prefix_snoc)
    then show False using e differ by metis
  qed
  have "plain (t_rel_path t) = ?t" "plain (t_rel_path u) = ?u"
    "plain (t_rel_path t @ ?s) = butlast ?t @ [last ?t @ ?s]" "plain (t_rel_path u @ ?s) = butlast ?u @ [last ?u @ ?s]"
    using T U by (simp_all add: entry_task_def proper_plain plain_syncing)
  then show ?thesis using a b c d by (simp add: clear_of_def entry_places_def file_places_def True)
qed

text \<open>In the empty backup every place below \<open>current\<close> is free.\<close>

lemma first_backup_keys:
  assumes "first_backup cfg root w"
  shows "pkey w (joined (cc_dst_root cfg) ''current'') = current_key cfg w"
    and "z \<noteq> [] \<Longrightarrow> fs_get (w_fs w) (current_key cfg w @ z) = None"
    and "fs_get (w_fs w) (current_key cfg w) = None \<or> is_dir_node (fs_get (w_fs w) (current_key cfg w))"
proof -
  show k: "pkey w (joined (cc_dst_root cfg) ''current'') = current_key cfg w"
    using assms key_sub [of "cc_dst_root cfg" "''current''" "w_cwd w"]
    by (simp add: first_backup_def pkey_def current_key_def)
  show "fs_get (w_fs w) (current_key cfg w @ z) = None" if z: "z \<noteq> []"
  proof (rule ccontr)
    assume "fs_get (w_fs w) (current_key cfg w @ z) \<noteq> None"
    then obtain n where "(current_key cfg w @ z, n) \<in> set (w_fs w)" by (auto simp: fs_get_def dest: map_of_SomeD)
    then show False using assms z by (auto simp: first_backup_def list_all_iff strict_prefix_def)
  qed
  show "fs_get (w_fs w) (current_key cfg w) = None \<or> is_dir_node (fs_get (w_fs w) (current_key cfg w))"
    using assms k by (simp add: first_backup_def clear_way_def all_dirs_def)
qed

lemma current_split:
  assumes "proper_names rel"
  shows "current_file root rel = joined root ''current'' @ slash # rel"
proof -
  have "last (joined root ''current'') \<noteq> slash" by (auto simp: joined_def Let_def)
  then show ?thesis using proper_head [OF assms] by (cases rel) (simp_all add: joined_def [of "joined root ''current''"] Let_def)
qed

lemma way_clear:
  assumes fb: "first_backup cfg root w" and z: "proper_names z" and q: "q \<in> set (all_dirs (current_file (cc_dst_root cfg) z))"
  shows "fs_get (w_fs w) (pkey w q) = None \<or> is_dir_node (fs_get (w_fs w) (pkey w q))"
proof -
  let ?b = "joined (cc_dst_root cfg) ''current''"
  note k = first_backup_keys [OF fb]
  have nd: "''..'' \<notin> set (split_on slash z)" by (rule proper_no_dotdot [OF z])
  have b: "?b \<noteq> []" by (rule joined_sub_nonempty) simp
  have below: "?thesis" if "q = ?b @ slash # y" "''..'' \<notin> set (split_on slash y)" for y
  proof -
    have "pkey w q = current_key cfg w @ plain y"
      using that b k(1) by (simp add: pkey_def path_key_append_slash foldl_push_plain plain_def)
    then show ?thesis using k(2,3) by (cases "plain y = []") simp_all
  qed
  have "q \<in> set (all_dirs ?b) \<or> (\<exists>y. q = ?b @ slash # y \<and> ''..'' \<notin> set (split_on slash y))"
  proof (cases "q = ?b @ slash # z")
    case True
    then show ?thesis using nd by blast
  next
    case False
    then obtain r where r: "?b @ slash # z = q @ slash # r" "q \<noteq> []"
      using q current_split [OF z, of "cc_dst_root cfg"] by (auto simp: all_dirs_def dir_prefix_iff)
    then consider (upper) us where "?b = q @ us" "us @ slash # z = slash # r" | (lower) us where "q = ?b @ us" "slash # z = us @ slash # r"
      by (auto simp: append_eq_append_conv2)
    then show ?thesis
    proof cases
      case upper
      then show ?thesis using r(2) by (cases us) (auto simp: all_dirs_def dir_prefix_iff)
    next
      case lower
      then show ?thesis
      proof (cases us)
        case Nil
        then show ?thesis using lower by (simp add: all_dirs_def)
      next
        case (Cons c y)
        then show ?thesis using lower nd by (auto simp: split_on_append)
      qed
    qed
  qed
  then show ?thesis
    using below fb by (auto simp: first_backup_def clear_way_def list_all_iff)
qed

lemma entry_is_ready:
  assumes fb: "first_backup cfg root w" and T: "entry_task cfg root w q t n"
  shows "entry_ready cfg w t"
proof -
  let ?cur = "target cfg t" and ?b = "joined (cc_dst_root cfg) ''current''"
  have z: "proper_names (t_rel_path t)" and san: "sanitize_rel_path (t_rel_path t) = 0"
    and src: "t_src_path t = q" "fs_find w q = Inr n" "is_reg_node (Some n) \<or> is_dir_node (Some n)"
      "t_is_dir t \<noteq> 0 \<longleftrightarrow> is_dir_node (Some n)" "pkey w q \<notin> backup_area (w_cwd w) (cc_dst_root cfg)"
    and ev: "t_event_type t = EVENT_FULLSCAN" and l: "length ?cur + 8 < MAX_PATH_LEN"
    using T by (simp_all add: entry_task_def)
  have root: "cc_dst_root cfg \<noteq> []" using fb by (simp add: first_backup_def)
  note keys = target_keys [OF root san, of w] and k = first_backup_keys [OF fb] and cur = current_split [OF z, of "cc_dst_root cfg"]
  have dots: "''..'' \<notin> set (split_on slash ?cur)"
    using fb proper_no_dotdot [OF z] by (simp add: cur split_on_append first_backup_def)
  have clear: "clear_way w ?cur" "parents_clear w ?cur"
    using way_clear [OF fb z] by (auto simp: clear_way_def parents_clear_def all_dirs_def list_all_iff)
  have rel: "plain (t_rel_path t) \<noteq> []" "plain (t_rel_path t @ ''.syncing'') \<noteq> []"
    using z by (simp_all add: proper_plain plain_syncing)
  have none: "fs_get (w_fs w) (pkey w ?cur) = None" "fs_get (w_fs w) (pkey w (?cur @ ''.syncing'')) = None"
    using k(2) rel keys by simp_all
  let ?n = "last (split_on slash (t_rel_path t))" and ?ns = "split_on slash ?b @ butlast (split_on slash (t_rel_path t))"
  have s: "split_on slash ?cur = ?ns @ [?n]" by (simp add: cur split_on_append butlast_append)
  have "?n \<notin> {[], ''.'', ''..''}" using z by (auto simp: proper_names_def list_all_iff)
  moreover have "split_on slash (?cur @ ''.syncing'') = ?ns @ [?n @ ''.syncing'']" by (simp add: split_on_snoc s butlast_append)
  ultimately have "\<not> wants_dir ?cur" "\<not> wants_dir (?cur @ ''.syncing'')"
    using last_name_plain [OF s] last_name_plain [of "?cur @ ''.syncing''"] by simp_all
  then have rep: "replaceable w ?cur" using l dots none clear(2) by (simp add: replaceable_def file_place_def cur)
  show ?thesis
  proof (cases "t_is_dir t = 0")
    case True
    then obtain b m s where "n = Reg b m s" using src(3,4) by (auto elim: is_reg_nodeE)
    then show ?thesis using True san ev rep none(1) src by (simp add: entry_ready_def)
  next
    case False
    then show ?thesis using san ev l dots clear(1) by (simp add: entry_ready_def)
  qed
qed

section \<open>The whole tree\<close>

text \<open>What becomes of a node of the source in the backup: a directory is made, and a file has the content,
  the permission bits and the time of the source (as far as they fit in 64 bits).\<close>

fun kept_as :: "node \<Rightarrow> node option \<Rightarrow> bool" where
  "kept_as (Reg b m s) k \<longleftrightarrow> k = Some (Reg b (m AND 0xFFF) (sint (word_of_int s :: 64 word)))"
| "kept_as (Dir m s) k \<longleftrightarrow> is_dir_node k"
| "kept_as (Special m s) k \<longleftrightarrow> k = None"

lemma mode_of_node: "(S_IFREG OR (m AND 0xFFF)) AND 0xFFF = (m AND 0xFFF :: 32 word)"
  by (simp add: bit.conj_disj_distrib2 and.assoc)

lemma done_kept_as:
  assumes T: "entry_task cfg root w q t n" and d: "entry_done cfg w w' t"
  shows "kept_as n (fs_get (w_fs w') (pkey w (current_file (cc_dst_root cfg) (t_rel_path t))))"
proof -
  have f: "t_src_path t = q" "fs_find w q = Inr n" "t_is_dir t \<noteq> 0 \<longleftrightarrow> is_dir_node (Some n)"
    "t_mode t = st_mode (node_stat n)" "t_mtime t = word_of_int (st_mtime (node_stat n))"
    "is_reg_node (Some n) \<or> is_dir_node (Some n)"
    using T by (simp_all add: entry_task_def)
  show ?thesis
    using d f by (cases n) (auto simp: entry_done_def file_bytes_def mode_of_node fs_find_def split: option.splits if_splits)
qed

lemma sorted_wrt_all:
  "distinct xs \<Longrightarrow> (\<And>x y. x \<in> set xs \<Longrightarrow> y \<in> set xs \<Longrightarrow> x \<noteq> y \<Longrightarrow> P x y) \<Longrightarrow> sorted_wrt P xs"
  by (induction xs) auto

lemma ready_same: "tree_same w v \<Longrightarrow> entry_ready cfg v t = entry_ready cfg w t"
  by (simp add: entry_ready_def replaceable_def file_place_def parents_clear_def clear_way_def fs_find_tree)
    (simp add: pkey_def tree_same_def)

lemma done_same: "tree_same w v \<Longrightarrow> entry_done cfg v w' t = entry_done cfg w w' t"
  by (simp add: entry_done_def file_bytes_def pkey_def tree_same_def)

abbreviation entries :: "world \<Rightarrow> path \<Rightarrow> path list" where
  "entries w root \<equiv> tree_paths (is_dir_at w) w root"

lemma scanned_tasks:
  assumes fb: "first_backup cfg root w" and fits: "list_all (entry_fits cfg root w) (entries w root)"
    and us: "mset us = mset (tasks_at w EVENT_FULLSCAN root (entries w root))"
  shows "list_all (entry_ready cfg w) us" and "sorted_wrt independent us"
proof -
  let ?ts = "tasks_at w EVENT_FULLSCAN root (entries w root)"
  have root: "one_slash root" and wf: "fs_wf (w_fs w)" using fb by (simp_all add: first_backup_def calm_def)
  have set_us: "set us = set ?ts" using us by (metis set_mset_mset)
  have "\<exists>q n. entry_task cfg root w q t n" if "t \<in> set us" for t
  proof -
    obtain q where q: "q \<in> set (entries w root)" "task_at w EVENT_FULLSCAN root q = Some t"
      using \<open>t \<in> set us\<close> set_us by (auto simp: tasks_at_mem)
    have "entry_fits cfg root w q" using fits q(1) by (simp add: list_all_iff)
    then obtain u n where u: "entry_task cfg root w q u n" using entry_taskI [OF root q(1)] by blast
    then have "u = t" using q(2) by (simp add: entry_task_def)
    then show ?thesis using u by blast
  qed
  note et = this
  show "list_all (entry_ready cfg w) us" using et entry_is_ready [OF fb] by (auto simp: list_all_iff)
  have dr: "distinct (map t_rel_path ?ts)" by (rule tasks_distinct [OF root tree_paths_distinct [OF wf] subset_refl])
  have "distinct us" using dr mset_eq_imp_distinct_iff [OF us] by (simp add: distinct_map)
  then show "sorted_wrt independent us"
  proof (rule sorted_wrt_all)
    fix t u assume tu: "t \<in> set us" "u \<in> set us" "t \<noteq> u"
    have "t_rel_path t \<noteq> t_rel_path u" using dr tu set_us by (auto simp: distinct_map dest: inj_onD)
    then show "independent t u"
      using et [OF tu(1)] et [OF tu(2)] entries_clear [OF _ _ wf] unfolding independent_def by metis
  qed
qed

text \<open>C7: The first backup is complete: when the full scan has gone through a source tree without failures,
  the backup is empty and every entry can be kept in it, a worker in local mode that finds the tasks of
  the scan in its queue, in whatever order, does them all, and then every file that can be reached in
  the source is below \<open>current\<close> with its content, permission bits and time, and every directory is there.\<close>

theorem first_backup_is_complete:
  assumes "run_state (scan_directory_and_emit_tasks wd_of root root fd m) w = ((r, m'), w1)" and "m_log_fd m \<noteq> fd"
    and "first_backup (c_config ctx) root w"
    and "list_all (entry_fits (c_config ctx) root w) (tree_paths (is_dir_at w) w root)"
    and "cc_mode (c_config ctx) = MODE_LOCAL" and "\<not> c_stop ctx"
  shows "\<exists>ts. r = 0 \<and> w_tx w1 fd = w_tx w fd @ concat (map task_bytes ts) \<and>
    (\<forall>us st v. mset us = mset ts \<and> calm v \<and> tree_same w v \<longrightarrow>
      (\<exists>w2. worker_loop sock wid (ctx\<lparr>c_queue := (us, st)\<rparr>) v =
          ((if st then Exited else Blocked, ctx\<lparr>c_queue := ([], st)\<rparr>), w2) \<and>
        (\<forall>rel n. tree_reach (is_dir_at w) w root (joined root rel) \<and> proper_names rel \<and>
            fs_find w (joined root rel) = Inr n \<longrightarrow>
          kept_as n (fs_get (w_fs w2) (pkey w (current_file (cc_dst_root (c_config ctx)) rel))))))"
proof -
  let ?cfg = "c_config ctx" and ?ts = "tasks_at w EVENT_FULLSCAN root (entries w root)"
  have fb: "cc_dst_root ?cfg \<noteq> []" "one_slash root" "calm w" "is_dir_at w root"
    using assms(3) by (simp_all add: first_backup_def)
  have "undisturbed w w" using fb(3) by (simp add: undisturbed_def calm_def no_failure_def tsr.refl)
  note scan = scan_run [OF assms(1) this fb(4) assms(2)]
  have work: "\<exists>w2. worker_loop sock wid (ctx\<lparr>c_queue := (us, st)\<rparr>) v =
        ((if st then Exited else Blocked, ctx\<lparr>c_queue := ([], st)\<rparr>), w2) \<and> list_all (entry_done ?cfg w w2) us"
    if us: "mset us = mset ?ts" and v: "calm v" "tree_same w v" for us st v
  proof -
    note tasks = scanned_tasks [OF assms(3,4) us]
    then have "list_all (entry_ready ?cfg v) us" by (simp add: ready_same [OF v(2)] list_all_iff)
    from mirror_loop [OF _ _ _ _ v(1) _ tasks(2), of "ctx\<lparr>c_queue := (us, st)\<rparr>" st sock wid] this fb(1) assms(5,6)
    show ?thesis by (auto simp: mirrored_def list_all_iff done_same [OF v(2)])
  qed
  have kept: "kept_as n (fs_get (w_fs w2) (pkey w (current_file (cc_dst_root ?cfg) rel)))"
    if us: "mset us = mset ?ts" and d: "list_all (entry_done ?cfg w w2) us"
      and rel: "tree_reach (is_dir_at w) w root (joined root rel)" "proper_names rel" "fs_find w (joined root rel) = Inr n"
    for us w2 rel n
  proof -
    have q: "joined root rel \<in> set (entries w root)" using rel(1) by (simp add: set_tree_paths)
    have "entry_fits ?cfg root w (joined root rel)" using assms(4) q by (simp add: list_all_iff)
    then obtain t k where t: "entry_task ?cfg root w (joined root rel) t k" using entry_taskI [OF fb(2) q] by blast
    then have "t \<in> set us" using q us tasks_at_mem by (metis entry_task_def set_mset_mset)
    then have "kept_as k (fs_get (w_fs w2) (pkey w (current_file (cc_dst_root ?cfg) (t_rel_path t))))"
      using done_kept_as [OF t] d by (simp add: list_all_iff)
    moreover have "k = n" "t_rel_path t = rel"
      using t rel(2,3) joined_proper [OF rel(2), of root] joined_proper [of "t_rel_path t" root]
      by (auto simp: entry_task_def)
    ultimately show ?thesis by simp
  qed
  show ?thesis
    by (intro exI [of _ ?ts] conjI allI impI) (use scan work kept in blast)+
qed

definition fresh_world :: world where
  "fresh_world = sample_world\<lparr>w_fs := [([], Dir 0x1ED 1), ([''s''], Dir 0x1ED 1), ([''s'', ''d''], Dir 0x1ED 1),
     ([''s'', ''d'', ''f''], Reg ''new!'' 0x180 6), ([''s'', ''g''], Reg ''more'' 0x1A4 7)]\<rparr>"

lemma first_backup_is_complete_witness:
  "\<exists>ts w2. worker_loop 3 1 (sample_ctx\<lparr>c_queue := (rev ts, True)\<rparr>) fresh_world =
      ((Exited, sample_ctx\<lparr>c_queue := ([], True)\<rparr>), w2) \<and>
    is_dir_node (fs_get (w_fs w2) [''b'', ''current'', ''d'']) \<and>
    fs_get (w_fs w2) [''b'', ''current'', ''d'', ''f''] = Some (Reg ''new!'' 0x180 6) \<and>
    fs_get (w_fs w2) [''b'', ''current'', ''g''] = Some (Reg ''more'' 0x1A4 7)"
proof -
  have cfg: "c_config sample_ctx = sample_config" "cc_mode sample_config = MODE_LOCAL" "\<not> c_stop sample_ctx"
    "cc_dst_root sample_config = ''b''" "m_log_fd sample_monitor \<noteq> 5"
    by (simp_all add: sample_ctx_def sample_config_def sample_monitor_def)
  have fb: "first_backup sample_config ''s'' fresh_world" by code_simp
  have fits: "list_all (entry_fits sample_config ''s'' fresh_world) (tree_paths (is_dir_at fresh_world) fresh_world ''s'')"
    by code_simp
  have calm: "calm fresh_world" "tree_same fresh_world fresh_world" by code_simp (simp add: tree_same_def)
  have reach: "list_all (\<lambda>z. joined ''s'' z \<in> set (tree_paths (is_dir_at fresh_world) fresh_world ''s'') \<and> proper_names z)
    [''d'', ''d/f'', ''g'']" by code_simp
  then have R: "tree_reach (is_dir_at fresh_world) fresh_world ''s'' (joined ''s'' z) \<and> proper_names z"
    if "z \<in> {''d'', ''d/f'', ''g''}" for z using that by (auto simp: set_tree_paths)
  have N: "fs_find fresh_world (joined ''s'' ''d'') = Inr (Dir 0x1ED 1)"
    "fs_find fresh_world (joined ''s'' ''d/f'') = Inr (Reg ''new!'' 0x180 6)"
    "fs_find fresh_world (joined ''s'' ''g'') = Inr (Reg ''more'' 0x1A4 7)" by code_simp+
  have K: "pkey fresh_world (current_file ''b'' ''d'') = [''b'', ''current'', ''d'']"
    "pkey fresh_world (current_file ''b'' ''d/f'') = [''b'', ''current'', ''d'', ''f'']"
    "pkey fresh_world (current_file ''b'' ''g'') = [''b'', ''current'', ''g'']" by code_simp+
  obtain r m' w1 where run: "run_state (scan_directory_and_emit_tasks (\<lambda>_ _. 3) ''s'' ''s'' 5 sample_monitor) fresh_world =
    ((r, m'), w1)" by (metis prod.collapse)
  have H: "first_backup (c_config sample_ctx) ''s'' fresh_world" "cc_mode (c_config sample_ctx) = MODE_LOCAL"
    "list_all (entry_fits (c_config sample_ctx) ''s'' fresh_world) (tree_paths (is_dir_at fresh_world) fresh_world ''s'')"
    using fb fits cfg(1,2) by simp_all
  from first_backup_is_complete [OF run cfg(5) H(1,3,2) cfg(3), of 3 1] show ?thesis
  proof (elim exE conjE, goal_cases)
    case (1 ts)
    have "mset (rev ts) = mset ts \<and> calm fresh_world \<and> tree_same fresh_world fresh_world" using calm by simp
    from 1(3) [THEN spec, THEN spec, THEN spec, THEN mp, OF this, of True] obtain w2
      where W: "worker_loop 3 1 (sample_ctx\<lparr>c_queue := (rev ts, True)\<rparr>) fresh_world =
        ((Exited, sample_ctx\<lparr>c_queue := ([], True)\<rparr>), w2)"
      and kept: "\<And>rel n. tree_reach (is_dir_at fresh_world) fresh_world ''s'' (joined ''s'' rel) \<and> proper_names rel \<and>
        fs_find fresh_world (joined ''s'' rel) = Inr n \<Longrightarrow>
        kept_as n (fs_get (w_fs w2) (pkey fresh_world (current_file ''b'' rel)))"
      unfolding cfg(1,4) by auto
    have "kept_as (Dir 0x1ED 1) (fs_get (w_fs w2) [''b'', ''current'', ''d''])"
      "kept_as (Reg ''new!'' 0x180 6) (fs_get (w_fs w2) [''b'', ''current'', ''d'', ''f''])"
      "kept_as (Reg ''more'' 0x1A4 7) (fs_get (w_fs w2) [''b'', ''current'', ''g''])"
      using kept [of "''d''", OF conjI] kept [of "''d/f''", OF conjI] kept [of "''g''", OF conjI] R N K by simp_all
    then show ?case using W by auto
  qed
qed

end
